(* ===== verification/Prelude.thy ===== *)
theory Prelude
  imports Main "HOL-Library.Word" "HOL-Library.Multiset" "HOL-Library.Sublist"
    "HOL-Library.Product_Lexorder" "HOL-Library.AList"
begin

text \<open>
  What every component shares: the names of the machine types, the parts of
  Rust's standard library the program uses (integer casts, decimal printing,
  string prefixes, \<^verbatim>\<open>std::cmp::Reverse\<close>, \<^verbatim>\<open>BinaryHeap\<close>), and the generic
  lemmas on lists of optional slots that carry the counting arguments of the
  client's and the server's event loops.
\<close>

subsection \<open>Collections of facts\<close>

named_theorems slot_simps \<open>sums over tables of optional slots after an update\<close>
named_theorems frame_simps \<open>fields that an operation leaves alone\<close>

subsection \<open>Machine types\<close>

text \<open>
  An \<^verbatim>\<open>Instant\<close> and a \<^verbatim>\<open>Duration\<close> are nanoseconds. \<^verbatim>\<open>Instant - Instant\<close> and
  \<^verbatim>\<open>duration_since\<close> saturate at zero, as truncated subtraction on \<open>nat\<close> does.
\<close>

type_synonym instant = nat
type_synonym duration = nat
type_synonym byte = "8 word"
type_synonym bytes = "8 word list"
type_synonym usize = nat

abbreviation secs :: "nat \<Rightarrow> duration" where
  "secs n \<equiv> n * 1000000000"

text \<open>\<^verbatim>\<open>x as i64\<close>: the low 64 bits, read as two's complement.\<close>

definition as_i64 :: "int \<Rightarrow> int" where
  "as_i64 x = ((x + 2 ^ 63) mod 2 ^ 64) - 2 ^ 63"

text \<open>\<^verbatim>\<open>x as usize\<close>, \<^verbatim>\<open>x as u64\<close>: the low 64 bits.\<close>

definition as_u64 :: "int \<Rightarrow> nat" where
  "as_u64 x = nat (x mod 2 ^ 64)"

definition as_u32 :: "nat \<Rightarrow> nat" where
  "as_u32 x = x mod 2 ^ 32"

lemma as_i64_id: "- (2 ^ 63) \<le> x \<Longrightarrow> x < 2 ^ 63 \<Longrightarrow> as_i64 x = x"
  by (simp add: as_i64_def)

lemma as_i64_range: "- (2 ^ 63) \<le> as_i64 x \<and> as_i64 x < 2 ^ 63"
proof -
  have "0 \<le> (x + 2 ^ 63) mod 2 ^ 64" "(x + 2 ^ 63) mod 2 ^ 64 < (2 ^ 64 :: int)"
    by simp_all
  then show ?thesis by (simp add: as_i64_def)
qed

lemma as_u64_id: "0 \<le> x \<Longrightarrow> x < 2 ^ 64 \<Longrightarrow> as_u64 x = nat x"
  by (simp add: as_u64_def)

lemma as_u64_lt: "as_u64 x < 2 ^ 64"
proof -
  have "x mod 2 ^ 64 < (2 ^ 64 :: int)" by simp
  then have "nat (x mod 2 ^ 64) < nat (2 ^ 64)"
    by (subst nat_less_eq_zless) simp_all
  then show ?thesis by (simp add: as_u64_def nat_power_eq)
qed

subsection \<open>Decimal and hexadecimal printing\<close>

text \<open>\<^verbatim>\<open>{}\<close> of an unsigned integer.\<close>

definition digit_char :: "nat \<Rightarrow> char" where
  "digit_char d = (if d < 10 then char_of (48 + d) else char_of (87 + d))"

fun show_nat :: "nat \<Rightarrow> string" where
  "show_nat n = (if n < 10 then [digit_char n] else show_nat (n div 10) @ [digit_char (n mod 10)])"

declare show_nat.simps [simp del]

definition show_int :: "int \<Rightarrow> string" where
  "show_int i = (if i < 0 then CHR ''-'' # show_nat (nat (- i)) else show_nat (nat i))"

fun show_hex_digits :: "nat \<Rightarrow> string" where
  "show_hex_digits n =
     (if n < 16 then [digit_char n] else show_hex_digits (n div 16) @ [digit_char (n mod 16)])"

declare show_hex_digits.simps [simp del]

text \<open>\<^verbatim>\<open>{:#x}\<close>.\<close>

definition show_hex :: "nat \<Rightarrow> string" where
  "show_hex n = ''0x'' @ show_hex_digits n"

definition is_ascii_digit :: "char \<Rightarrow> bool" where
  "is_ascii_digit c \<longleftrightarrow> 48 \<le> (of_char c :: nat) \<and> (of_char c :: nat) \<le> 57"

lemma show_nat_nonempty [simp]: "show_nat n \<noteq> []"
  by (subst show_nat.simps) simp

lemma of_digit_char: "d < 10 \<Longrightarrow> (of_char (digit_char d) :: nat) = 48 + d"
  by (simp add: digit_char_def)

lemma digit_chars:
  "digit_char 0 = CHR ''0''" "digit_char 1 = CHR ''1''" "digit_char 2 = CHR ''2''" "digit_char 3 = CHR ''3''"
  "digit_char 4 = CHR ''4''" "digit_char 5 = CHR ''5''" "digit_char 6 = CHR ''6''" "digit_char 7 = CHR ''7''"
  "digit_char 8 = CHR ''8''" "digit_char 9 = CHR ''9''"
  by code_simp+

lemma show_nat_digits: "\<forall>c \<in> set (show_nat n). is_ascii_digit c"
proof (induction n rule: show_nat.induct)
  case (1 n)
  have d: "d < 10 \<Longrightarrow> is_ascii_digit (digit_char d)" for d
    by (simp add: is_ascii_digit_def of_digit_char)
  show ?case
    using 1 by (subst show_nat.simps) (auto intro: d)
qed

subsection \<open>Parsing integers\<close>

text \<open>
  \<^verbatim>\<open>str::parse\<close> for the unsigned and signed integer types: an optional sign, then
  one or more decimal digits, and a value the type can hold.
\<close>

definition digit_val :: "char \<Rightarrow> nat" where
  "digit_val c = of_char c - 48"

definition parse_digits :: "string \<Rightarrow> nat option" where
  "parse_digits s =
     (if s \<noteq> [] \<and> list_all is_ascii_digit s
      then Some (foldl (\<lambda>n c. 10 * n + digit_val c) 0 s) else None)"

definition parse_unsigned :: "nat \<Rightarrow> string \<Rightarrow> nat option" where
  "parse_unsigned bound s =
     (case parse_digits (case s of c # t \<Rightarrow> if c = CHR ''+'' then t else s | [] \<Rightarrow> s) of
        None \<Rightarrow> None
      | Some n \<Rightarrow> if n < bound then Some n else None)"

definition parse_u16 :: "string \<Rightarrow> nat option" where
  "parse_u16 = parse_unsigned (2 ^ 16)"

definition parse_u64 :: "string \<Rightarrow> nat option" where
  "parse_u64 = parse_unsigned (2 ^ 64)"

definition parse_signed :: "nat \<Rightarrow> string \<Rightarrow> int option" where
  "parse_signed bits s =
     (let (neg, t) = (case s of
          c # t \<Rightarrow> if c = CHR ''-'' then (True, t) else if c = CHR ''+'' then (False, t) else (False, s)
        | [] \<Rightarrow> (False, s))
      in case parse_digits t of
           None \<Rightarrow> None
         | Some n \<Rightarrow> (let v = (if neg then - int n else int n)
                     in if - (2 ^ (bits - 1)) \<le> v \<and> v < 2 ^ (bits - 1) then Some v else None))"

definition parse_i64 :: "string \<Rightarrow> int option" where
  "parse_i64 = parse_signed 64"

definition parse_i32 :: "string \<Rightarrow> int option" where
  "parse_i32 = parse_signed 32"

lemma digit_val_digit_char [simp]: "d < 10 \<Longrightarrow> digit_val (digit_char d) = d"
  by (simp add: digit_val_def of_digit_char)

lemma foldl_show_nat: "foldl (\<lambda>n c. 10 * n + digit_val c) 0 (show_nat n) = n"
proof (induction n rule: show_nat.induct)
  case (1 n)
  show ?case
  proof (cases "n < 10")
    case True
    then show ?thesis
      by (subst show_nat.simps) simp
  next
    case False
    with "1.IH" show ?thesis
      by (subst show_nat.simps) simp
  qed
qed

text \<open>Printing and parsing back is the identity.\<close>

lemma parse_digits_show_nat [simp]: "parse_digits (show_nat n) = Some n"
  using show_nat_digits by (auto simp: parse_digits_def foldl_show_nat list_all_iff)

lemma show_nat_inj: "show_nat m = show_nat n \<longleftrightarrow> m = n"
  by (metis option.inject parse_digits_show_nat)

lemma hd_show_nat_digit: "show_nat n = c # t \<Longrightarrow> is_ascii_digit c"
  using show_nat_digits [of n] by simp

lemma parse_unsigned_show_nat [simp]:
  "parse_unsigned b (show_nat n) = (if n < b then Some n else None)"
proof -
  obtain c t where ct: "show_nat n = c # t"
    by (cases "show_nat n") auto
  then have "c \<noteq> CHR ''+''"
    using hd_show_nat_digit [OF ct] by (auto simp: is_ascii_digit_def)
  then have "parse_unsigned b (show_nat n) =
      (case parse_digits (show_nat n) of None \<Rightarrow> None | Some m \<Rightarrow> if m < b then Some m else None)"
    unfolding parse_unsigned_def ct by simp
  then show ?thesis by simp
qed

lemma parse_signed_show_int:
  assumes "- (2 ^ (bits - 1)) \<le> i" and "i < 2 ^ (bits - 1)"
  shows "parse_signed bits (show_int i) = Some i"
proof (cases "i < 0")
  case True
  with assms show ?thesis
    by (simp add: show_int_def parse_signed_def Let_def)
next
  case False
  obtain c t where ct: "show_nat (nat i) = c # t"
    by (cases "show_nat (nat i)") auto
  then have c: "c \<noteq> CHR ''+''" "c \<noteq> CHR ''-''"
    using hd_show_nat_digit [OF ct] by (auto simp: is_ascii_digit_def)
  have "parse_digits (c # t) = Some (nat i)"
    using parse_digits_show_nat [of "nat i"] by (simp add: ct)
  with False c assms show ?thesis
    by (simp add: show_int_def parse_signed_def Let_def ct)
qed

lemma parse_i64_show_int: "- (2 ^ 63) \<le> i \<Longrightarrow> i < 2 ^ 63 \<Longrightarrow> parse_i64 (show_int i) = Some i"
  by (simp add: parse_i64_def parse_signed_show_int)

lemma parse_signed_range:
  "parse_signed bits s = Some i \<Longrightarrow> - (2 ^ (bits - 1)) \<le> i \<and> i < 2 ^ (bits - 1)"
  by (auto simp: parse_signed_def Let_def split: prod.splits option.splits if_splits)

subsection \<open>Tables of optional slots\<close>

text \<open>
  The client's \<^verbatim>\<open>slots: Vec<Option<Conn>>\<close> and the server's
  \<^verbatim>\<open>clients: Vec<Option<Client>>\<close>. \<open>slot_get\<close> is \<^verbatim>\<open>v.get(i).and_then(|s| s.as_ref())\<close>.
\<close>

definition slot_get :: "'a option list \<Rightarrow> nat \<Rightarrow> 'a option" where
  "slot_get xs i = (if i < length xs then xs ! i else None)"

definition slot_val :: "('a \<Rightarrow> nat) \<Rightarrow> 'a option \<Rightarrow> nat" where
  "slot_val f s = (case s of None \<Rightarrow> 0 | Some c \<Rightarrow> f c)"

definition slot_sum :: "('a \<Rightarrow> nat) \<Rightarrow> 'a option list \<Rightarrow> nat" where
  "slot_sum f xs = sum_list (map (slot_val f) xs)"

definition slots_all :: "(nat \<Rightarrow> 'a \<Rightarrow> bool) \<Rightarrow> 'a option list \<Rightarrow> bool" where
  "slots_all P xs \<longleftrightarrow> (\<forall>i c. slot_get xs i = Some c \<longrightarrow> P i c)"

lemma slot_val_simps [simp]:
  "slot_val f None = 0" "slot_val f (Some c) = f c"
  by (simp_all add: slot_val_def)

lemma slot_sum_simps [simp]:
  "slot_sum f [] = 0"
  "slot_sum f (s # xs) = slot_val f s + slot_sum f xs"
  "slot_sum f (xs @ ys) = slot_sum f xs + slot_sum f ys"
  by (simp_all add: slot_sum_def)

lemma slot_get_bound: "slot_get xs i = Some c \<Longrightarrow> i < length xs"
  by (simp add: slot_get_def split: if_splits)

lemma slot_get_nth: "slot_get xs i = Some c \<Longrightarrow> xs ! i = Some c"
  by (simp add: slot_get_def split: if_splits)

lemma slot_get_update [simp]:
  "i < length xs \<Longrightarrow> slot_get (xs[i := v]) j = (if j = i then v else slot_get xs j)"
  by (simp add: slot_get_def nth_list_update)

lemma slot_get_append_None [simp]: "slot_get (xs @ [None]) i = slot_get xs i"
  by (auto simp: slot_get_def nth_append)

lemma slot_sum_update:
  "i < length xs \<Longrightarrow>
     slot_sum f (xs[i := v]) + slot_val f (xs ! i) = slot_sum f xs + slot_val f v"
proof (induction xs arbitrary: i)
  case Nil
  then show ?case by simp
next
  case (Cons x xs)
  then show ?case by (cases i) auto
qed

lemma slot_sum_upd_Some [slot_simps]:
  "slot_get xs i = Some c \<Longrightarrow> slot_sum f (xs[i := Some c']) + f c = slot_sum f xs + f c'"
  using slot_sum_update [of i xs f "Some c'"]
  by (simp add: slot_get_bound slot_get_nth)

lemma slot_sum_upd_None [slot_simps]:
  "slot_get xs i = Some c \<Longrightarrow> slot_sum f (xs[i := None]) + f c = slot_sum f xs"
  using slot_sum_update [of i xs f None]
  by (simp add: slot_get_bound slot_get_nth)

lemma slot_sum_fill [slot_simps]:
  "i < length xs \<Longrightarrow> slot_get xs i = None \<Longrightarrow>
     slot_sum f (xs[i := Some c]) = slot_sum f xs + f c"
  using slot_sum_update [of i xs f "Some c"]
  by (simp add: slot_get_def)

lemma slot_sum_upd_same:
  "slot_get xs i = Some c \<Longrightarrow> f c' = f c \<Longrightarrow> slot_sum f (xs[i := Some c']) = slot_sum f xs"
  using slot_sum_upd_Some [of xs i c f c'] by simp

lemma slot_sum_ge: "slot_get xs i = Some c \<Longrightarrow> f c \<le> slot_sum f xs"
  using slot_sum_upd_None [of xs i c f] by simp

lemma slots_all_update:
  "slots_all P xs \<Longrightarrow> i < length xs \<Longrightarrow> P i c \<Longrightarrow> slots_all P (xs[i := Some c])"
  by (auto simp: slots_all_def)

lemma slots_all_clear: "slots_all P xs \<Longrightarrow> slots_all P (xs[i := None])"
  by (cases "i < length xs") (auto simp: slots_all_def list_update_beyond)

lemma slots_all_append_None [simp]: "slots_all P (xs @ [None]) = slots_all P xs"
  by (simp add: slots_all_def)

lemma slots_allD: "slots_all P xs \<Longrightarrow> slot_get xs i = Some c \<Longrightarrow> P i c"
  by (simp add: slots_all_def)

lemma slots_all_Nil [simp]: "slots_all P []"
  by (simp add: slots_all_def slot_get_def)

subsection \<open>Prefixes\<close>

lemma prefix_drop_split:
  "prefix (xs @ ys) (drop n e) \<longleftrightarrow> prefix xs (drop n e) \<and> prefix ys (drop (n + length xs) e)"
  by (auto simp: prefix_def) (metis append_eq_conv_conj drop_drop add.commute)+

subsection \<open>Sums over association lists\<close>

lemma sum_list_nat_le: "x \<in> set xs \<Longrightarrow> f x \<le> sum_list (map f xs)" for f :: "'a \<Rightarrow> nat"
  by (induction xs) auto

lemma sum_list_filter_le:
  "sum_list (map f (filter P xs)) \<le> sum_list (map f xs)" for f :: "'a \<Rightarrow> nat"
  by (induction xs) auto

subsection \<open>Sharing out\<close>

text \<open>
  The contract of what shares a total out among \<open>n\<close> workers: the parts come to the total
  and are even. The client shares connections out this way and the server its ports.
\<close>

locale even_split =
  fixes fits :: "nat \<Rightarrow> nat \<Rightarrow> bool" and parts :: "nat \<Rightarrow> nat \<Rightarrow> nat list"
  assumes parts_length: "length (parts tot n) = n"
    and parts_sum: "fits tot n \<Longrightarrow> sum_list (parts tot n) = tot"
    and parts_share: "fits tot n \<Longrightarrow> p \<in> set (parts tot n) \<Longrightarrow> tot div n \<le> p \<and> p \<le> tot div n + 1"
begin

lemma balanced: "fits tot n \<Longrightarrow> p \<in> set (parts tot n) \<Longrightarrow> q \<in> set (parts tot n) \<Longrightarrow> p \<le> q + 1"
  using parts_share [of tot n p] parts_share [of tot n q] by linarith

lemma everyone: "fits tot n \<Longrightarrow> n \<le> tot \<Longrightarrow> p \<in> set (parts tot n) \<Longrightarrow> 1 \<le> p"
  using parts_share [of tot n p] parts_length [of tot n] div_le_mono [of n tot n] by (cases "n = 0") auto

lemma sum_parts: "fits tot n \<Longrightarrow> (\<Sum>i<n. int (parts tot n ! i)) = int tot"
  using parts_sum [of tot n] parts_length [of tot n] by (simp add: sum_list_sum_nth atLeast0LessThan flip: of_nat_sum)

end

end
