(* ===== verification/Containers.thy ===== *)
theory Containers
  imports Prelude
begin

text \<open>
  The containers both event loops are built on, with their contracts as
  locales: \<^verbatim>\<open>BinaryHeap<Reverse<(Instant, usize)>>\<close> for the timers, the table
  \<^verbatim>\<open>Vec<Option<T>>\<close> with its \<^verbatim>\<open>free\<close> list for connections, and Rust's
  \<^verbatim>\<open>HashMap\<close> as an association list. The locales are interpreted on the
  models below; the client's and the server's proofs use the facts of the
  interpretations only.
\<close>

subsection \<open>\<^verbatim>\<open>std::cmp::Reverse\<close>\<close>

datatype 'a reverse = Reverse (unreverse: 'a)

instantiation reverse :: (linorder) linorder
begin

definition less_eq_reverse :: "'a reverse \<Rightarrow> 'a reverse \<Rightarrow> bool" where
  "less_eq_reverse x y \<longleftrightarrow> unreverse y \<le> unreverse x"

definition less_reverse :: "'a reverse \<Rightarrow> 'a reverse \<Rightarrow> bool" where
  "less_reverse x y \<longleftrightarrow> unreverse y < unreverse x"

instance
  by standard
    (auto simp: less_eq_reverse_def less_reverse_def intro: reverse.expand)

end

lemma Reverse_le [simp]: "Reverse x \<le> Reverse y \<longleftrightarrow> y \<le> x"
  by (simp add: less_eq_reverse_def)

lemma Reverse_less [simp]: "Reverse x < Reverse y \<longleftrightarrow> y < x"
  by (simp add: less_reverse_def)

subsection \<open>\<^verbatim>\<open>std::collections::BinaryHeap\<close>\<close>

text \<open>
  A max-heap is observed only through \<^verbatim>\<open>push\<close>, \<^verbatim>\<open>peek\<close> and \<^verbatim>\<open>pop\<close>, so the model
  keeps its elements in a list and computes the maximum.
\<close>

type_synonym 'a heap = "'a list"

definition heap_push :: "'a \<Rightarrow> 'a heap \<Rightarrow> 'a heap" where
  "heap_push x h = x # h"

definition heap_peek :: "'a::linorder heap \<Rightarrow> 'a option" where
  "heap_peek h = (case h of [] \<Rightarrow> None | x # xs \<Rightarrow> Some (fold max xs x))"

definition heap_pop :: "'a::linorder heap \<Rightarrow> 'a heap" where
  "heap_pop h = (case heap_peek h of None \<Rightarrow> h | Some x \<Rightarrow> remove1 x h)"

locale max_heap =
  fixes empty :: "'h"
    and push :: "'a::linorder \<Rightarrow> 'h \<Rightarrow> 'h"
    and peek :: "'h \<Rightarrow> 'a option"
    and pop :: "'h \<Rightarrow> 'h"
    and elems :: "'h \<Rightarrow> 'a multiset"
  assumes elems_empty: "elems empty = {#}"
    and elems_push: "elems (push x h) = add_mset x (elems h)"
    and peek_None: "peek h = None \<longleftrightarrow> elems h = {#}"
    and peek_mem: "peek h = Some x \<Longrightarrow> x \<in># elems h"
    and peek_max: "peek h = Some x \<Longrightarrow> y \<in># elems h \<Longrightarrow> y \<le> x"
    and elems_pop: "peek h = Some x \<Longrightarrow> elems (pop h) = elems h - {#x#}"
begin

lemma pop_mem: "peek h = Some x \<Longrightarrow> y \<in># elems h \<Longrightarrow> y \<noteq> x \<Longrightarrow> y \<in># elems (pop h)"
  by (simp add: elems_pop in_diff_count)

lemma pop_subset: "peek h = Some x \<Longrightarrow> y \<in># elems (pop h) \<Longrightarrow> y \<in># elems h"
  by (auto simp: elems_pop dest: in_diffD)

lemma size_pop: "peek h = Some x \<Longrightarrow> Suc (size (elems (pop h))) = size (elems h)"
  by (simp add: elems_pop peek_mem size_Suc_Diff1)

lemma push_mem: "x \<in># elems (push x h)"
  by (simp add: elems_push)

lemma push_keeps: "y \<in># elems h \<Longrightarrow> y \<in># elems (push x h)"
  by (simp add: elems_push)

end

lemma fold_max_props:
  fixes x :: "'a::linorder"
  shows "fold max xs x \<in> set (x # xs) \<and> (\<forall>y \<in> set (x # xs). y \<le> fold max xs x)"
proof (induction xs arbitrary: x)
  case Nil
  then show ?case by simp
next
  case (Cons z xs)
  from Cons.IH [of "max z x"] show ?case
    by (auto simp: max_def split: if_splits)
qed

interpretation bin_heap: max_heap "[]" heap_push heap_peek heap_pop mset
proof
  fix h :: "'b::linorder list" and x y
  show "heap_peek h = None \<longleftrightarrow> mset h = {#}"
    by (simp add: heap_peek_def split: list.splits)
  show mem: "heap_peek h = Some x \<Longrightarrow> x \<in># mset h"
    using fold_max_props by (fastforce simp: heap_peek_def split: list.splits)
  show "heap_peek h = Some x \<Longrightarrow> y \<in># mset h \<Longrightarrow> y \<le> x"
    using fold_max_props by (fastforce simp: heap_peek_def split: list.splits)
  show "heap_peek h = Some x \<Longrightarrow> mset (heap_pop h) = mset h - {#x#}"
    by (simp add: heap_pop_def)
qed (simp_all add: heap_push_def)

lemma length_heap_pop: "heap_peek h = Some x \<Longrightarrow> Suc (length (heap_pop h)) = length h"
  using bin_heap.size_pop by (metis size_mset)

lemma heap_timer_min:
  "heap_peek h = Some (Reverse x) \<Longrightarrow> Reverse y \<in> set h \<Longrightarrow> x \<le> y"
  using bin_heap.peek_max [of h "Reverse x" "Reverse y"] by simp

subsection \<open>Slot tables: \<^verbatim>\<open>Vec<Option<T>>\<close> with a free list\<close>

text \<open>
  The client's \<^verbatim>\<open>alloc_slot\<close> and the same code inline in the server's
  \<^verbatim>\<open>on_datagram\<close>: pop the free list, or push a new \<^verbatim>\<open>None\<close>. The free list is a
  stack; its top is the list's head.
\<close>

definition table_alloc :: "'a option list \<Rightarrow> nat list \<Rightarrow> nat \<times> 'a option list \<times> nat list" where
  "table_alloc slots free =
     (case free of
        i # rest \<Rightarrow> (i, slots, rest)
      | [] \<Rightarrow> (length slots, slots @ [None], []))"

definition table_fill :: "nat \<Rightarrow> 'a \<Rightarrow> 'a option list \<Rightarrow> 'a option list" where
  "table_fill i c slots = slots[i := Some c]"

definition table_release ::
    "nat \<Rightarrow> 'a option list \<Rightarrow> nat list \<Rightarrow> 'a option list \<times> nat list" where
  "table_release i slots free = (slots[i := None], i # free)"

text \<open>The free list names distinct, existing, empty slots.\<close>

definition table_ok :: "'a option list \<Rightarrow> nat list \<Rightarrow> bool" where
  "table_ok slots free \<longleftrightarrow>
     distinct free \<and> (\<forall>i \<in> set free. i < length slots \<and> slots ! i = None)"

locale slot_table =
  fixes alloc :: "'a option list \<Rightarrow> nat list \<Rightarrow> nat \<times> 'a option list \<times> nat list"
    and fill :: "nat \<Rightarrow> 'a \<Rightarrow> 'a option list \<Rightarrow> 'a option list"
    and release :: "nat \<Rightarrow> 'a option list \<Rightarrow> nat list \<Rightarrow> 'a option list \<times> nat list"
    and ok :: "'a option list \<Rightarrow> nat list \<Rightarrow> bool"
  assumes ok_empty: "ok [] []"
    and alloc_ok: "ok s f \<Longrightarrow> alloc s f = (i, s', f') \<Longrightarrow>
          ok s' f' \<and> i < length s' \<and> slot_get s' i = None \<and> i \<notin> set f'"
    and alloc_frame: "ok s f \<Longrightarrow> alloc s f = (i, s', f') \<Longrightarrow> slot_get s' j = slot_get s j"
    and fill_ok: "ok s f \<Longrightarrow> i < length s \<Longrightarrow> i \<notin> set f \<Longrightarrow> ok (fill i c s) f"
    and fill_get: "i < length s \<Longrightarrow> slot_get (fill i c s) j = (if j = i then Some c else slot_get s j)"
    and release_ok: "ok s f \<Longrightarrow> slot_get s i = Some c \<Longrightarrow> release i s f = (s', f') \<Longrightarrow> ok s' f'"
    and release_get: "slot_get s i = Some c \<Longrightarrow> release i s f = (s', f') \<Longrightarrow>
          slot_get s' j = (if j = i then None else slot_get s j)"
    and occupied_not_free: "ok s f \<Longrightarrow> slot_get s i = Some c \<Longrightarrow> i \<notin> set f"
begin

text \<open>A connection put into a fresh slot leaves every other connection where it was.\<close>

lemma insert_new:
  assumes "ok s f" and "alloc s f = (i, s', f')"
  shows "slot_get (fill i c s') j = (if j = i then Some c else slot_get s j)"
    and "slot_get s i = None"
    and "ok (fill i c s') f'"
proof -
  from alloc_ok [OF assms] have i: "i < length s'" "i \<notin> set f'" "slot_get s' i = None" and ok': "ok s' f'"
    by auto
  show "slot_get (fill i c s') j = (if j = i then Some c else slot_get s j)"
    using i(1) alloc_frame [OF assms] by (simp add: fill_get)
  show "slot_get s i = None"
    using i(3) alloc_frame [OF assms] by simp
  show "ok (fill i c s') f'"
    using ok' i by (simp add: fill_ok)
qed

text \<open>Releasing what was just inserted gives back the connections there were.\<close>

lemma insert_release:
  assumes "ok s f" and "alloc s f = (i, s', f')" and "release i (fill i c s') f' = (s'', f'')"
  shows "slot_get s'' j = slot_get s j" and "ok s'' f''"
proof -
  have get: "slot_get (fill i c s') i = Some c"
    using insert_new(1) [OF assms(1,2), of c i] by simp
  show "slot_get s'' j = slot_get s j"
    using release_get [OF get assms(3), of j] insert_new(1) [OF assms(1,2), of c j]
      insert_new(2) [OF assms(1,2)] by auto
  show "ok s'' f''"
    using release_ok [OF insert_new(3) [OF assms(1,2)] get assms(3)] .
qed

end

interpretation conn_table: slot_table table_alloc table_fill table_release table_ok
proof
  fix s s' :: "'a option list" and f f' i j c
  show "table_ok ([] :: 'a option list) []"
    by (simp add: table_ok_def)
  show "table_ok s f \<Longrightarrow> table_alloc s f = (i, s', f') \<Longrightarrow>
      table_ok s' f' \<and> i < length s' \<and> slot_get s' i = None \<and> i \<notin> set f'"
    by (auto simp: table_ok_def table_alloc_def slot_get_def nth_append split: list.splits)
  show "table_ok s f \<Longrightarrow> table_alloc s f = (i, s', f') \<Longrightarrow> slot_get s' j = slot_get s j"
    by (auto simp: table_alloc_def slot_get_def nth_append split: list.splits)
  show "table_ok s f \<Longrightarrow> i < length s \<Longrightarrow> i \<notin> set f \<Longrightarrow> table_ok (table_fill i c s) f"
    by (auto simp: table_ok_def table_fill_def nth_list_update)
  show "i < length s \<Longrightarrow> slot_get (table_fill i c s) j = (if j = i then Some c else slot_get s j)"
    by (simp add: table_fill_def)
  show "table_ok s f \<Longrightarrow> slot_get s i = Some c \<Longrightarrow> table_release i s f = (s', f') \<Longrightarrow> table_ok s' f'"
    by (auto simp: table_ok_def table_release_def slot_get_def nth_list_update split: if_splits)
  show "slot_get s i = Some c \<Longrightarrow> table_release i s f = (s', f') \<Longrightarrow>
      slot_get s' j = (if j = i then None else slot_get s j)"
    by (auto simp: table_release_def dest: slot_get_bound)
  show "table_ok s f \<Longrightarrow> slot_get s i = Some c \<Longrightarrow> i \<notin> set f"
    by (auto simp: table_ok_def slot_get_def split: if_splits)
qed

end
