(* ===== verification/Quiche_Api.thy ===== *)
theory Quiche_Api
  imports Prelude
begin

text \<open>
  The code the program calls and does not contain: cloudflare/quiche (QUIC and
  HTTP/3), mio and the operating system's sockets and clock. None of it is
  defined here. It is a parameter of the model: records of operations over
  opaque states, \<open>'q\<close> for \<^verbatim>\<open>quiche::Connection\<close>, \<open>'h\<close> for
  \<^verbatim>\<open>quiche::h3::Connection\<close>, \<open>'s\<close> for a socket and \<open>'w\<close> for the rest of the
  world, so that whatever the network does is in those states. An operation
  that takes \<^verbatim>\<open>&mut\<close> returns the state it leaves behind. The error values are
  those the program tells apart; all others are one constructor with a text.
\<close>

subsection \<open>Errors\<close>

text \<open>The errors of \<^verbatim>\<open>quiche::h3\<close> the program matches on.\<close>

datatype h3_error = H3Done | H3StreamBlocked | H3StreamLimit | H3Other string

text \<open>\<^verbatim>\<open>std::io::Error\<close>: its kind, its errno and its text.\<close>

datatype io_kind = WouldBlock | Interrupted | OtherKind

record io_error =
  ioe_kind :: io_kind
  ioe_raw_os_error :: "int option"
  ioe_text :: string

text \<open>
  How a run of a model fails: the program panics, a loop of the model ran out of
  the fuel it was given, or a loop of the program does not end.
\<close>

datatype fault = Panic | OutOfFuel | Diverge

subsection \<open>Addresses and headers\<close>

datatype ip_addr = V4 nat | V6 nat

record socket_addr =
  sa_ip :: ip_addr
  sa_port :: nat

type_synonym header = "string \<times> bytes"

definition str_bytes :: "string \<Rightarrow> bytes" where
  "str_bytes s = map (\<lambda>c. of_nat (of_char c)) s"

definition bytes_str :: "bytes \<Rightarrow> string" where
  "bytes_str bs = map (\<lambda>b. char_of (unat b)) bs"

subsection \<open>\<^verbatim>\<open>quiche::Connection\<close>\<close>

datatype send_packet = Packet bytes socket_addr | SendDone | SendErr string

record conn_error =
  ce_code :: nat
  ce_reason :: string

record 'q quic_ops =
  q_connect :: "string option \<Rightarrow> bytes \<Rightarrow> socket_addr \<Rightarrow> socket_addr \<Rightarrow> string + 'q"
  q_recv :: "'q \<Rightarrow> bytes \<Rightarrow> socket_addr \<Rightarrow> socket_addr \<Rightarrow> 'q"
  q_send :: "'q \<Rightarrow> send_packet \<times> 'q"
  q_close :: "'q \<Rightarrow> bool \<Rightarrow> nat \<Rightarrow> string \<Rightarrow> 'q"
  q_is_closed :: "'q \<Rightarrow> bool"
  q_is_established :: "'q \<Rightarrow> bool"
  q_is_in_early_data :: "'q \<Rightarrow> bool"
  q_is_timed_out :: "'q \<Rightarrow> bool"
  q_peer_error :: "'q \<Rightarrow> conn_error option"
  q_local_error :: "'q \<Rightarrow> conn_error option"
  q_timeout_instant :: "'q \<Rightarrow> instant option"
  q_on_timeout :: "'q \<Rightarrow> 'q"
  q_send_ack_eliciting :: "'q \<Rightarrow> 'q"
  q_peer_streams_left_bidi :: "'q \<Rightarrow> nat"
  q_max_conn_id_len :: nat

subsection \<open>\<^verbatim>\<open>quiche::h3::Connection\<close>\<close>

datatype h3_event =
    EvHeaders "header list"
  | EvData
  | EvFinished
  | EvReset nat
  | EvGoAway
  | EvPriorityUpdate

record ('q, 'h) h3_ops =
  h3_with_transport :: "'q \<Rightarrow> (string + 'h) \<times> 'q"
  h3_poll :: "'h \<Rightarrow> 'q \<Rightarrow> (h3_error + nat \<times> h3_event) \<times> 'h \<times> 'q"
  h3_recv_body :: "'h \<Rightarrow> 'q \<Rightarrow> nat \<Rightarrow> (h3_error + bytes) \<times> 'h \<times> 'q"
  h3_send_request :: "'h \<Rightarrow> 'q \<Rightarrow> header list \<Rightarrow> bool \<Rightarrow> (h3_error + nat) \<times> 'h \<times> 'q"
  h3_send_response :: "'h \<Rightarrow> 'q \<Rightarrow> nat \<Rightarrow> header list \<Rightarrow> bool \<Rightarrow> (h3_error + unit) \<times> 'h \<times> 'q"
  h3_send_body :: "'h \<Rightarrow> 'q \<Rightarrow> nat \<Rightarrow> bytes \<Rightarrow> bool \<Rightarrow> (h3_error + nat) \<times> 'h \<times> 'q"
  h3_display :: "h3_error \<Rightarrow> string"

subsection \<open>Sockets, the poller and the clock\<close>

record ('w, 's) os_ops =
  os_now :: "'w \<Rightarrow> instant \<times> 'w"
  os_rand :: "nat \<Rightarrow> 'w \<Rightarrow> bytes \<times> 'w"
  os_bind :: "socket_addr \<Rightarrow> 'w \<Rightarrow> (string + 's) \<times> 'w"
  os_connect :: "'s \<Rightarrow> socket_addr \<Rightarrow> string option \<times> 's"
  os_local_addr :: "'s \<Rightarrow> string + socket_addr"
  os_set_buffers :: "'s \<Rightarrow> 's"
  os_register :: "'s \<Rightarrow> nat \<Rightarrow> 'w \<Rightarrow> string option \<times> 'w"
  os_deregister :: "'s \<Rightarrow> 'w \<Rightarrow> 'w"
  os_recv :: "'s \<Rightarrow> (io_error + bytes) \<times> 's"
  os_send :: "'s \<Rightarrow> bytes \<Rightarrow> io_error option \<times> 's"
  os_enobufs :: int
  os_show_addr :: "socket_addr \<Rightarrow> string"

text \<open>
  The three together, with the fuel of the loops whose end the environment
  decides: a loop that takes more steps than this is reported as a fault of
  the run. Any number will do: a loop that ends within it returns the same with more.
\<close>

record ('w, 's, 'q, 'h) deps =
  os :: "('w, 's) os_ops"
  quic :: "'q quic_ops"
  h3api :: "('q, 'h) h3_ops"
  fuel :: nat

text \<open>\<^verbatim>\<open>fn would_block\<close>, the same in \<^verbatim>\<open>engine.rs\<close> and \<^verbatim>\<open>server.rs\<close>.\<close>

definition would_block :: "('w, 's, 'q, 'h) deps \<Rightarrow> io_error \<Rightarrow> bool" where
  "would_block D e \<longleftrightarrow>
     ioe_kind e = WouldBlock \<or> ioe_raw_os_error e = Some (os_enobufs (os D))"

text \<open>\<^verbatim>\<open>fn header\<close>, the same in \<^verbatim>\<open>engine.rs\<close> and \<^verbatim>\<open>server.rs\<close>.\<close>

definition header :: "string \<Rightarrow> string \<Rightarrow> header" where
  "header name value = (name, str_bytes value)"

end
