(* ===== verification/Engine_Conn.thy ===== *)
theory Engine_Conn
  imports Containers Quiche_Api
begin

text \<open>
  One connection of the client, from \<^verbatim>\<open>benchcli-rust/src/engine.rs\<close>: the state of
  \<^verbatim>\<open>struct Conn\<close>, the HTTP/3 side of it (\<^verbatim>\<open>process_conn\<close>, \<^verbatim>\<open>fail_streams\<close>,
  \<^verbatim>\<open>close_reason\<close>) and the part of \<^verbatim>\<open>try_send\<close> that acts on the connection. The
  lemmas account for every request: what \<^verbatim>\<open>process_conn\<close> takes off a connection
  it returns as an event, once.
\<close>

subsection \<open>Types\<close>

datatype cstate = Connecting | Ready | Broken

datatype purpose = New | RedialEcho instant | RedialRate

record dial_job =
  dj_start :: instant
  dj_attempt :: nat
  dj_purpose :: purpose
  dj_slot :: "nat option"

datatype req_kind = KDial | KEcho instant | KRate

record req =
  rq_kind :: req_kind
  rq_expect :: bytes
  rq_status :: nat
  rq_got :: nat
  rq_mismatch :: bool

record pending_body =
  pb_stream :: nat
  pb_body :: bytes
  pb_off :: nat

record ('s, 'q, 'h) conn =
  c_sock :: 's
  c_q :: 'q
  c_h3 :: "'h option"
  c_local :: socket_addr
  c_peer :: socket_addr
  c_state :: cstate
  c_dial :: "dial_job option"
  c_attempt_deadline :: "instant option"
  c_streams :: "(nat \<times> req) list"
  c_pending :: "pending_body list"
  c_queued :: "(req_kind \<times> bytes) list"
  c_deadline :: "instant option"
  c_scheduled :: "instant option"
  c_last_active :: instant
  c_dirty :: bool
  c_in_flight :: nat
  c_goaway :: bool
  c_socket_error :: "string option"

datatype send_error = Blocked string | SendFailed string

datatype conn_event =
    Established
  | Response req_kind "string + nat"
  | Closed string

subsection \<open>Receiving\<close>

text \<open>The \<^verbatim>\<open>:status\<close> of a header list; anything that is not a \<^verbatim>\<open>u16\<close> reads as 0.\<close>

definition status_of :: "header list \<Rightarrow> nat \<Rightarrow> nat" where
  "status_of hs old = foldl (\<lambda>st (n, v).
     if n = '':status'' then (case parse_u16 (bytes_str v) of None \<Rightarrow> 0 | Some s \<Rightarrow> s) else st) old hs"

text \<open>One chunk of a response body: counted, and compared when \<^verbatim>\<open>-check\<close> asks for it.\<close>

definition recv_chunk :: "bool \<Rightarrow> bytes \<Rightarrow> req \<Rightarrow> req" where
  "recv_chunk check chunk r =
     (let n = length chunk; e = rq_got r + n in
      r\<lparr>rq_mismatch :=
          (if check \<and> \<not> rq_mismatch r
           then e > length (rq_expect r) \<or> take n (drop (rq_got r) (rq_expect r)) \<noteq> chunk
           else rq_mismatch r),
        rq_got := e\<rparr>)"

definition upd_req :: "nat \<Rightarrow> (req \<Rightarrow> req) \<Rightarrow> (nat \<times> req) list \<Rightarrow> (nat \<times> req) list" where
  "upd_req sid f m = (case map_of m sid of None \<Rightarrow> m | Some r \<Rightarrow> AList.update sid (f r) m)"

text \<open>\<^verbatim>\<open>while let Ok(n) = h3.recv_body(q, sid, buf)\<close>\<close>

fun recv_loop :: "('w, 's, 'q, 'h) deps \<Rightarrow> bool \<Rightarrow> nat \<Rightarrow> nat \<Rightarrow> 'h \<Rightarrow> ('s, 'q, 'h) conn \<Rightarrow>
    'h \<times> ('s, 'q, 'h) conn \<times> bool" where
  "recv_loop D check 0 sid h c = (h, c, False)"
| "recv_loop D check (Suc n) sid h c =
     (case h3_recv_body (h3api D) h (c_q c) sid of
        (Inl e, h', q') \<Rightarrow> (h', c\<lparr>c_q := q'\<rparr>, True)
      | (Inr chunk, h', q') \<Rightarrow>
          recv_loop D check n sid h'
            (c\<lparr>c_q := q', c_streams := upd_req sid (recv_chunk check chunk) (c_streams c)\<rparr>))"

text \<open>What a finished response comes to.\<close>

definition response_result :: "req \<Rightarrow> string + nat" where
  "response_result r =
     (if rq_status r \<noteq> 200 then Inl (''status '' @ show_nat (rq_status r))
      else if rq_got r \<noteq> length (rq_expect r) then
        Inl (''response body is '' @ show_nat (rq_got r) @ '' bytes, want '' @
             show_nat (length (rq_expect r)))
      else if rq_mismatch r then Inl ''response body is not equal to the request's''
      else Inr (rq_got r))"

text \<open>One arm of the \<^verbatim>\<open>match\<close> on \<^verbatim>\<open>h3.poll\<close>.\<close>

fun poll_event :: "('w, 's, 'q, 'h) deps \<Rightarrow> bool \<Rightarrow> nat \<Rightarrow> h3_event \<Rightarrow> 'h \<Rightarrow> ('s, 'q, 'h) conn \<Rightarrow>
    conn_event list \<Rightarrow> 'h \<times> ('s, 'q, 'h) conn \<times> conn_event list \<times> bool" where
  "poll_event D check sid (EvHeaders hs) h c evs =
     (h, c\<lparr>c_streams := upd_req sid (\<lambda>r. r\<lparr>rq_status := status_of hs (rq_status r)\<rparr>) (c_streams c)\<rparr>,
      evs, True)"
| "poll_event D check sid EvData h c evs =
     (let (h', c', ok) = recv_loop D check (fuel D) sid h c in (h', c', evs, ok))"
| "poll_event D check sid EvFinished h c evs =
     (case map_of (c_streams c) sid of
        None \<Rightarrow> (h, c, evs, True)
      | Some r \<Rightarrow> (h, c\<lparr>c_streams := AList.delete sid (c_streams c)\<rparr>,
                   evs @ [Response (rq_kind r) (response_result r)], True))"
| "poll_event D check sid (EvReset code) h c evs =
     (let c = c\<lparr>c_pending := filter (\<lambda>p. pb_stream p \<noteq> sid) (c_pending c)\<rparr> in
      case map_of (c_streams c) sid of
        None \<Rightarrow> (h, c, evs, True)
      | Some r \<Rightarrow> (h, c\<lparr>c_streams := AList.delete sid (c_streams c)\<rparr>,
                   evs @ [Response (rq_kind r) (Inl (''stream reset: '' @ show_hex code))], True))"
| "poll_event D check sid EvGoAway h c evs = (h, c\<lparr>c_goaway := True\<rparr>, evs, True)"
| "poll_event D check sid EvPriorityUpdate h c evs = (h, c, evs, True)"

text \<open>\<^verbatim>\<open>loop { match h3.poll(q) { ... } }\<close>\<close>

fun poll_loop :: "('w, 's, 'q, 'h) deps \<Rightarrow> bool \<Rightarrow> nat \<Rightarrow> 'h \<Rightarrow> ('s, 'q, 'h) conn \<Rightarrow>
    conn_event list \<Rightarrow> 'h \<times> ('s, 'q, 'h) conn \<times> conn_event list \<times> bool" where
  "poll_loop D check 0 h c evs = (h, c, evs, False)"
| "poll_loop D check (Suc n) h c evs =
     (case h3_poll (h3api D) h (c_q c) of
        (Inr (sid, ev), h', q') \<Rightarrow>
          (let (h'', c', evs', ok) = poll_event D check sid ev h' (c\<lparr>c_q := q'\<rparr>) evs in
           if ok then poll_loop D check n h'' c' evs' else (h'', c', evs', False))
      | (Inl e, h', q') \<Rightarrow>
          (if e = H3Done then (h', c\<lparr>c_q := q'\<rparr>, evs, True)
           else (h', c\<lparr>c_q := q_close (quic D) q' True 0x101 (h3_display (h3api D) e)\<rparr>, evs, True)))"

text \<open>\<^verbatim>\<open>pending.retain_mut(|p| match h3.send_body(...))\<close>\<close>

fun retain_pending :: "('w, 's, 'q, 'h) deps \<Rightarrow> 'h \<Rightarrow> 'q \<Rightarrow> pending_body list \<Rightarrow>
    pending_body list \<times> 'h \<times> 'q" where
  "retain_pending D h q [] = ([], h, q)"
| "retain_pending D h q (p # ps) =
     (case h3_send_body (h3api D) h q (pb_stream p) (drop (pb_off p) (pb_body p)) True of
        (Inr n, h', q') \<Rightarrow>
          (let p' = p\<lparr>pb_off := pb_off p + n\<rparr>; (ps', h'', q'') = retain_pending D h' q' ps in
           (if pb_off p' < length (pb_body p') then p' # ps' else ps', h'', q''))
      | (Inl e, h', q') \<Rightarrow>
          (let (ps', h'', q'') = retain_pending D h' q' ps in
           (if e = H3Done then p # ps' else ps', h'', q'')))"

subsection \<open>Closing\<close>

definition fail_streams :: "('s, 'q, 'h) conn \<Rightarrow> string \<Rightarrow> conn_event list \<Rightarrow>
    conn_event list \<times> ('s, 'q, 'h) conn" where
  "fail_streams c reason evs =
     (evs @ map (\<lambda>(k, b). Response k (Inl (''connection closed: '' @ reason))) (c_queued c)
          @ map (\<lambda>(s, r). Response (rq_kind r) (Inl (''connection closed: '' @ reason))) (c_streams c),
      c\<lparr>c_pending := [], c_queued := [], c_streams := []\<rparr>)"

definition close_reason :: "('w, 's, 'q, 'h) deps \<Rightarrow> 'q \<Rightarrow> string" where
  "close_reason D q =
     (if q_is_timed_out (quic D) q then ''idle timeout''
      else case q_peer_error (quic D) q of
        Some e \<Rightarrow> ''closed by the server: code '' @ show_hex (ce_code e) @ '' '' @ ce_reason e
      | None \<Rightarrow>
          (case q_local_error (quic D) q of
             Some e \<Rightarrow> ''closed here: code '' @ show_hex (ce_code e) @ '' '' @ ce_reason e
           | None \<Rightarrow> ''closed''))"

text \<open>The poll loop, the pending bodies and the last look at whether the connection closed.\<close>

definition process_h3 :: "('w, 's, 'q, 'h) deps \<Rightarrow> bool \<Rightarrow> 'h \<Rightarrow> ('s, 'q, 'h) conn \<Rightarrow>
    conn_event list \<Rightarrow> conn_event list \<times> ('s, 'q, 'h) conn \<times> bool" where
  "process_h3 D check h c evs =
     (let (h1, c1, evs1, ok) = poll_loop D check (fuel D) h c evs;
          (ps, h2, q2) = retain_pending D h1 (c_q c1) (c_pending c1);
          c2 = c1\<lparr>c_h3 := Some h2, c_q := q2, c_pending := ps\<rparr>
      in if q_is_closed (quic D) q2
         then (let reason = close_reason D q2; (evs3, c3) = fail_streams c2 reason evs1
               in (evs3 @ [Closed reason], c3, ok))
         else (evs1, c2, ok))"

definition process_conn :: "('w, 's, 'q, 'h) deps \<Rightarrow> bool \<Rightarrow> ('s, 'q, 'h) conn \<Rightarrow>
    conn_event list \<times> ('s, 'q, 'h) conn \<times> bool" where
  "process_conn D check c =
     (case c_socket_error c of
        Some err \<Rightarrow>
          (let c1 = c\<lparr>c_socket_error := None\<rparr>;
               c2 = (if q_is_closed (quic D) (c_q c1) then c1
                     else c1\<lparr>c_q := q_close (quic D) (c_q c1) False 0x1 []\<rparr>);
               (evs, c3) = fail_streams c2 err []
           in (evs @ [Closed err], c3, True))
      | None \<Rightarrow>
      if q_is_closed (quic D) (c_q c) then
        (let reason = close_reason D (c_q c); (evs, c1) = fail_streams c reason []
         in (evs @ [Closed reason], c1, True))
      else if c_h3 c = None \<and> q_is_established (quic D) (c_q c) then
        (case h3_with_transport (h3api D) (c_q c) of
           (Inr h, q') \<Rightarrow>
             process_h3 D check h (c\<lparr>c_q := q', c_h3 := Some h\<rparr>)
               (if c_state c = Connecting then [Established] else [])
         | (Inl e, q') \<Rightarrow>
             ([Closed (''HTTP/3 setup: '' @ e)], c\<lparr>c_q := q_close (quic D) q' True 0x101 []\<rparr>, True))
      else
        (case c_h3 c of
           None \<Rightarrow> ([], c, True)
         | Some h \<Rightarrow> process_h3 D check h c []))"

subsection \<open>Sending\<close>

text \<open>
  What \<^verbatim>\<open>try_send\<close> does to its connection; the last component says whether the
  caller marks the connection dirty.
\<close>

definition try_send_conn :: "('w, 's, 'q, 'h) deps \<Rightarrow> header list \<Rightarrow> header list \<Rightarrow> ('s, 'q, 'h) conn \<Rightarrow>
    req_kind \<Rightarrow> bytes \<Rightarrow> send_error option \<times> ('s, 'q, 'h) conn \<times> bool" where
  "try_send_conn D get_headers post_headers c kind body =
     (case c_h3 c of
        None \<Rightarrow> (Some (SendFailed ''no HTTP/3 connection''), c, False)
      | Some h \<Rightarrow>
        (let headers = (if kind = KDial then get_headers else post_headers) in
         case h3_send_request (h3api D) h (c_q c) headers (body = []) of
           (Inl e, h', q') \<Rightarrow>
             (if e = H3StreamBlocked \<or> e = H3StreamLimit
              then (Some (Blocked (''send request: '' @ h3_display (h3api D) e)),
                    c\<lparr>c_h3 := Some h', c_q := q'\<rparr>, False)
              else (Some (SendFailed (''send request: '' @ h3_display (h3api D) e)),
                    c\<lparr>c_h3 := Some h', c_q := q_close (quic D) q' True 0x102 []\<rparr>, True))
         | (Inr stream, h', q') \<Rightarrow>
             (let expect = (if kind = KDial then [] else body);
                  r = \<lparr>rq_kind = kind, rq_expect = expect, rq_status = 0, rq_got = 0, rq_mismatch = False\<rparr>
              in
              if body = [] then
                (None, c\<lparr>c_h3 := Some h', c_q := q',
                         c_streams := AList.update stream r (c_streams c)\<rparr>, True)
              else
                (case h3_send_body (h3api D) h' q' stream body True of
                   (res, h'', q'') \<Rightarrow>
                   (case (case res of Inr n \<Rightarrow> Inr n | Inl e \<Rightarrow> if e = H3Done then Inr 0 else Inl e) of
                      Inl e \<Rightarrow>
                        (Some (SendFailed (''send body: '' @ h3_display (h3api D) e)),
                         c\<lparr>c_h3 := Some h'', c_q := q_close (quic D) q'' True 0x102 []\<rparr>, True)
                    | Inr off \<Rightarrow>
                        (None,
                         c\<lparr>c_h3 := Some h'', c_q := q'',
                           c_pending := (if off < length body
                                         then c_pending c @ [\<lparr>pb_stream = stream, pb_body = body, pb_off = off\<rparr>]
                                         else c_pending c),
                           c_streams := AList.update stream r (c_streams c)\<rparr>, True))))))"

subsection \<open>Accounting for requests\<close>

text \<open>
  The requests of a kind that a connection holds, queued or on a stream, and
  those whose end is in a list of events.
\<close>

definition reqs :: "(req_kind \<Rightarrow> bool) \<Rightarrow> ('s, 'q, 'h) conn \<Rightarrow> nat" where
  "reqs P c = length (filter (\<lambda>x. P (fst x)) (c_queued c)) +
              length (filter (\<lambda>x. P (rq_kind (snd x))) (c_streams c))"

fun ev_req :: "(req_kind \<Rightarrow> bool) \<Rightarrow> conn_event \<Rightarrow> bool" where
  "ev_req P (Response k r) = P k"
| "ev_req P _ = False"

definition ev_reqs :: "(req_kind \<Rightarrow> bool) \<Rightarrow> conn_event list \<Rightarrow> nat" where
  "ev_reqs P evs = length (filter (ev_req P) evs)"

text \<open>
  What the client relies on of HTTP/3 stream identifiers, as quiche and RFC 9000
  have it: a request opens a stream whose identifier no earlier request of the
  connection had. \<open>nxt\<close> is the connection's next request stream.
\<close>

definition fresh_streams :: "('w, 's, 'q, 'h) deps \<Rightarrow> ('h \<Rightarrow> nat) \<Rightarrow> bool" where
  "fresh_streams D nxt \<longleftrightarrow>
     (\<forall>h q hs fin s h' q'. h3_send_request (h3api D) h q hs fin = (Inr s, h', q') \<longrightarrow> nxt h \<le> s \<and> s < nxt h') \<and>
     (\<forall>h q hs fin e h' q'. h3_send_request (h3api D) h q hs fin = (Inl e, h', q') \<longrightarrow> nxt h \<le> nxt h') \<and>
     (\<forall>h q sid b fin r h' q'. h3_send_body (h3api D) h q sid b fin = (r, h', q') \<longrightarrow> nxt h \<le> nxt h') \<and>
     (\<forall>h q r h' q'. h3_poll (h3api D) h q = (r, h', q') \<longrightarrow> nxt h \<le> nxt h') \<and>
     (\<forall>h q sid r h' q'. h3_recv_body (h3api D) h q sid = (r, h', q') \<longrightarrow> nxt h \<le> nxt h')"

lemma fresh_streamsD:
  assumes "fresh_streams D nxt"
  shows "h3_send_request (h3api D) h q hs fin = (Inr s, h', q') \<Longrightarrow> nxt h \<le> s \<and> s < nxt h'"
    and "h3_send_request (h3api D) h q hs fin = (Inl e, h', q') \<Longrightarrow> nxt h \<le> nxt h'"
    and "h3_send_body (h3api D) h q sid b fin = (r, h', q') \<Longrightarrow> nxt h \<le> nxt h'"
    and "h3_poll (h3api D) h q = (r', h', q') \<Longrightarrow> nxt h \<le> nxt h'"
    and "h3_recv_body (h3api D) h q sid = (r'', h', q') \<Longrightarrow> nxt h \<le> nxt h'"
proof -
  note fresh = assms [unfolded fresh_streams_def]
  show "h3_send_request (h3api D) h q hs fin = (Inr s, h', q') \<Longrightarrow> nxt h \<le> s \<and> s < nxt h'"
    using fresh by meson
  show "h3_send_request (h3api D) h q hs fin = (Inl e, h', q') \<Longrightarrow> nxt h \<le> nxt h'"
    using fresh by meson
  show "h3_send_body (h3api D) h q sid b fin = (r, h', q') \<Longrightarrow> nxt h \<le> nxt h'"
    using fresh by meson
  show "h3_poll (h3api D) h q = (r', h', q') \<Longrightarrow> nxt h \<le> nxt h'"
    using fresh by meson
  show "h3_recv_body (h3api D) h q sid = (r'', h', q') \<Longrightarrow> nxt h \<le> nxt h'"
    using fresh by meson
qed

text \<open>A stream table: one request per stream, all of them opened before \<open>n\<close>.\<close>

definition streams_wf :: "nat \<Rightarrow> (nat \<times> req) list \<Rightarrow> bool" where
  "streams_wf n m \<longleftrightarrow> distinct (map fst m) \<and> (\<forall>s \<in> fst ` set m. s < n)"

definition conn_wf :: "('h \<Rightarrow> nat) \<Rightarrow> ('s, 'q, 'h) conn \<Rightarrow> bool" where
  "conn_wf nxt c \<longleftrightarrow>
     (case c_h3 c of None \<Rightarrow> c_streams c = [] | Some h \<Rightarrow> streams_wf (nxt h) (c_streams c))"

definition stream_kinds :: "(nat \<times> req) list \<Rightarrow> (nat \<times> req_kind) list" where
  "stream_kinds m = map (\<lambda>(s, r). (s, rq_kind r)) m"

definition cframe where
  "cframe c = (c_sock c, c_local c, c_peer c, c_state c, c_dial c, c_attempt_deadline c,
     c_deadline c, c_scheduled c, c_last_active c, c_dirty c, c_in_flight c)"

lemma cframeD:
  assumes "cframe c' = cframe c"
  shows "c_sock c' = c_sock c" "c_local c' = c_local c" "c_peer c' = c_peer c"
    "c_state c' = c_state c" "c_dial c' = c_dial c"
    "c_attempt_deadline c' = c_attempt_deadline c" "c_deadline c' = c_deadline c"
    "c_scheduled c' = c_scheduled c" "c_last_active c' = c_last_active c"
    "c_dirty c' = c_dirty c" "c_in_flight c' = c_in_flight c"
  using assms by (simp_all add: cframe_def)

lemma cframe_upd [simp]:
  "cframe (c\<lparr>c_q := x1\<rparr>) = cframe c" "cframe (c\<lparr>c_h3 := x2\<rparr>) = cframe c"
  "cframe (c\<lparr>c_streams := x3\<rparr>) = cframe c" "cframe (c\<lparr>c_pending := x4\<rparr>) = cframe c"
  "cframe (c\<lparr>c_queued := x5\<rparr>) = cframe c" "cframe (c\<lparr>c_goaway := x6\<rparr>) = cframe c"
  "cframe (c\<lparr>c_socket_error := x7\<rparr>) = cframe c"
  by (simp_all add: cframe_def)

lemma ev_reqs_simps [simp]:
  "ev_reqs P [] = 0"
  "ev_reqs P (e # evs) = (if ev_req P e then 1 else 0) + ev_reqs P evs"
  "ev_reqs P (xs @ ys) = ev_reqs P xs + ev_reqs P ys"
  by (simp_all add: ev_reqs_def)

lemma reqs_kinds:
  "reqs P c = length (filter (\<lambda>x. P (fst x)) (c_queued c)) +
     length (filter (\<lambda>x. P (snd x)) (stream_kinds (c_streams c)))"
proof -
  have "length (filter (\<lambda>x. P (rq_kind (snd x))) m) = length (filter (\<lambda>x. P (snd x)) (stream_kinds m))"
    for m :: "(nat \<times> req) list"
    by (induction m) (auto simp: stream_kinds_def)
  then show ?thesis by (simp add: reqs_def)
qed

lemma fst_stream_kinds: "map fst (stream_kinds m) = map fst m"
  by (simp add: stream_kinds_def comp_def split_def)

lemma streams_wf_kinds:
  "stream_kinds m' = stream_kinds m \<Longrightarrow> streams_wf n m' = streams_wf n m"
proof -
  assume "stream_kinds m' = stream_kinds m"
  then have "map fst m' = map fst m" by (metis fst_stream_kinds)
  then show ?thesis by (simp add: streams_wf_def flip: set_map)
qed

lemma streams_wf_mono: "streams_wf n m \<Longrightarrow> n \<le> n' \<Longrightarrow> streams_wf n' m"
  by (force simp: streams_wf_def)

lemma streams_wf_Nil [simp]: "streams_wf n []"
  by (simp add: streams_wf_def)

lemma streams_wf_delete: "streams_wf n m \<Longrightarrow> streams_wf n (AList.delete s m)"
  unfolding streams_wf_def using dom_delete_subset [of s m] by (blast intro: distinct_delete)

lemma streams_wf_insert:
  "streams_wf n m \<Longrightarrow> n \<le> s \<Longrightarrow> s < n' \<Longrightarrow> streams_wf n' (AList.update s r m)"
  by (force simp: streams_wf_def distinct_update dom_update update_keys)

lemma kinds_update_same:
  "map_of m s = Some r \<Longrightarrow> rq_kind r' = rq_kind r \<Longrightarrow>
     stream_kinds (AList.update s r' m) = stream_kinds m"
  by (induction m) (auto simp: stream_kinds_def split: if_splits)

lemma kinds_upd_req:
  "(\<And>r. rq_kind (f r) = rq_kind r) \<Longrightarrow> stream_kinds (upd_req s f m) = stream_kinds m"
  by (simp add: upd_req_def kinds_update_same split: option.splits)

lemma rq_kind_recv_chunk [simp]: "rq_kind (recv_chunk check chunk r) = rq_kind r"
  by (simp add: recv_chunk_def Let_def)

lemma count_delete:
  "distinct (map fst m) \<Longrightarrow> map_of m s = Some r \<Longrightarrow>
     length (filter (\<lambda>x. P (rq_kind (snd x))) (AList.delete s m)) + (if P (rq_kind r) then 1 else 0) =
     length (filter (\<lambda>x. P (rq_kind (snd x))) m)"
proof (induction m)
  case Nil
  then show ?case by simp
next
  case (Cons a m)
  obtain s' r' where a: "a = (s', r')" by (cases a)
  show ?case
  proof (cases "s' = s")
    case True
    with Cons.prems have "s \<notin> fst ` set m" by (auto simp: a)
    with Cons.prems True show ?thesis by (simp add: a)
  next
    case False
    with Cons show ?thesis by (auto simp: a)
  qed
qed

lemma count_update_fresh:
  "s \<notin> fst ` set m \<Longrightarrow>
     length (filter (\<lambda>x. P (rq_kind (snd x))) (AList.update s r m)) =
     length (filter (\<lambda>x. P (rq_kind (snd x))) m) + (if P (rq_kind r) then 1 else 0)"
  by (induction m) auto

subsection \<open>\<^verbatim>\<open>process_conn\<close> returns what it takes\<close>

text \<open>
  The three facts every step of the HTTP/3 side keeps: nothing else of the
  connection changes, the stream table stays well formed, and the requests of
  each kind on the connection and in the events are the ones there were.
\<close>

definition poll_rel :: "('h \<Rightarrow> nat) \<Rightarrow> 'h \<Rightarrow> ('s, 'q, 'h) conn \<Rightarrow> conn_event list \<Rightarrow>
    'h \<Rightarrow> ('s, 'q, 'h) conn \<Rightarrow> conn_event list \<Rightarrow> bool" where
  "poll_rel nxt h c evs h' c' evs' \<longleftrightarrow>
     cframe c' = cframe c \<and> c_queued c' = c_queued c \<and> c_socket_error c' = c_socket_error c \<and>
     (streams_wf (nxt h) (c_streams c) \<longrightarrow>
        streams_wf (nxt h') (c_streams c') \<and>
        (\<forall>P. reqs P c' + ev_reqs P evs' = reqs P c + ev_reqs P evs)) \<and>
     (\<exists>more. evs' = evs @ more \<and> (\<forall>e \<in> set more. \<exists>k r. e = Response k r))"

lemma poll_rel_trans:
  "poll_rel nxt h c evs h1 c1 evs1 \<Longrightarrow> poll_rel nxt h1 c1 evs1 h2 c2 evs2 \<Longrightarrow>
     poll_rel nxt h c evs h2 c2 evs2"
  unfolding poll_rel_def by fastforce

lemma poll_rel_kinds:
  assumes "nxt h \<le> nxt h'" "cframe c' = cframe c" "c_queued c' = c_queued c"
    "c_socket_error c' = c_socket_error c" "stream_kinds (c_streams c') = stream_kinds (c_streams c)"
  shows "poll_rel nxt h c evs h' c' evs"
  using assms streams_wf_kinds [OF assms(5)]
  by (auto simp: poll_rel_def reqs_kinds intro: streams_wf_mono)

lemma poll_rel_remove:
  assumes "nxt h \<le> nxt h'" "cframe c' = cframe c" "c_queued c' = c_queued c"
    "c_socket_error c' = c_socket_error c"
    "map_of (c_streams c) sid = Some r" "c_streams c' = AList.delete sid (c_streams c)"
  shows "poll_rel nxt h c evs h' c' (evs @ [Response (rq_kind r) res])"
proof -
  have "reqs P c' + (if P (rq_kind r) then 1 else 0) = reqs P c"
    if "streams_wf (nxt h) (c_streams c)" for P
    using that count_delete [of "c_streams c" sid r P] assms(3,5,6)
    by (simp add: reqs_def streams_wf_def)
  then show ?thesis
    using assms by (auto simp: poll_rel_def intro: streams_wf_mono streams_wf_delete)
qed

lemma recv_loop_rel:
  assumes "fresh_streams D nxt"
  shows "recv_loop D check n sid h c = (h', c', ok) \<Longrightarrow> poll_rel nxt h c evs h' c' evs"
proof (induction n arbitrary: h c)
  case 0
  then show ?case by (auto intro: poll_rel_kinds)
next
  case (Suc n)
  obtain r h1 q1 where r: "h3_recv_body (h3api D) h (c_q c) sid = (r, h1, q1)"
    by (cases "h3_recv_body (h3api D) h (c_q c) sid") auto
  note le = fresh_streamsD(5) [OF assms r]
  show ?case
  proof (cases r)
    case (Inl e)
    with Suc.prems r le show ?thesis by (auto intro: poll_rel_kinds)
  next
    case (Inr chunk)
    let ?c = "c\<lparr>c_q := q1, c_streams := upd_req sid (recv_chunk check chunk) (c_streams c)\<rparr>"
    have "poll_rel nxt h c evs h1 ?c evs"
      using le by (intro poll_rel_kinds) (auto simp: kinds_upd_req)
    moreover from Suc.prems r Inr have "poll_rel nxt h1 ?c evs h' c' evs"
      by (auto intro: Suc.IH)
    ultimately show ?thesis by (rule poll_rel_trans)
  qed
qed

lemma poll_event_rel:
  assumes "fresh_streams D nxt" and "poll_event D check sid ev h c evs = (h', c', evs', ok)"
  shows "poll_rel nxt h c evs h' c' evs'"
proof (cases ev)
  case (EvHeaders hs)
  with assms(2) show ?thesis by (auto intro!: poll_rel_kinds kinds_upd_req)
next
  case EvData
  with assms show ?thesis
    by (auto split: prod.splits intro: recv_loop_rel)
next
  case EvFinished
  with assms(2) show ?thesis
    by (auto split: option.splits intro: poll_rel_kinds intro!: poll_rel_remove)
next
  case (EvReset code)
  with assms(2) show ?thesis
    by (auto simp: Let_def split: option.splits intro: poll_rel_kinds intro!: poll_rel_remove)
qed (use assms(2) in \<open>auto intro: poll_rel_kinds\<close>)

lemma poll_loop_rel:
  assumes "fresh_streams D nxt"
  shows "poll_loop D check n h c evs = (h', c', evs', ok) \<Longrightarrow> poll_rel nxt h c evs h' c' evs'"
proof (induction n arbitrary: h c evs)
  case 0
  then show ?case by (auto intro: poll_rel_kinds)
next
  case (Suc n)
  obtain r h1 q1 where r: "h3_poll (h3api D) h (c_q c) = (r, h1, q1)"
    by (cases "h3_poll (h3api D) h (c_q c)") auto
  note le = fresh_streamsD(4) [OF assms r]
  show ?case
  proof (cases r)
    case (Inl e)
    with Suc.prems r le show ?thesis by (auto intro: poll_rel_kinds split: if_splits)
  next
    case (Inr se)
    obtain sid ev where se: "se = (sid, ev)" by (cases se)
    obtain h2 c2 evs2 ok2 where ev: "poll_event D check sid ev h1 (c\<lparr>c_q := q1\<rparr>) evs = (h2, c2, evs2, ok2)"
      by (metis prod_cases4)
    have "poll_rel nxt h c evs h1 (c\<lparr>c_q := q1\<rparr>) evs"
      using le by (auto intro: poll_rel_kinds)
    from this poll_event_rel [OF assms ev] have step: "poll_rel nxt h c evs h2 c2 evs2"
      by (rule poll_rel_trans)
    from Suc.prems r Inr se ev have
      "(ok2 \<and> poll_loop D check n h2 c2 evs2 = (h', c', evs', ok)) \<or> (h', c', evs') = (h2, c2, evs2)"
      by (auto split: if_splits)
    then show ?thesis
      using step Suc.IH [of h2 c2 evs2] by (auto intro: poll_rel_trans)
  qed
qed

lemma retain_pending_nxt:
  assumes "fresh_streams D nxt"
  shows "retain_pending D h q ps = (ps', h', q') \<Longrightarrow> nxt h \<le> nxt h'"
proof (induction ps arbitrary: h q ps' h' q')
  case Nil
  then show ?case by simp
next
  case (Cons p ps)
  obtain r h1 q1 where r: "h3_send_body (h3api D) h q (pb_stream p) (drop (pb_off p) (pb_body p)) True = (r, h1, q1)"
    by (metis prod_cases3)
  obtain ps2 h2 q2 where rest: "retain_pending D h1 q1 ps = (ps2, h2, q2)"
    by (metis prod_cases3)
  from Cons.prems r rest have "h' = h2"
    by (auto simp: Let_def split: sum.splits)
  with fresh_streamsD(3) [OF assms r] Cons.IH [OF rest] show ?case by simp
qed

text \<open>
  \<open>proc_rel\<close>: what the worker relies on when it calls \<^verbatim>\<open>process_conn\<close>. At most one
  \<open>Closed\<close> is reported, and it is the last event; \<open>Established\<close> is reported only
  first, and only for a connection that is still dialing.
\<close>

definition responses :: "conn_event list \<Rightarrow> bool" where
  "responses evs \<longleftrightarrow> (\<forall>e \<in> set evs. \<exists>k r. e = Response k r)"

definition ev_shape :: "('s, 'q, 'h) conn \<Rightarrow> conn_event list \<Rightarrow> bool" where
  "ev_shape c evs \<longleftrightarrow>
     (\<exists>est mid fin. evs = est @ mid @ fin \<and> responses mid \<and>
        (est = [] \<or> est = [Established] \<and> c_state c = Connecting \<and> c_h3 c = None) \<and>
        (fin = [] \<or> (\<exists>reason. fin = [Closed reason])))"

definition proc_rel :: "('h \<Rightarrow> nat) \<Rightarrow> ('s, 'q, 'h) conn \<Rightarrow> conn_event list \<Rightarrow> ('s, 'q, 'h) conn \<Rightarrow> bool" where
  "proc_rel nxt c evs c' \<longleftrightarrow>
     cframe c' = cframe c \<and> c_socket_error c' = None \<and>
     (conn_wf nxt c \<longrightarrow> conn_wf nxt c' \<and> (\<forall>P. reqs P c' + ev_reqs P evs = reqs P c)) \<and>
     ev_shape c evs"

lemma ev_shape_closed: "responses mid \<Longrightarrow> ev_shape c (mid @ [Closed reason])"
  unfolding ev_shape_def
  by (intro exI [of _ "[]"] exI [of _ mid] exI [of _ "[Closed reason]"]) auto

lemma ev_shapeI:
  "responses mid \<Longrightarrow> fin = [] \<or> (\<exists>reason. fin = [Closed reason]) \<Longrightarrow>
     est = [] \<or> est = [Established] \<and> c_state c = Connecting \<and> c_h3 c = None \<Longrightarrow>
     ev_shape c (est @ mid @ fin)"
  unfolding ev_shape_def by blast

lemma fail_streams_reqs:
  assumes "fail_streams c reason evs = (evs', c')"
  shows "reqs P c' = 0" and "ev_reqs P evs' = ev_reqs P evs + reqs P c"
    and "cframe c' = cframe c" and "c_socket_error c' = c_socket_error c" and "conn_wf nxt c'"
    and "\<exists>more. evs' = evs @ more \<and> responses more"
proof -
  let ?m1 = "map (\<lambda>(k, b). Response k (Inl (''connection closed: '' @ reason))) (c_queued c)"
  let ?m2 = "map (\<lambda>(s, r). Response (rq_kind r) (Inl (''connection closed: '' @ reason))) (c_streams c)"
  have q: "ev_reqs P (map (\<lambda>(k, b). Response k (Inl x)) qs) = length (filter (\<lambda>x. P (fst x)) qs)"
    for qs :: "(req_kind \<times> bytes) list" and x
    by (induction qs) auto
  have s: "ev_reqs P (map (\<lambda>(s, r). Response (rq_kind r) (Inl x)) m) =
      length (filter (\<lambda>x. P (rq_kind (snd x))) m)" for m :: "(nat \<times> req) list" and x
    by (induction m) auto
  from assms have eq: "evs' = evs @ ?m1 @ ?m2" "c' = c\<lparr>c_pending := [], c_queued := [], c_streams := []\<rparr>"
    by (auto simp: fail_streams_def)
  show "reqs P c' = 0" "cframe c' = cframe c" "c_socket_error c' = c_socket_error c" "conn_wf nxt c'"
    by (auto simp: eq reqs_def conn_wf_def split: option.splits)
  show "ev_reqs P evs' = ev_reqs P evs + reqs P c"
    by (simp add: eq reqs_def q s)
  show "\<exists>more. evs' = evs @ more \<and> responses more"
    by (rule exI [of _ "?m1 @ ?m2"]) (auto simp: eq responses_def)
qed

lemma process_h3_rel:
  assumes "fresh_streams D nxt" and "process_h3 D check h c evs = (evs', c', ok)"
    and "c_socket_error c = None"
  shows "cframe c' = cframe c" and "c_socket_error c' = None"
    and "streams_wf (nxt h) (c_streams c) \<Longrightarrow> conn_wf nxt c'"
    and "streams_wf (nxt h) (c_streams c) \<Longrightarrow> reqs P c' + ev_reqs P evs' = reqs P c + ev_reqs P evs"
    and "\<exists>mid fin. evs' = evs @ mid @ fin \<and> responses mid \<and> (fin = [] \<or> (\<exists>reason. fin = [Closed reason]))"
proof -
  obtain h1 c1 evs1 ok1 where poll: "poll_loop D check (fuel D) h c evs = (h1, c1, evs1, ok1)"
    by (metis prod_cases4)
  obtain ps h2 q2 where ret: "retain_pending D h1 (c_q c1) (c_pending c1) = (ps, h2, q2)"
    by (metis prod_cases3)
  define c2 where "c2 = c1\<lparr>c_h3 := Some h2, c_q := q2, c_pending := ps\<rparr>"
  note rel = poll_loop_rel [OF assms(1) poll, unfolded poll_rel_def]
  obtain more where more: "evs1 = evs @ more" "responses more"
    using rel by (auto simp: responses_def)
  have wf2: "conn_wf nxt c2" if "streams_wf (nxt h) (c_streams c)"
    using that rel retain_pending_nxt [OF assms(1) ret]
    by (auto simp: conn_wf_def c2_def intro: streams_wf_mono)
  have r2: "reqs P c2 = reqs P c1" for P
    by (simp add: c2_def reqs_def)
  have fr2: "cframe c2 = cframe c" "c_socket_error c2 = None"
    using rel assms(3) by (auto simp: c2_def)
  show "cframe c' = cframe c" "c_socket_error c' = None"
    using assms(2) poll ret fr2 fail_streams_reqs(3,4)
    by (auto simp: process_h3_def Let_def c2_def fail_streams_def split: if_splits)
  show "streams_wf (nxt h) (c_streams c) \<Longrightarrow> conn_wf nxt c'"
    using assms(2) poll ret wf2
    by (auto simp: process_h3_def Let_def c2_def fail_streams_def conn_wf_def split: if_splits)
  show "\<exists>mid fin. evs' = evs @ mid @ fin \<and> responses mid \<and> (fin = [] \<or> (\<exists>reason. fin = [Closed reason]))"
  proof (cases "q_is_closed (quic D) q2")
    case True
    obtain evs3 c3 where fs: "fail_streams c2 (close_reason D q2) evs1 = (evs3, c3)"
      by fastforce
    obtain more3 where "evs3 = evs1 @ more3" "responses more3"
      using fail_streams_reqs(6) [OF fs] by auto
    moreover have "evs' = evs3 @ [Closed (close_reason D q2)]"
      using assms(2) poll ret True fs by (simp add: process_h3_def Let_def c2_def)
    ultimately show ?thesis
      using more
      by (intro exI [of _ "more @ more3"] exI [of _ "[Closed (close_reason D q2)]"])
        (auto simp: responses_def)
  next
    case False
    then have "evs' = evs1"
      using assms(2) poll ret by (simp add: process_h3_def Let_def)
    then show ?thesis using more by auto
  qed
  show "reqs P c' + ev_reqs P evs' = reqs P c + ev_reqs P evs" if wf: "streams_wf (nxt h) (c_streams c)"
  proof (cases "q_is_closed (quic D) q2")
    case True
    obtain evs3 c3 where fs: "fail_streams c2 (close_reason D q2) evs1 = (evs3, c3)"
      by fastforce
    have "c' = c3" "evs' = evs3 @ [Closed (close_reason D q2)]"
      using assms(2) poll ret True fs by (simp_all add: process_h3_def Let_def c2_def)
    then show ?thesis
      using fail_streams_reqs(1,2) [OF fs, of P] rel wf r2 [of P] by (simp add: add.commute)
  next
    case False
    then have "c' = c2" "evs' = evs1"
      using assms(2) poll ret by (simp_all add: process_h3_def Let_def c2_def)
    then show ?thesis
      using rel wf r2 [of P] by simp
  qed
qed

lemma process_conn_rel:
  assumes "fresh_streams D nxt" and "process_conn D check c = (evs, c', ok)"
  shows "proc_rel nxt c evs c'"
proof (cases "c_socket_error c")
  case (Some err)
  define c2 where "c2 = (let c1 = c\<lparr>c_socket_error := None\<rparr> in
    if q_is_closed (quic D) (c_q c1) then c1
    else c1\<lparr>c_q := q_close (quic D) (c_q c1) False 0x1 []\<rparr>)"
  obtain evs3 c3 where fs: "fail_streams c2 err [] = (evs3, c3)" by fastforce
  then have c2: "cframe c2 = cframe c" "c_socket_error c2 = None" "\<And>P. reqs P c2 = reqs P c"
      "fail_streams c2 err [] = (evs3, c')" "evs = evs3 @ [Closed err]"
    using Some assms(2) by (auto simp: process_conn_def Let_def reqs_def c2_def split: if_splits)
  obtain more where "evs3 = more" "responses more"
    using fail_streams_reqs(6) [OF c2(4)] by auto
  then show ?thesis
    using c2 fail_streams_reqs [OF c2(4)] by (auto simp: proc_rel_def ev_shape_closed)
next
  case None
  note se = this
  consider (closed) "q_is_closed (quic D) (c_q c)"
    | (est) "\<not> q_is_closed (quic D) (c_q c)" "c_h3 c = None" "q_is_established (quic D) (c_q c)"
    | (none) "\<not> q_is_closed (quic D) (c_q c)" "c_h3 c = None" "\<not> q_is_established (quic D) (c_q c)"
    | (some) h where "\<not> q_is_closed (quic D) (c_q c)" "c_h3 c = Some h"
    by fastforce
  then show ?thesis
  proof cases
    case closed
    then obtain evs3 where fs: "fail_streams c (close_reason D (c_q c)) [] = (evs3, c')"
        "evs = evs3 @ [Closed (close_reason D (c_q c))]"
      using assms(2) se by (auto simp: process_conn_def Let_def split: prod.splits)
    obtain more where "evs3 = more" "responses more"
      using fail_streams_reqs(6) [OF fs(1)] by auto
    then show ?thesis
      using fs se fail_streams_reqs [OF fs(1)] by (auto simp: proc_rel_def ev_shape_closed)
  next
    case est
    obtain r q' where wt: "h3_with_transport (h3api D) (c_q c) = (r, q')" by fastforce
    show ?thesis
    proof (cases r)
      case (Inl e)
      with est wt se assms(2) have "evs = [Closed (''HTTP/3 setup: '' @ e)]"
          "c' = c\<lparr>c_q := q_close (quic D) q' True 0x101 []\<rparr>"
        by (auto simp: process_conn_def)
      then show ?thesis
        using se est(2) ev_shape_closed [of "[]"]
        by (auto simp: proc_rel_def conn_wf_def reqs_def responses_def)
    next
      case (Inr h)
      let ?c = "c\<lparr>c_q := q', c_h3 := Some h\<rparr>"
      let ?est = "if c_state c = Connecting then [Established] else []"
      from est wt se assms(2) Inr have ph: "process_h3 D check h ?c ?est = (evs, c', ok)"
        by (auto simp: process_conn_def)
      have wf: "streams_wf (nxt h) (c_streams ?c)" if "conn_wf nxt c"
        using that est by (simp add: conn_wf_def)
      have sc: "c_socket_error ?c = None" using se by simp
      note R = process_h3_rel [OF assms(1) ph sc]
      have "reqs P c' + ev_reqs P evs = reqs P c" if "conn_wf nxt c" for P
        using R(4) [OF wf [OF that], of P] by (simp add: reqs_def split: if_splits)
      moreover have "ev_shape c evs"
      proof -
        have "?est = [] \<or> ?est = [Established] \<and> c_state c = Connecting \<and> c_h3 c = None"
          using est(2) by simp
        with R(5) show ?thesis by (blast intro: ev_shapeI)
      qed
      ultimately show ?thesis
        using R(1,2) R(3) [OF wf] by (auto simp: proc_rel_def)
    qed
  next
    case none
    with se assms(2) ev_shapeI [of "[]" "[]" "[]" c] show ?thesis
      by (auto simp: process_conn_def proc_rel_def responses_def)
  next
    case (some h)
    with se assms(2) have ph: "process_h3 D check h c [] = (evs, c', ok)"
      by (auto simp: process_conn_def)
    note R = process_h3_rel [OF assms(1) ph se]
    have wf: "streams_wf (nxt h) (c_streams c)" if "conn_wf nxt c"
      using that some by (simp add: conn_wf_def)
    have "reqs P c' + ev_reqs P evs = reqs P c" if "conn_wf nxt c" for P
      using R(4) [OF wf [OF that], of P] by simp
    moreover have "ev_shape c evs"
      using R(5) ev_shapeI [of _ _ "[]" c] by fastforce
    ultimately show ?thesis
      using R(1,2) R(3) [OF wf] by (auto simp: proc_rel_def)
  qed
qed

subsection \<open>\<^verbatim>\<open>try_send\<close> adds one request or none\<close>

lemma try_send_conn_rel:
  assumes "fresh_streams D nxt" and "try_send_conn D gh ph c kind body = (err, c', d)"
    and "conn_wf nxt c"
  shows "cframe c' = cframe c" and "c_queued c' = c_queued c"
    and "c_socket_error c' = c_socket_error c" and "conn_wf nxt c'"
    and "reqs P c' = reqs P c + (if err = None \<and> P kind then 1 else 0)"
proof -
  have fr: "cframe c' = cframe c \<and> c_queued c' = c_queued c \<and> c_socket_error c' = c_socket_error c"
    using assms(2)
    by (auto simp: try_send_conn_def Let_def split: option.splits prod.splits sum.splits if_splits)
  then show "cframe c' = cframe c" "c_queued c' = c_queued c" "c_socket_error c' = c_socket_error c"
    by auto
  have "conn_wf nxt c' \<and> reqs P c' = reqs P c + (if err = None \<and> P kind then 1 else 0)"
  proof (cases "c_h3 c")
    case None
    with assms show ?thesis by (auto simp: try_send_conn_def)
  next
    case (Some h)
    let ?hs = "if kind = KDial then gh else ph"
    obtain res h1 q1 where sr: "h3_send_request (h3api D) h (c_q c) ?hs (body = []) = (res, h1, q1)"
      by (metis prod_cases3)
    have wf: "streams_wf (nxt h) (c_streams c)"
      using assms(3) Some by (simp add: conn_wf_def)
    show ?thesis
    proof (cases res)
      case (Inl e)
      with assms(2) Some sr have "c_h3 c' = Some h1" "c_streams c' = c_streams c" "err \<noteq> None"
        by (auto simp: try_send_conn_def Let_def split: if_splits)
      moreover have "nxt h \<le> nxt h1"
        using fresh_streamsD(2) [OF assms(1)] sr Inl by blast
      ultimately show ?thesis
        using wf fr by (auto simp: conn_wf_def reqs_def intro: streams_wf_mono)
    next
      case (Inr s)
      have fresh: "nxt h \<le> s" "s < nxt h1"
        using fresh_streamsD(1) [OF assms(1), of h "c_q c" ?hs "body = []"] sr Inr by auto
      then have new: "s \<notin> fst ` set (c_streams c)"
        using wf by (auto simp: streams_wf_def)
      obtain r2 h2 q2 where sb: "h3_send_body (h3api D) h1 q1 s body True = (r2, h2, q2)"
        by (metis prod_cases3)
      have le: "nxt h1 \<le> nxt h2" using fresh_streamsD(3) [OF assms(1) sb] .
      define r where "r = \<lparr>rq_kind = kind, rq_expect = (if kind = KDial then [] else body),
        rq_status = 0, rq_got = 0, rq_mismatch = False\<rparr>"
      have "\<exists>hh. c_h3 c' = Some hh \<and> nxt h1 \<le> nxt hh \<and>
          ((err = None \<and> c_streams c' = AList.update s r (c_streams c)) \<or>
           (err \<noteq> None \<and> c_streams c' = c_streams c))"
        using assms(2) Some sr Inr sb le
        by (auto simp: try_send_conn_def Let_def r_def split: if_splits sum.splits)
      then obtain hh where cc: "c_h3 c' = Some hh" "nxt h1 \<le> nxt hh"
          "(err = None \<and> c_streams c' = AList.update s r (c_streams c)) \<or>
           (err \<noteq> None \<and> c_streams c' = c_streams c)" "rq_kind r = kind"
        by (auto simp: r_def)
      have "streams_wf (nxt hh) (c_streams c')"
        using cc(2,3) fresh streams_wf_insert [OF wf fresh(1), of "nxt hh" r]
          streams_wf_mono [OF wf, of "nxt hh"] by auto
      then show ?thesis
        using cc fr new by (auto simp: conn_wf_def reqs_def count_update_fresh)
    qed
  qed
  then show "conn_wf nxt c'" "reqs P c' = reqs P c + (if err = None \<and> P kind then 1 else 0)"
    by auto
qed

subsection \<open>What a response is checked for\<close>

lemma fold_recv_chunk_got:
  "rq_got (fold (recv_chunk check) chunks r) = rq_got r + length (concat chunks)"
  "rq_status (fold (recv_chunk check) chunks r) = rq_status r"
  "rq_expect (fold (recv_chunk check) chunks r) = rq_expect r"
  by (induction chunks arbitrary: r) (simp_all add: recv_chunk_def Let_def)

lemma fold_recv_chunk_unchecked:
  "rq_mismatch (fold (recv_chunk False) chunks r) = rq_mismatch r"
  by (induction chunks arbitrary: r) (simp_all add: recv_chunk_def Let_def)

lemma fold_recv_chunk_mismatch_sticky:
  "rq_mismatch r \<Longrightarrow> rq_mismatch (fold (recv_chunk check) chunks r)"
  by (induction chunks arbitrary: r) (simp_all add: recv_chunk_def Let_def)

lemma recv_chunk_prefix:
  assumes "\<not> rq_mismatch r" and "rq_got r \<le> length (rq_expect r)"
  shows "\<not> rq_mismatch (recv_chunk True chunk r) \<longleftrightarrow> prefix chunk (drop (rq_got r) (rq_expect r))"
proof -
  have "length chunk + n \<le> length e \<and> take (length chunk) (drop n e) = chunk \<longleftrightarrow> prefix chunk (drop n e)"
    if "n \<le> length e" for n and e :: bytes
    using that prefix_length_le [of chunk "drop n e"]
    by (auto simp: prefix_def append_eq_conv_conj le_diff_conv2) (metis append_take_drop_id)
  from this [OF assms(2)] assms show ?thesis
    by (auto simp: recv_chunk_def Let_def not_less add.commute)
qed

lemma fold_recv_chunk_checked:
  "\<not> rq_mismatch r \<Longrightarrow> rq_got r \<le> length (rq_expect r) \<Longrightarrow>
     \<not> rq_mismatch (fold (recv_chunk True) chunks r) \<longleftrightarrow>
       prefix (concat chunks) (drop (rq_got r) (rq_expect r))"
proof (induction chunks arbitrary: r)
  case Nil
  then show ?case by simp
next
  case (Cons chunk chunks)
  have up: "rq_got (recv_chunk True chunk r) = rq_got r + length chunk"
    "rq_expect (recv_chunk True chunk r) = rq_expect r"
    by (simp_all add: recv_chunk_def Let_def)
  note pre = recv_chunk_prefix [OF Cons.prems, of chunk]
  show ?case
  proof (cases "rq_mismatch (recv_chunk True chunk r)")
    case True
    with pre show ?thesis
      using fold_recv_chunk_mismatch_sticky [OF True] by (simp add: prefix_drop_split)
  next
    case False
    with pre have p: "prefix chunk (drop (rq_got r) (rq_expect r))" by simp
    then have "rq_got (recv_chunk True chunk r) \<le> length (rq_expect (recv_chunk True chunk r))"
      using prefix_length_le [OF p] Cons.prems(2) by (simp add: up)
    with Cons.IH [OF False] p show ?thesis
      by (simp add: up prefix_drop_split)
  qed
qed

text \<open>
  C2. However a response body is cut into chunks, a checked request
  (\<^verbatim>\<open>-check=true\<close>) ends in success exactly when the status is 200 and the
  chunks put together are the bytes that were sent; unchecked, when the status
  is 200 and as many bytes came back. A success reports the body's length.
\<close>

theorem response_checked:
  assumes "rq_got r = 0" and "\<not> rq_mismatch r"
  shows "((\<exists>n. response_result (fold (recv_chunk True) chunks r) = Inr n) \<longleftrightarrow>
            rq_status r = 200 \<and> concat chunks = rq_expect r) \<and>
         ((\<exists>n. response_result (fold (recv_chunk False) chunks r) = Inr n) \<longleftrightarrow>
            rq_status r = 200 \<and> length (concat chunks) = length (rq_expect r)) \<and>
         (\<forall>check n. response_result (fold (recv_chunk check) chunks r) = Inr n \<longrightarrow>
            n = length (rq_expect r))"
proof (intro conjI)
  have "concat chunks = e \<longleftrightarrow> length (concat chunks) = length e \<and> prefix (concat chunks) e" for e
    by (metis append_eq_append_conv append_Nil2 prefix_def prefix_order.refl)
  then show "(\<exists>n. response_result (fold (recv_chunk True) chunks r) = Inr n) \<longleftrightarrow>
      rq_status r = 200 \<and> concat chunks = rq_expect r"
    using assms fold_recv_chunk_checked [of r chunks]
    by (auto simp: response_result_def fold_recv_chunk_got)
  show "(\<exists>n. response_result (fold (recv_chunk False) chunks r) = Inr n) \<longleftrightarrow>
      rq_status r = 200 \<and> length (concat chunks) = length (rq_expect r)"
    using assms by (auto simp: response_result_def fold_recv_chunk_got fold_recv_chunk_unchecked)
  show "\<forall>check n. response_result (fold (recv_chunk check) chunks r) = Inr n \<longrightarrow>
      n = length (rq_expect r)"
    by (auto simp: response_result_def fold_recv_chunk_got split: if_splits)
qed

definition example_req :: req where
  "example_req = \<lparr>rq_kind = KEcho 0, rq_expect = [1, 2, 3], rq_status = 200, rq_got = 0,
     rq_mismatch = False\<rparr>"

theorem response_checked_witness:
  "response_result (fold (recv_chunk True) [[1, 2], [], [3]] example_req) = Inr 3 \<and>
   \<not> (\<exists>n. response_result (fold (recv_chunk True) [[1, 2], [4]] example_req) = Inr n)"
proof -
  have r: "rq_got example_req = 0" "\<not> rq_mismatch example_req"
    by (simp_all add: example_req_def)
  show ?thesis
    using response_checked [OF r, of "[[1, 2], [], [3]]"] response_checked [OF r, of "[[1, 2], [4]]"]
    by (simp add: example_req_def recv_chunk_def Let_def response_result_def)
qed

end
