(* ===== verification/Latencies.thy ===== *)
theory Latencies
  imports Prelude
begin

text \<open>
  \<^verbatim>\<open>struct Latencies\<close> of \<^verbatim>\<open>benchcli-rust/src/stats.rs\<close>: what a worker records of
  a benchmark, and how the main thread merges the workers' records. The
  \<^verbatim>\<open>HashMap\<close> of error texts is an association list with distinct keys; nothing
  here depends on its order.
\<close>

record latencies =
  costs :: "int list"
  success :: int
  failed :: int
  errors :: "(string \<times> nat) list"

definition lat_default :: latencies where
  "lat_default = \<lparr>costs = [], success = 0, failed = 0, errors = []\<rparr>"

text \<open>\<^verbatim>\<open>*errors.entry(k).or_default() += n\<close>\<close>

definition entry_add :: "string \<Rightarrow> nat \<Rightarrow> (string \<times> nat) list \<Rightarrow> (string \<times> nat) list" where
  "entry_add k n m = AList.update k ((case map_of m k of None \<Rightarrow> 0 | Some v \<Rightarrow> v) + n) m"

definition lat_ok :: "duration \<Rightarrow> latencies \<Rightarrow> latencies" where
  "lat_ok cost l = l\<lparr>costs := costs l @ [as_i64 (int cost)], success := success l + 1\<rparr>"

definition lat_fail :: "string \<Rightarrow> latencies \<Rightarrow> latencies" where
  "lat_fail err l = l\<lparr>failed := failed l + 1, errors := entry_add err 1 (errors l)\<rparr>"

definition lat_merge :: "latencies \<Rightarrow> latencies \<Rightarrow> latencies" where
  "lat_merge l other =
     l\<lparr>costs := costs l @ costs other,
       success := success l + success other,
       failed := failed l + failed other,
       errors := fold (\<lambda>(k, v). entry_add k v) (errors other) (errors l)\<rparr>"

text \<open>How often an error was counted, and how often any was.\<close>

definition err_count :: "latencies \<Rightarrow> string \<Rightarrow> nat" where
  "err_count l k = (case map_of (errors l) k of None \<Rightarrow> 0 | Some v \<Rightarrow> v)"

definition err_total :: "(string \<times> nat) list \<Rightarrow> nat" where
  "err_total m = sum_list (map snd m)"

text \<open>
  A record is well formed when every success has its latency and every failure
  its error text.
\<close>

definition lat_wf :: "latencies \<Rightarrow> bool" where
  "lat_wf l \<longleftrightarrow> success l = int (length (costs l)) \<and> failed l = int (err_total (errors l)) \<and>
     distinct (map fst (errors l))"

lemma distinct_entry_add: "distinct (map fst m) \<Longrightarrow> distinct (map fst (entry_add k n m))"
  by (simp add: entry_add_def distinct_update)

lemma err_total_update:
  "distinct (map fst m) \<Longrightarrow>
     err_total (AList.update k v m) + (case map_of m k of None \<Rightarrow> 0 | Some u \<Rightarrow> u) = err_total m + v"
proof (induction m)
  case Nil
  then show ?case by (simp add: err_total_def)
next
  case (Cons a m)
  then show ?case
    by (cases a) (auto simp: err_total_def map_of_eq_None_iff [symmetric] split: option.splits)
qed

lemma err_total_entry_add:
  "distinct (map fst m) \<Longrightarrow> err_total (entry_add k n m) = err_total m + n"
  using err_total_update [of m k "(case map_of m k of None \<Rightarrow> 0 | Some v \<Rightarrow> v) + n"]
  by (simp add: entry_add_def)

lemma map_of_entry_add:
  "(case map_of (entry_add k n m) j of None \<Rightarrow> 0 | Some v \<Rightarrow> v) =
     (case map_of m j of None \<Rightarrow> 0 | Some v \<Rightarrow> v) + (if j = k then n else 0)"
  by (simp add: entry_add_def update_conv')

lemma fold_entry_add:
  assumes "distinct (map fst m)"
  shows "distinct (map fst (fold (\<lambda>(k, v). entry_add k v) es m))"
    and "err_total (fold (\<lambda>(k, v). entry_add k v) es m) = err_total m + err_total es"
  using assms
proof (induction es arbitrary: m)
  case Nil
  {
    case 1
    then show ?case by simp
  next
    case 2
    then show ?case by (simp add: err_total_def)
  }
next
  case (Cons e es)
  obtain k v where e: "e = (k, v)" by (cases e)
  {
    case 1
    then show ?case by (simp add: e Cons.IH(1) distinct_entry_add)
  next
    case 2
    then show ?case
      by (simp add: e Cons.IH(2) distinct_entry_add err_total_entry_add)
        (simp add: err_total_def)
  }
qed

lemma lat_wf_default: "lat_wf lat_default"
  by (simp add: lat_wf_def lat_default_def err_total_def)

lemma lat_wf_ok: "lat_wf l \<Longrightarrow> lat_wf (lat_ok c l)"
  by (simp add: lat_wf_def lat_ok_def)

lemma lat_wf_fail: "lat_wf l \<Longrightarrow> lat_wf (lat_fail e l)"
  by (simp add: lat_wf_def lat_fail_def distinct_entry_add err_total_entry_add)

lemma lat_wf_merge: "lat_wf l \<Longrightarrow> lat_wf l' \<Longrightarrow> lat_wf (lat_merge l l')"
  by (simp add: lat_wf_def lat_merge_def fold_entry_add)

lemma lat_counts [simp]:
  "success (lat_ok c l) = success l + 1" "failed (lat_ok c l) = failed l"
  "success (lat_fail e l) = success l" "failed (lat_fail e l) = failed l + 1"
  "success (lat_merge l l') = success l + success l'"
  "failed (lat_merge l l') = failed l + failed l'"
  "success lat_default = 0" "failed lat_default = 0"
  by (simp_all add: lat_ok_def lat_fail_def lat_merge_def lat_default_def)

lemma err_count_fail: "err_count (lat_fail e l) k = err_count l k + (if k = e then 1 else 0)"
  by (simp add: err_count_def lat_fail_def map_of_entry_add)

lemma err_count_fold:
  "distinct (map fst es) \<Longrightarrow>
     (case map_of (fold (\<lambda>(k, v). entry_add k v) es m) j of None \<Rightarrow> 0 | Some v \<Rightarrow> v) =
       (case map_of m j of None \<Rightarrow> 0 | Some v \<Rightarrow> v) + (case map_of es j of None \<Rightarrow> 0 | Some v \<Rightarrow> v)"
proof (induction es arbitrary: m)
  case Nil
  then show ?case by simp
next
  case (Cons e es)
  obtain k v where e: "e = (k, v)" by (cases e)
  from Cons.prems have "map_of es k = None"
    by (simp add: e map_of_eq_None_iff)
  with Cons.prems show ?case
    by (simp add: e Cons.IH map_of_entry_add)
qed

lemma err_count_merge:
  "lat_wf l' \<Longrightarrow> err_count (lat_merge l l') k = err_count l k + err_count l' k"
  by (simp add: err_count_def lat_merge_def lat_wf_def err_count_fold)

text \<open>
  C1. The records of the workers, merged one after another into an empty one as
  the main thread does, are well formed and hold every latency of every worker,
  the sum of the successes and of the failures, and for each error text the sum
  of the workers' counts of it: nothing a worker recorded is lost or counted
  twice.
\<close>

theorem merge_outcomes:
  assumes "\<forall>l \<in> set ls. lat_wf l"
  defines "m \<equiv> foldl lat_merge lat_default ls"
  shows "lat_wf m \<and>
    mset (costs m) = sum_list (map (\<lambda>l. mset (costs l)) ls) \<and>
    success m = sum_list (map success ls) \<and> failed m = sum_list (map failed ls) \<and>
    (\<forall>k. err_count m k = sum_list (map (\<lambda>l. err_count l k) ls))"
proof -
  have "lat_wf (foldl lat_merge l0 ls) \<and>
    mset (costs (foldl lat_merge l0 ls)) = mset (costs l0) + sum_list (map (\<lambda>l. mset (costs l)) ls) \<and>
    success (foldl lat_merge l0 ls) = success l0 + sum_list (map success ls) \<and>
    failed (foldl lat_merge l0 ls) = failed l0 + sum_list (map failed ls) \<and>
    (\<forall>k. err_count (foldl lat_merge l0 ls) k =
       err_count l0 k + sum_list (map (\<lambda>l. err_count l k) ls))"
    if "lat_wf l0" for l0
    using assms(1) that
  proof (induction ls arbitrary: l0)
    case Nil
    then show ?case by simp
  next
    case (Cons l ls)
    then show ?case
      using Cons.IH [of "lat_merge l0 l"]
      by (simp add: lat_wf_merge err_count_merge add.assoc) (simp add: lat_merge_def)
  qed
  from this [OF lat_wf_default] show ?thesis
    by (simp add: m_def) (simp add: lat_default_def err_count_def)
qed

theorem merge_outcomes_witness:
  "let ls = [lat_ok 5 (lat_fail ''x'' lat_default), lat_fail ''x'' lat_default] in
   success (foldl lat_merge lat_default ls) = 1 \<and> err_count (foldl lat_merge lat_default ls) ''x'' = 2"
proof -
  let ?ls = "[lat_ok 5 (lat_fail ''x'' lat_default), lat_fail ''x'' lat_default]"
  have "\<forall>l \<in> set ?ls. lat_wf l"
    by (simp add: lat_wf_default lat_wf_fail lat_wf_ok)
  from merge_outcomes [OF this] show ?thesis
    by (simp add: Let_def err_count_fail) (simp add: err_count_def lat_default_def lat_ok_def lat_fail_def entry_add_def)
qed

end
