(* ===== verification/Float64.thy ===== *)
theory Float64
  imports Prelude Complex_Main "HOL-Library.Log_Nat"
begin

text \<open>
  Rust's \<^verbatim>\<open>f64\<close>: IEEE 754 binary64 with rounding to nearest, ties to even. A
  finite \<^verbatim>\<open>f64\<close> is the rational number it denotes and each operation is the exact
  one followed by \<open>f64_rnd\<close>, so the rounding of the source's arithmetic is in the
  model. Values too large for the format keep growing instead of becoming
  infinite; the uses below say why they are never reached or what the program
  does with them.
\<close>

type_synonym f64 = rat

definition round_half_even :: "rat \<Rightarrow> int" where
  "round_half_even x =
     (let n = \<lfloor>x\<rfloor>; d = x - of_int n in
      if d < 1 / 2 then n else if 1 / 2 < d then n + 1 else if even n then n else n + 1)"

text \<open>\<open>\<lfloor>log\<^sub>2 |x|\<rfloor>\<close>, from the lengths of numerator and denominator.\<close>

definition ilog2 :: "rat \<Rightarrow> int" where
  "ilog2 x =
     (let (a, b) = quotient_of \<bar>x\<bar>; k = bitlen a - bitlen b
      in if 2 powi k \<le> \<bar>x\<bar> then k else k - 1)"

text \<open>The exponent of the last place of \<open>x\<close>: 53 bits of precision, down to \<open>2 powi -1074\<close>.\<close>

definition f64_exp :: "rat \<Rightarrow> int" where
  "f64_exp x = max (- 1074) (ilog2 x - 52)"

definition f64_rnd :: "rat \<Rightarrow> f64" where
  "f64_rnd x =
     (if x = 0 then 0
      else of_int (round_half_even (x / 2 powi f64_exp x)) * 2 powi f64_exp x)"

definition fadd :: "f64 \<Rightarrow> f64 \<Rightarrow> f64" where "fadd x y = f64_rnd (x + y)"
definition fsub :: "f64 \<Rightarrow> f64 \<Rightarrow> f64" where "fsub x y = f64_rnd (x - y)"
definition fmul :: "f64 \<Rightarrow> f64 \<Rightarrow> f64" where "fmul x y = f64_rnd (x * y)"
definition fdiv :: "f64 \<Rightarrow> f64 \<Rightarrow> f64" where "fdiv x y = f64_rnd (x / y)"

text \<open>\<^verbatim>\<open>n as f64\<close> of an integer, and \<^verbatim>\<open>x as usize\<close> of a float: truncation, saturating.\<close>

definition f64_of_nat :: "nat \<Rightarrow> f64" where "f64_of_nat n = f64_rnd (of_nat n)"

definition f64_of_int :: "int \<Rightarrow> f64" where "f64_of_int n = f64_rnd (of_int n)"

definition f64_as_usize :: "f64 \<Rightarrow> nat" where
  "f64_as_usize x = min (nat \<lfloor>x\<rfloor>) (2 ^ 64 - 1)"

text \<open>\<^verbatim>\<open>x as i64\<close>: towards zero, saturating.\<close>

definition f64_as_i64 :: "f64 \<Rightarrow> int" where
  "f64_as_i64 x = max (- (2 ^ 63)) (min (2 ^ 63 - 1) (if 0 \<le> x then \<lfloor>x\<rfloor> else \<lceil>x\<rceil>))"

text \<open>\<^verbatim>\<open>Duration::as_secs_f64\<close>\<close>

definition as_secs_f64 :: "duration \<Rightarrow> f64" where
  "as_secs_f64 d =
     fadd (f64_of_nat (d div 1000000000)) (fdiv (f64_of_nat (d mod 1000000000)) 1000000000)"

text \<open>
  \<^verbatim>\<open>Duration::from_secs_f64\<close>: the nearest nanosecond, ties to even. It panics,
  \<^term>\<open>None\<close> here, on a negative number and on one of \<open>2 ^ 64\<close> seconds or more.
\<close>

definition from_secs_f64 :: "f64 \<Rightarrow> duration option" where
  "from_secs_f64 x =
     (if x < 0 then None
      else let ns = nat (round_half_even (x * 1000000000))
           in if ns < 2 ^ 64 * 1000000000 then Some ns else None)"

subsection \<open>Rounding to an integer\<close>

lemma round_half_even_of_int [simp]: "round_half_even (of_int n) = n"
  by (simp add: round_half_even_def)

lemma round_half_even_near: "\<bar>of_int (round_half_even x) - x\<bar> \<le> 1 / 2"
proof -
  have "of_int \<lfloor>x\<rfloor> \<le> x" "x < of_int \<lfloor>x\<rfloor> + 1" by linarith+
  then show ?thesis by (auto simp: round_half_even_def Let_def abs_le_iff)
qed

lemma round_half_even_unique:
  assumes "\<bar>x - of_int n\<bar> < 1 / 2"
  shows "round_half_even x = n"
proof -
  have "\<bar>of_int (round_half_even x - n) :: rat\<bar> < 1"
    unfolding of_int_diff using assms round_half_even_near [of x] by linarith
  then have "\<bar>round_half_even x - n\<bar> < 1"
    by (metis of_int_abs of_int_less_1_iff)
  then show ?thesis by simp
qed

lemma round_half_even_nonneg: "0 \<le> x \<Longrightarrow> 0 \<le> round_half_even x"
proof -
  assume "0 \<le> x"
  then have "0 \<le> \<lfloor>x\<rfloor>" by simp
  then show ?thesis by (auto simp: round_half_even_def Let_def)
qed

subsection \<open>The binary exponent\<close>

lemma quotient_of_pos:
  assumes "quotient_of x = (a, b)"
  shows "0 < b" and "x = of_int a / of_int b" and "0 < x \<Longrightarrow> 0 < a"
proof -
  show b: "0 < b" using assms by (rule quotient_of_denom_pos)
  show x: "x = of_int a / of_int b" using assms by (rule quotient_of_div)
  show "0 < x \<Longrightarrow> 0 < a" using b by (simp add: x zero_less_divide_iff)
qed

lemma bitlen_bounds_powi:
  assumes "0 < a"
  shows "2 powi (bitlen a - 1) \<le> (of_int a :: rat)" and "of_int a < (2 powi bitlen a :: rat)"
proof -
  have n: "0 \<le> bitlen a - 1"
    using bitlen_bounds [OF assms] assms by (cases "bitlen a \<le> 0") auto
  have "2 ^ nat (bitlen a - 1) \<le> a" and "a < 2 ^ nat (bitlen a)"
    using bitlen_bounds [of a] assms by auto
  then have "(of_int (2 ^ nat (bitlen a - 1)) :: rat) \<le> of_int a"
    and "(of_int a :: rat) < of_int (2 ^ nat (bitlen a))"
    by (simp_all only: of_int_le_iff of_int_less_iff)
  then show "2 powi (bitlen a - 1) \<le> (of_int a :: rat)" and "of_int a < (2 powi bitlen a :: rat)"
    using n by (simp_all add: power_int_def)
qed

lemma ilog2_bounds:
  assumes "x \<noteq> 0"
  shows "2 powi ilog2 x \<le> \<bar>x\<bar>" and "\<bar>x\<bar> < 2 powi (ilog2 x + 1)"
proof -
  obtain a b where ab: "quotient_of \<bar>x\<bar> = (a, b)" by fastforce
  let ?k = "bitlen a - bitlen b"
  have x: "\<bar>x\<bar> = of_int a / of_int b" and a: "0 < a" and b: "0 < b"
    using quotient_of_pos [OF ab] assms by auto
  have "\<bar>x\<bar> < 2 powi bitlen a / 2 powi (bitlen b - 1)"
    unfolding x using bitlen_bounds_powi [OF a] bitlen_bounds_powi [OF b] a b
    by (intro frac_less) simp_all
  then have up: "\<bar>x\<bar> < 2 powi (?k + 1)"
    by (simp add: power_int_diff power_int_add field_simps)
  have "2 powi (bitlen a - 1) / 2 powi bitlen b \<le> \<bar>x\<bar>"
    unfolding x using bitlen_bounds_powi [OF a] bitlen_bounds_powi [OF b] a b
    by (intro frac_le) (simp_all add: less_imp_le)
  then have lo: "2 powi (?k - 1) \<le> \<bar>x\<bar>"
    by (simp add: power_int_diff power_int_add field_simps)
  show "2 powi ilog2 x \<le> \<bar>x\<bar>" "\<bar>x\<bar> < 2 powi (ilog2 x + 1)"
    using up lo by (auto simp: ilog2_def ab Let_def)
qed

lemma pow2_less_iff: "(2 :: rat) powi m < 2 powi n \<longleftrightarrow> m < n"
proof
  show "(2 :: rat) powi m < 2 powi n \<Longrightarrow> m < n"
    using power_int_increasing [of n m "2 :: rat"] by (auto simp: not_less [symmetric])
  show "m < n \<Longrightarrow> (2 :: rat) powi m < 2 powi n"
    by (rule power_int_strict_increasing) simp_all
qed

lemma ilog2_unique:
  assumes "2 powi k \<le> \<bar>x\<bar>" and "\<bar>x\<bar> < 2 powi (k + 1)"
  shows "ilog2 x = k"
proof -
  have "x \<noteq> 0" using assms(1) by (metis abs_zero leD zero_less_power_int zero_less_numeral)
  note b = ilog2_bounds [OF this]
  have "(2 :: rat) powi ilog2 x < 2 powi (k + 1)" using b(1) assms(2) by simp
  then have "ilog2 x < k + 1" by (simp add: pow2_less_iff)
  moreover have "(2 :: rat) powi k < 2 powi (ilog2 x + 1)" using b(2) assms(1) by simp
  then have "k < ilog2 x + 1" by (simp add: pow2_less_iff)
  ultimately show ?thesis by simp
qed

subsection \<open>Rounding to 53 bits\<close>

lemma f64_rnd_0 [simp]: "f64_rnd 0 = 0"
  by (simp add: f64_rnd_def)

lemma f64_rnd_nonneg: "0 \<le> x \<Longrightarrow> 0 \<le> f64_rnd x"
  by (simp add: f64_rnd_def round_half_even_nonneg)

lemma f64_rnd_error: "\<bar>f64_rnd x - x\<bar> \<le> 2 powi f64_exp x / 2"
proof (cases "x = 0")
  case True
  then show ?thesis by simp
next
  case False
  let ?u = "2 powi f64_exp x :: rat"
  have u: "0 < ?u" by simp
  have "f64_rnd x - x = (of_int (round_half_even (x / ?u)) - x / ?u) * ?u"
    using False u by (simp add: f64_rnd_def algebra_simps)
  then have "\<bar>f64_rnd x - x\<bar> = \<bar>of_int (round_half_even (x / ?u)) - x / ?u\<bar> * ?u"
    using u by (simp add: abs_mult)
  also have "\<dots> \<le> 1 / 2 * ?u"
    using round_half_even_near [of "x / ?u"] u by (intro mult_right_mono) simp_all
  finally show ?thesis by simp
qed

text \<open>A number less than half a unit in the last place from a multiple of the unit rounds to it.\<close>

lemma f64_rnd_eqI:
  assumes "x \<noteq> 0" and "f64_exp x = e" and "\<bar>x - of_int m * 2 powi e\<bar> < 2 powi e / 2"
  shows "f64_rnd x = of_int m * 2 powi e"
proof -
  let ?u = "2 powi e :: rat"
  have u: "0 < ?u" by simp
  have "x / ?u - of_int m = (x - of_int m * ?u) / ?u"
    using u by (simp add: diff_divide_distrib)
  then have "\<bar>x / ?u - of_int m\<bar> = \<bar>x - of_int m * ?u\<bar> / ?u"
    using u by (simp only: abs_divide abs_of_pos)
  also have "\<dots> < 1 / 2"
    using assms(3) u by (simp add: divide_less_eq)
  finally have "round_half_even (x / ?u) = m" by (rule round_half_even_unique)
  then show ?thesis using assms(1,2) by (simp add: f64_rnd_def)
qed

lemma f64_exp_eq: "2 powi k \<le> \<bar>x\<bar> \<Longrightarrow> \<bar>x\<bar> < 2 powi (k + 1) \<Longrightarrow> - 1022 \<le> k \<Longrightarrow> f64_exp x = k - 52"
  using ilog2_unique [of k x] by (simp add: f64_exp_def)

lemma f64_rnd_int:
  assumes "\<bar>n\<bar> < 2 ^ 53"
  shows "f64_rnd (of_int n) = of_int n"
proof (cases "n = 0")
  case True
  then show ?thesis by simp
next
  case False
  let ?x = "of_int n :: rat"
  have x: "?x \<noteq> 0" using False by simp
  have "\<bar>?x\<bar> < 2 ^ 53"
    using assms by (metis of_int_abs of_int_less_iff of_int_numeral of_int_power)
  then have "(2 :: rat) powi ilog2 ?x < 2 powi 53"
    using ilog2_bounds(1) [OF x] by simp
  then have "ilog2 ?x < 53" by (simp only: pow2_less_iff)
  then have e: "f64_exp ?x \<le> 0" by (simp add: f64_exp_def)
  define k where "k = nat (- f64_exp ?x)"
  have pe: "(2 :: rat) powi f64_exp ?x = 1 / 2 ^ k"
    using e by (simp add: k_def power_int_def inverse_eq_divide power_one_over)
  have z: "of_int (n * 2 ^ k) * 2 powi f64_exp ?x = ?x"
    by (simp add: pe)
  have "f64_rnd ?x = of_int (n * 2 ^ k) * 2 powi f64_exp ?x"
    by (rule f64_rnd_eqI [OF x refl]) (simp only: z, simp)
  then show ?thesis by (simp only: z)
qed

lemma f64_of_nat_exact: "n < 2 ^ 53 \<Longrightarrow> f64_of_nat n = of_nat n"
proof -
  assume "n < 2 ^ 53"
  then have "int n < int (2 ^ 53)" by (simp only: of_nat_less_iff)
  then show ?thesis using f64_rnd_int [of "int n"] by (simp add: f64_of_nat_def)
qed

lemma f64_of_nat_nonneg: "0 \<le> f64_of_nat n"
  by (simp add: f64_of_nat_def f64_rnd_nonneg)

lemma as_secs_f64_nonneg: "0 \<le> as_secs_f64 d"
  by (simp add: as_secs_f64_def fadd_def fdiv_def f64_rnd_nonneg f64_of_nat_nonneg)

text \<open>The relative error of rounding, for numbers that are not tiny.\<close>

lemma f64_rnd_rel:
  assumes "2 powi (- 1022) \<le> \<bar>x\<bar>"
  shows "\<bar>f64_rnd x - x\<bar> \<le> \<bar>x\<bar> / 2 ^ 53"
proof -
  have x: "x \<noteq> 0" using assms by auto
  have "(2 :: rat) powi (- 1022) < 2 powi (ilog2 x + 1)" using assms ilog2_bounds(2) [OF x] by simp
  then have "- 1022 < ilog2 x + 1" by (simp only: pow2_less_iff)
  then have "f64_exp x = ilog2 x - 52" by (simp add: f64_exp_def)
  then have "2 powi f64_exp x / 2 = (2 powi ilog2 x / 2 ^ 53 :: rat)"
    by (simp add: power_int_diff)
  also have "\<dots> \<le> \<bar>x\<bar> / 2 ^ 53" using ilog2_bounds(1) [OF x] by (simp add: divide_right_mono)
  finally show ?thesis using f64_rnd_error [of x] by simp
qed

text \<open>A number closer to an integer than a quarter of its last place rounds to it.\<close>

lemma f64_rnd_near_int:
  assumes m: "0 < m" "m < 2 ^ 53" and near: "\<bar>x - of_int m\<bar> * 2 ^ 54 < of_int m"
  shows "f64_rnd x = of_int m"
proof -
  define k where "k = bitlen m - 1"
  have k: "2 powi k \<le> (of_int m :: rat)" "(of_int m :: rat) < 2 powi (k + 1)"
    using bitlen_bounds_powi [OF m(1)] by (simp_all add: k_def)
  have "(of_int m :: rat) < 2 powi 53" using m(2) by (metis of_int_less_iff of_int_numeral of_int_power power_int_numeral)
  then have "(2 :: rat) powi k < 2 powi 53" using k(1) by simp
  then have k53: "k < 53" by (simp only: pow2_less_iff)
  have k0: "0 \<le> k"
  proof (rule ccontr)
    assume "\<not> 0 \<le> k"
    then have "(2 :: rat) powi (k + 1) \<le> 2 powi 0" by (intro power_int_increasing) simp_all
    then have "(of_int m :: rat) < 1" using k(2) by simp
    then show False using m(1) by simp
  qed
  have pk: "(2 :: rat) powi j = of_int (2 ^ nat j)" if "0 \<le> j" for j using that by (simp add: power_int_def)
  have "m < 2 ^ nat (k + 1)" using k(2) k0 by (simp only: pk of_int_less_iff)
  then have "(of_int (m + 1) :: rat) \<le> of_int (2 ^ nat (k + 1))" by (simp only: of_int_le_iff)
  then have m1: "(of_int m :: rat) + 1 \<le> 2 powi (k + 1)"
    using k0 pk [of "k + 1"] by (simp only: of_int_add of_int_1)
  have small: "\<bar>x - of_int m\<bar> < 1 / 2" using near \<open>(of_int m :: rat) < 2 powi 53\<close> by simp
  have up: "x < 2 powi (k + 1)" using small m1 by linarith
  have "1 \<le> (of_int m :: rat)" using m(1) by simp
  then have pos: "0 < x" using small by linarith
  have u: "of_int (m * 2 ^ nat (j)) * 2 powi (- j) = (of_int m :: rat)" if "0 \<le> j" for j
    using that pk [OF that] by (simp add: power_int_minus)
  have rnd: "f64_rnd x = of_int m" if j: "0 \<le> j" "f64_exp x = - j" and d: "\<bar>x - of_int m\<bar> < 2 powi (- j) / 2" for j
  proof -
    have "f64_rnd x = of_int (m * 2 ^ nat j) * 2 powi (- j)"
    proof (rule f64_rnd_eqI)
      show "\<bar>x - of_int (m * 2 ^ nat j) * 2 powi (- j)\<bar> < 2 powi (- j) / 2" using d by (simp only: u [OF j(1)])
    qed (use pos j in simp_all)
    then show ?thesis by (simp only: u [OF j(1)])
  qed
  show ?thesis
  proof (cases "2 powi k \<le> x")
    case True
    have e: "f64_exp x = - (52 - k)" using f64_exp_eq [of k x] True up pos k0 by simp
    have "\<bar>x - of_int m\<bar> * 2 ^ 54 < 2 powi (k + 1)" using near k(2) by simp
    then have "\<bar>x - of_int m\<bar> < 2 powi (- (52 - k)) / 2"
      by (simp add: power_int_diff power_int_add field_simps)
    with e k53 show ?thesis by (intro rnd [of "52 - k"]) simp_all
  next
    case False
    have "2 ^ nat k \<le> m" using k(1) k0 by (simp only: pk of_int_le_iff)
    moreover have "(of_int m :: rat) < of_int (2 ^ nat k + 1)"
      using False small pk [OF k0] unfolding of_int_add of_int_1 by linarith
    then have "m < 2 ^ nat k + 1" by (simp only: of_int_less_iff)
    ultimately have mk: "m = 2 ^ nat k" by simp
    have "(2 :: rat) powi (k - 1) = of_int m / 2" using mk pk [OF k0] by (simp add: power_int_diff)
    moreover have "of_int m / 2 \<le> x" using near m(1) by (simp add: abs_if split: if_splits)
    ultimately have lo: "2 powi (k - 1) \<le> x" by simp
    have e: "f64_exp x = - (53 - k)" using f64_exp_eq [of "k - 1" x] lo False pos k0 by simp
    have "\<bar>x - of_int m\<bar> * 2 ^ 54 < 2 powi k" using near mk k0 by (simp add: pk)
    then have "\<bar>x - of_int m\<bar> < 2 powi (- (53 - k)) / 2"
      by (simp add: power_int_diff field_simps)
    with e k53 show ?thesis by (intro rnd [of "53 - k"]) simp_all
  qed
qed

subsection \<open>Relative errors\<close>

text \<open>
  The rounding errors. \<open>near n x y\<close>: \<open>x\<close> is within \<open>n\<close> units of relative error
  \<open>2 ^ -52\<close> of \<open>y\<close>.
\<close>

definition near :: "nat \<Rightarrow> f64 \<Rightarrow> rat \<Rightarrow> bool" where
  "near n x y \<longleftrightarrow> \<bar>x - y\<bar> \<le> of_nat n * y / 2 ^ 52"

lemma not_tiny: "1 / 10 ^ 9 \<le> y \<Longrightarrow> 2 powi (- 1021) \<le> y" for y :: rat
proof -
  have "(2 :: rat) powi (- 1021) \<le> 2 powi (- 40)" by (rule power_int_increasing) simp_all
  also have "\<dots> \<le> 1 / 10 ^ 9" by (simp add: power_int_minus inverse_eq_divide)
  finally show "1 / 10 ^ 9 \<le> y \<Longrightarrow> 2 powi (- 1021) \<le> y" by simp
qed

lemma near_0 [simp]: "near n x 0 \<longleftrightarrow> x = 0"
  by (simp add: near_def)

lemma near_half:
  assumes "near n x y" and "n < 2 ^ 51" and "0 \<le> y"
  shows "y / 2 \<le> x" and "x \<le> 2 * y"
proof -
  have "(of_nat n :: rat) \<le> 2 ^ 51"
    using assms(2) by (metis less_imp_le of_nat_le_iff of_nat_numeral of_nat_power)
  then have "of_nat n * y \<le> 2 ^ 51 * y" using assms(3) by (rule mult_right_mono)
  then have "\<bar>x - y\<bar> \<le> y / 2" using assms(1) by (simp add: near_def)
  then show "y / 2 \<le> x" and "x \<le> 2 * y" using assms(3) by linarith+
qed

lemma near_rnd:
  assumes "near n x y" and "2 powi (- 1021) \<le> y" and "n < 2 ^ 51"
  shows "near (n + 1) (f64_rnd x) y"
proof -
  have p: "(2 :: rat) powi (- 1021) = 2 * 2 powi (- 1022)" using power_int_add_1 [of "2 :: rat" "- 1022"] by simp
  have "0 \<le> y" using assms(2) by (rule order_trans [rotated]) simp
  note x = near_half [OF assms(1,3) this]
  then have "2 powi (- 1022) \<le> \<bar>x\<bar>" using assms(2) unfolding p by linarith
  then have "\<bar>f64_rnd x - x\<bar> \<le> \<bar>x\<bar> / 2 ^ 53" by (rule f64_rnd_rel)
  also have "\<dots> \<le> y / 2 ^ 52" using x \<open>0 \<le> y\<close> by simp
  finally show ?thesis
    using assms(1) unfolding near_def of_nat_add of_nat_1 distrib_right add_divide_distrib by linarith
qed

lemma near_add: "near n x y \<Longrightarrow> near n x' y' \<Longrightarrow> near n (x + x') (y + y')"
  unfolding near_def distrib_left add_divide_distrib by linarith

lemma near_mono: "near n x y \<Longrightarrow> n \<le> m \<Longrightarrow> 0 \<le> y \<Longrightarrow> near m x y"
  unfolding near_def by (erule order_trans) (simp add: divide_right_mono mult_right_mono)

lemma near_scale: "near n x y \<Longrightarrow> 0 \<le> c \<Longrightarrow> near n (c * x) (c * y)"
proof -
  assume a: "near n x y" "0 \<le> c"
  have "\<bar>c * x - c * y\<bar> = c * \<bar>x - y\<bar>" using a(2) by (simp add: abs_mult flip: right_diff_distrib)
  also have "\<dots> \<le> c * (of_nat n * y / 2 ^ 52)" using a by (intro mult_left_mono) (simp_all add: near_def)
  finally show ?thesis by (simp add: near_def mult.left_commute)
qed

lemma near_div:
  assumes "near n x y" and "near m x' y'" and "m < 2 ^ 51" and "0 \<le> y" and "0 < y'"
  shows "near (2 * (n + m)) (x / x') (y / y')"
proof -
  have x': "y' / 2 \<le> x'" using near_half(1) [OF assms(2,3)] assms(5) by simp
  then have pos: "0 < x'" using assms(5) by linarith
  have "\<bar>x * y' - y * x'\<bar> = \<bar>(x - y) * y' - y * (x' - y')\<bar>" by (simp add: algebra_simps)
  also have "\<dots> \<le> \<bar>x - y\<bar> * y' + y * \<bar>x' - y'\<bar>"
    using abs_triangle_ineq4 [of "(x - y) * y'" "y * (x' - y')"] assms(4,5) by (simp add: abs_mult)
  also have "\<dots> \<le> (of_nat n * y / 2 ^ 52) * y' + y * (of_nat m * y' / 2 ^ 52)"
    using assms(1,2,4,5) unfolding near_def by (intro add_mono mult_right_mono mult_left_mono) simp_all
  also have "\<dots> = of_nat (n + m) * y * y' / 2 ^ 52" by (simp add: algebra_simps add_divide_distrib)
  finally have d: "\<bar>x * y' - y * x'\<bar> \<le> of_nat (n + m) * y * y' / 2 ^ 52" .
  have "\<bar>x / x' - y / y'\<bar> = \<bar>x * y' - y * x'\<bar> / (x' * y')"
    using pos assms(5) by (simp add: diff_frac_eq abs_divide abs_mult)
  also have "\<dots> \<le> (of_nat (n + m) * y * y' / 2 ^ 52) / (x' * y')"
    using d pos assms(5) by (intro divide_right_mono) simp_all
  also have "\<dots> \<le> (of_nat (n + m) * y * y' / 2 ^ 52) / (y' / 2 * y')"
    using x' pos assms(4,5) by (intro divide_left_mono mult_right_mono mult_pos_pos) simp_all
  also have "\<dots> = of_nat (2 * (n + m)) * (y / y') / 2 ^ 52" using assms(5) by (simp add: field_simps)
  finally show ?thesis by (simp only: near_def)
qed

text \<open>A duration in seconds.\<close>

lemma near_as_secs:
  assumes "d div 1000000000 < 2 ^ 53"
  shows "near 2 (as_secs_f64 d) (of_nat d / 10 ^ 9)"
proof (cases "d = 0")
  case True
  then show ?thesis by (simp add: as_secs_f64_def fadd_def fdiv_def f64_of_nat_def)
next
  case False
  let ?s = "d div 1000000000" and ?r = "d mod 1000000000"
  have r: "f64_of_nat ?r = of_nat ?r" "f64_of_nat ?s = of_nat ?s"
    using assms by (auto intro!: f64_of_nat_exact intro: less_trans [of _ 1000000000])
  have "near 1 (fdiv (of_nat ?r) 1000000000) (of_nat ?r / 10 ^ 9)"
  proof (cases "?r = 0")
    case True
    then show ?thesis by (simp only: fdiv_def of_nat_0 div_0 f64_rnd_0 near_0) simp
  next
    case False
    then have "(1 :: rat) \<le> of_nat ?r" by (metis One_nat_def Suc_leI bot_nat_0.not_eq_extremum of_nat_1 of_nat_le_iff)
    then have "1 / 10 ^ 9 \<le> (of_nat ?r / 10 ^ 9 :: rat)" by (rule divide_right_mono) simp
    from near_rnd [of 0, OF _ not_tiny [OF this]] show ?thesis by (simp add: near_def fdiv_def)
  qed
  moreover have "near 1 (of_nat ?s) (of_nat ?s :: rat)" by (simp add: near_def)
  ultimately have "near 1 (of_nat ?s + fdiv (of_nat ?r) 1000000000) (of_nat ?s + of_nat ?r / 10 ^ 9)"
    by (intro near_add)
  moreover have "(of_nat ?s + of_nat ?r / 10 ^ 9 :: rat) = of_nat (?s * 1000000000 + ?r) / 10 ^ 9"
    unfolding of_nat_add of_nat_mult by (simp add: add_divide_distrib)
  ultimately have "near 1 (of_nat ?s + fdiv (of_nat ?r) 1000000000) (of_nat d / 10 ^ 9)"
    by (simp only: div_mult_mod_eq)
  moreover have "(1 :: rat) \<le> of_nat d" using False by (metis One_nat_def Suc_leI bot_nat_0.not_eq_extremum of_nat_1 of_nat_le_iff)
  then have "1 / 10 ^ 9 \<le> (of_nat d / 10 ^ 9 :: rat)" by (rule divide_right_mono) simp
  ultimately have "near (1 + 1) (f64_rnd (of_nat ?s + fdiv (of_nat ?r) 1000000000)) (of_nat d / 10 ^ 9)"
    by (intro near_rnd not_tiny) simp_all
  then show ?thesis by (simp only: as_secs_f64_def fadd_def r one_add_one)
qed

subsection \<open>Large numbers\<close>

lemma f64_rnd_ge_pow2:
  assumes "2 ^ k \<le> x"
  shows "2 ^ k \<le> f64_rnd x"
proof -
  have "0 < x" using assms by (rule less_le_trans [rotated]) simp
  then have x: "x \<noteq> 0" "0 < x" by simp_all
  have "(2 :: rat) powi int k < 2 powi (ilog2 x + 1)" using assms ilog2_bounds(2) [OF x(1)] x(2) by simp
  then have k: "int k \<le> ilog2 x" by (simp only: pow2_less_iff)
  then have e: "f64_exp x = ilog2 x - 52" by (simp add: f64_exp_def)
  have "(2 :: rat) ^ 52 \<le> x / 2 powi (ilog2 x - 52)"
    using ilog2_bounds(1) [OF x(1)] x(2) by (simp add: power_int_diff field_simps)
  then have "(2 :: int) ^ 52 \<le> \<lfloor>x / 2 powi (ilog2 x - 52)\<rfloor>" by (simp add: le_floor_iff)
  then have "(2 :: int) ^ 52 \<le> round_half_even (x / 2 powi f64_exp x)" by (auto simp: e round_half_even_def Let_def)
  then have "(of_int (2 ^ 52) :: rat) * 2 powi f64_exp x \<le> of_int (round_half_even (x / 2 powi f64_exp x)) * 2 powi f64_exp x"
    by (intro mult_right_mono) (simp_all only: of_int_le_iff, simp)
  then have "(2 :: rat) powi ilog2 x \<le> f64_rnd x" using x by (simp add: f64_rnd_def e power_int_diff)
  moreover have "(2 :: rat) powi int k \<le> 2 powi ilog2 x" using k by (intro power_int_increasing) simp_all
  ultimately show ?thesis by simp
qed

lemma from_secs_f64_large: "2 ^ 64 \<le> x \<Longrightarrow> from_secs_f64 x = None"
proof -
  assume x: "2 ^ 64 \<le> x"
  then have "(of_int (2 ^ 64 * 1000000000) :: rat) \<le> x * 1000000000" by simp
  then have "2 ^ 64 * 1000000000 \<le> \<lfloor>x * 1000000000\<rfloor>" by (simp only: le_floor_iff)
  then have "2 ^ 64 * 1000000000 \<le> round_half_even (x * 1000000000)" by (auto simp: round_half_even_def Let_def)
  then have "2 ^ 64 * 1000000000 \<le> nat (round_half_even (x * 1000000000))" by (simp add: le_nat_iff)
  then show ?thesis using x by (simp add: from_secs_f64_def Let_def)
qed

end
