(* ===== verification/Limiter.thy ===== *)
theory Limiter
  imports Float64
begin

text \<open>
  The token bucket of \<^verbatim>\<open>-el\<close> and \<^verbatim>\<open>-rl\<close>, \<^verbatim>\<open>struct Limiter\<close> of
  \<^verbatim>\<open>benchcli-rust/src/engine.rs\<close>, in \<^verbatim>\<open>f64\<close> arithmetic. The mutex makes each
  \<^verbatim>\<open>take\<close> one step, so the bucket is a value passed along.
\<close>

record limiter =
  lim_rate :: f64
  lim_tokens :: f64
  lim_last :: instant

datatype take_result = Taken | Wait duration | TakePanic

definition limiter_new :: "nat \<Rightarrow> instant \<Rightarrow> limiter" where
  "limiter_new per_second now =
     \<lparr>lim_rate = f64_of_nat per_second, lim_tokens = f64_of_nat per_second, lim_last = now\<rparr>"

definition refill :: "limiter \<Rightarrow> nat \<Rightarrow> instant \<Rightarrow> f64" where
  "refill l n now =
     min (fadd (lim_tokens l) (fmul (as_secs_f64 (now - lim_last l)) (lim_rate l)))
         (max (lim_rate l) (f64_of_nat n))"

definition take_tokens :: "limiter \<Rightarrow> nat \<Rightarrow> instant \<Rightarrow> take_result \<times> limiter" where
  "take_tokens l n now =
     (let t = refill l n now in
      if f64_of_nat n \<le> t
      then (Taken, l\<lparr>lim_tokens := fsub t (f64_of_nat n), lim_last := now\<rparr>)
      else (case from_secs_f64 (fdiv (fsub (f64_of_nat n) t) (lim_rate l)) of
              Some w \<Rightarrow> (Wait w, l\<lparr>lim_tokens := t, lim_last := now\<rparr>)
            | None \<Rightarrow> (TakePanic, l\<lparr>lim_tokens := t, lim_last := now\<rparr>)))"

text \<open>The bucket never goes below empty.\<close>

definition limiter_wf :: "limiter \<Rightarrow> bool" where
  "limiter_wf l \<longleftrightarrow> 0 < lim_rate l \<and> 0 \<le> lim_tokens l"

lemma f64_of_nat_pos: "0 < n \<Longrightarrow> 0 < f64_of_nat n"
proof -
  assume n: "0 < n"
  have x: "(of_nat n :: rat) \<noteq> 0" using n by simp
  have "(1 :: rat) \<le> of_nat n" using n by simp
  then have "(2 :: rat) powi 0 < 2 powi (ilog2 (of_nat n) + 1)"
    using ilog2_bounds(2) [OF x] by simp
  then have "0 < ilog2 (of_nat n :: rat) + 1" by (simp only: pow2_less_iff)
  then have "f64_exp (of_nat n) \<le> ilog2 (of_nat n)" by (simp add: f64_exp_def)
  then have le: "(2 :: rat) powi f64_exp (of_nat n) \<le> of_nat n"
    using power_int_increasing [of "f64_exp (of_nat n)" "ilog2 (of_nat n)" "2 :: rat"]
      ilog2_bounds(1) [OF x] by simp
  have "0 < (2 :: rat) powi f64_exp (of_nat n)" by simp
  then have "(2 :: rat) powi f64_exp (of_nat n) / 2 < of_nat n" using le by linarith
  then show ?thesis
    using f64_rnd_error [of "of_nat n"] unfolding f64_of_nat_def by linarith
qed

lemma limiter_new_wf: "0 < n \<Longrightarrow> limiter_wf (limiter_new n now)"
  by (simp add: limiter_wf_def limiter_new_def f64_of_nat_pos f64_of_nat_nonneg)

lemma refill_nonneg: "limiter_wf l \<Longrightarrow> 0 \<le> refill l n now"
  by (simp add: limiter_wf_def refill_def fadd_def fmul_def f64_rnd_nonneg as_secs_f64_nonneg
      le_max_iff_disj)

lemma take_tokens_wf:
  assumes "limiter_wf l" and "take_tokens l n now = (r, l')"
  shows "limiter_wf l'" and "lim_rate l' = lim_rate l" and "lim_last l' = now"
  using assms refill_nonneg [OF assms(1), of n now]
  by (auto simp: take_tokens_def Let_def limiter_wf_def fsub_def f64_rnd_nonneg
      split: if_splits option.splits)

subsection \<open>How much is granted\<close>

text \<open>A sequence of takes, each a number of tokens at a time: the bucket after it and what was granted.\<close>

fun take_all :: "limiter \<Rightarrow> (nat \<times> instant) list \<Rightarrow> nat \<times> limiter" where
  "take_all l [] = (0, l)"
| "take_all l ((n, now) # reqs) =
     (case take_tokens l n now of (r, l') \<Rightarrow>
        (case take_all l' reqs of (g, l'') \<Rightarrow> ((if r = Taken then n else 0) + g, l'')))"

text \<open>The absolute error of rounding a number up to \<open>M\<close>.\<close>

lemma f64_rnd_abs:
  assumes "0 \<le> x" and "x \<le> M" and "1 \<le> M"
  shows "f64_rnd x \<le> x + M / 2 ^ 53"
proof (cases "x = 0")
  case True
  then show ?thesis using assms(3) by simp
next
  case False
  have "(2 :: rat) powi f64_exp x \<le> M / 2 ^ 52"
  proof (cases "ilog2 x - 52 \<le> - 1074")
    case True
    then have "f64_exp x = - 1074" by (simp add: f64_exp_def)
    then have "(2 :: rat) powi f64_exp x \<le> 2 powi (- 52)" by (simp only:) (rule power_int_increasing; simp)
    also have "\<dots> = 1 / 2 ^ 52" by (simp add: power_int_minus inverse_eq_divide)
    also have "\<dots> \<le> M / 2 ^ 52" using assms(3) by (rule divide_right_mono) simp
    finally show ?thesis .
  next
    case f: False
    then have "f64_exp x = ilog2 x - 52" by (simp add: f64_exp_def)
    then have "(2 :: rat) powi f64_exp x = 2 powi ilog2 x / 2 ^ 52" by (simp add: power_int_diff)
    also have "\<dots> \<le> M / 2 ^ 52"
      using ilog2_bounds(1) [OF False] assms(1,2) by (intro divide_right_mono) simp_all
    finally show ?thesis .
  qed
  then have "(2 :: rat) powi f64_exp x / 2 \<le> (M / 2 ^ 52) / 2" by (rule divide_right_mono) simp
  then have "(2 :: rat) powi f64_exp x / 2 \<le> M / 2 ^ 53" by simp
  then show ?thesis using f64_rnd_error [of x] by linarith
qed

lemma refill_bound:
  assumes "limiter_wf l" and "now - lim_last l < 2 ^ 63" and "1 \<le> M" and "lim_rate l \<le> M" and "f64_of_nat n \<le> M"
  shows "refill l n now \<le> lim_tokens l + lim_rate l * of_nat (now - lim_last l) / 10 ^ 9 + 4 * M / 2 ^ 52"
    and "refill l n now \<le> M"
proof -
  let ?T = "lim_tokens l" and ?R = "lim_rate l" and ?d = "(of_nat (now - lim_last l) :: rat) / 10 ^ 9"
  let ?S = "as_secs_f64 (now - lim_last l)"
  have pos: "0 < ?R" "0 \<le> ?T" "0 \<le> ?d" "0 \<le> ?S" using assms(1) as_secs_f64_nonneg by (simp_all add: limiter_wf_def)
  show M: "refill l n now \<le> M" using assms(4,5) by (simp add: refill_def min.coboundedI2)
  show "refill l n now \<le> ?T + ?R * of_nat (now - lim_last l) / 10 ^ 9 + 4 * M / 2 ^ 52"
  proof (cases "?T + ?R * ?d \<le> M")
    case False
    moreover have "0 \<le> 4 * M / 2 ^ 52" using assms(3) by simp
    ultimately show ?thesis using M by simp
  next
    case True
    have "now - lim_last l < 2 ^ 63" by (rule assms(2))
    then have "(now - lim_last l) div 1000000000 < 2 ^ 53" by (simp add: div_less_iff_less_mult)
    from near_as_secs [OF this] have "?S - ?d \<le> 2 * ?d / 2 ^ 52"
      unfolding near_def of_nat_numeral by (rule abs_le_D1)
    then have S: "?S \<le> ?d + 2 * ?d / 2 ^ 52" by linarith
    have Rd: "0 \<le> ?R * ?d" "?R * ?d \<le> M" using True pos by (simp, linarith)
    have "?S * ?R \<le> (?d + 2 * ?d / 2 ^ 52) * ?R" using S pos by (intro mult_right_mono) simp_all
    also have "\<dots> = ?R * ?d + 2 * (?R * ?d) / 2 ^ 52" by (simp add: algebra_simps)
    finally have SR: "?S * ?R \<le> ?R * ?d + 2 * M / 2 ^ 52" using Rd(2) by simp
    have m: "0 \<le> M / 2 ^ 52" "8 * (M / 2 ^ 52) \<le> M" using assms(3) by simp_all
    have "0 \<le> ?S * ?R" "?S * ?R \<le> 2 * M" "1 \<le> 2 * M" using SR Rd(2) m pos assms(3) by simp_all
    from f64_rnd_abs [OF this] have F: "fmul ?S ?R \<le> ?R * ?d + 3 * M / 2 ^ 52" using SR by (simp add: fmul_def)
    have F0: "0 \<le> fmul ?S ?R" using pos by (simp add: fmul_def f64_rnd_nonneg)
    have "0 \<le> ?T + fmul ?S ?R" "?T + fmul ?S ?R \<le> 2 * M" "1 \<le> 2 * M" using F F0 True m pos assms(3) by simp_all
    from f64_rnd_abs [OF this] have "fadd ?T (fmul ?S ?R) \<le> ?T + ?R * ?d + 4 * M / 2 ^ 52"
      using F by (simp add: fadd_def)
    then show ?thesis by (simp add: refill_def min.coboundedI1)
  qed
qed

lemma take_bound:
  assumes "limiter_wf l" and "now - lim_last l < 2 ^ 63" and "1 \<le> M" and "lim_rate l \<le> M" and "of_nat n \<le> M"
    and "n < 2 ^ 53" and "take_tokens l n now = (r, l')"
  shows "lim_tokens l' + (if r = Taken then of_nat n else 0) \<le>
    lim_tokens l + lim_rate l * of_nat (now - lim_last l) / 10 ^ 9 + 5 * M / 2 ^ 52"
proof -
  have n: "f64_of_nat n = of_nat n" using assms(6) by (rule f64_of_nat_exact)
  note t = refill_bound [OF assms(1-4), of n, unfolded n, OF assms(5)]
  have m: "0 \<le> M / 2 ^ 52" using assms(3) by simp
  show ?thesis
  proof (cases "of_nat n \<le> refill l n now")
    case True
    have "0 \<le> refill l n now - of_nat n" "refill l n now - of_nat n \<le> M" using True t(2) by (simp, linarith)
    from f64_rnd_abs [OF this assms(3)]
    have "lim_tokens l' \<le> refill l n now - of_nat n + M / 2 ^ 53" "r = Taken"
      using assms(7) True by (auto simp: take_tokens_def n fsub_def)
    then show ?thesis using t(1) m by simp
  next
    case False
    then have "lim_tokens l' = refill l n now" "r \<noteq> Taken"
      using assms(7) by (auto simp: take_tokens_def n Let_def split: option.splits)
    then show ?thesis using t(1) m by simp
  qed
qed

lemma take_all_bound:
  assumes "limiter_wf l" and "sorted (lim_last l # map snd reqs)" and "list_all (\<lambda>(n, t). n < 2 ^ 53 \<and> of_nat n \<le> M \<and> t < 2 ^ 63) reqs"
    and "1 \<le> M" and "lim_rate l \<le> M" and "take_all l reqs = (g, l')"
  shows "lim_tokens l' + of_nat g \<le> lim_tokens l + lim_rate l * of_nat (last (lim_last l # map snd reqs) - lim_last l) / 10 ^ 9 +
    of_nat (length reqs) * (5 * M / 2 ^ 52) \<and> 0 \<le> lim_tokens l'"
  using assms
proof (induction reqs arbitrary: l g)
  case Nil
  then show ?case by (simp add: limiter_wf_def)
next
  case (Cons q reqs)
  obtain n now where q: "q = (n, now)" by fastforce
  obtain r l1 where tk: "take_tokens l n now = (r, l1)" by fastforce
  obtain g1 where g1: "take_all l1 reqs = (g1, l')" "g = (if r = Taken then n else 0) + g1"
    using Cons.prems(6) by (auto simp: q tk split: prod.splits)
  note wf = take_tokens_wf [OF Cons.prems(1) tk]
  have mono: "lim_last l \<le> now" "now \<le> last (now # map snd reqs)"
    using Cons.prems(2) by (auto simp: q last_map)
  have step: "lim_tokens l1 + (if r = Taken then of_nat n else 0) \<le>
      lim_tokens l + lim_rate l * of_nat (now - lim_last l) / 10 ^ 9 + 5 * M / 2 ^ 52"
    using Cons.prems(1,3-5) by (intro take_bound [OF _ _ _ _ _ _ tk]) (auto simp: q)
  have "lim_tokens l' + of_nat g1 \<le> lim_tokens l1 + lim_rate l * of_nat (last (now # map snd reqs) - now) / 10 ^ 9 +
      of_nat (length reqs) * (5 * M / 2 ^ 52) \<and> 0 \<le> lim_tokens l'"
    using Cons.IH [OF wf(1) _ _ Cons.prems(4) _ g1(1)] Cons.prems wf q by auto
  moreover have "last (lim_last l # map snd (q # reqs)) - lim_last l = (last (now # map snd reqs) - now) + (now - lim_last l)"
    using mono by (simp add: q)
  then have "lim_rate l * of_nat (last (lim_last l # map snd (q # reqs)) - lim_last l) / 10 ^ 9 =
      lim_rate l * of_nat (last (now # map snd reqs) - now) / 10 ^ 9 + lim_rate l * of_nat (now - lim_last l) / 10 ^ 9"
    by (simp only: of_nat_add distrib_left add_divide_distrib)
  moreover have "of_nat (length (q # reqs)) * (5 * M / 2 ^ 52) = of_nat (length reqs) * (5 * M / 2 ^ 52) + 5 * M / 2 ^ 52"
    by (simp add: distrib_right)
  moreover have "(of_nat g :: rat) = (if r = Taken then of_nat n else 0) + of_nat g1" by (simp add: g1(2))
  ultimately show ?case using step by linarith
qed

text \<open>
  C38. The limiter limits. Whatever is asked of it and when, the tokens it has granted by
  a time are at most one second's worth, the burst it starts with, and the rate times
  the seconds since the start, but for rounding errors of \<open>2 ^ -49\<close> of the largest request
  or of the rate for each call. A first request of no more than the burst is granted.
\<close>

theorem limiter_limits:
  assumes "0 < rate" and "rate < 2 ^ 53" and "sorted (t0 # map snd reqs)" and "M < 2 ^ 53"
    and "list_all (\<lambda>(n, t). n \<le> M \<and> t < 2 ^ 63) reqs" and "take_all (limiter_new rate t0) reqs = (granted, l)"
  shows "of_nat granted \<le> (of_nat rate + of_nat rate * of_nat (last (t0 # map snd reqs) - t0) / 10 ^ 9 +
      of_nat (length reqs) * of_nat (max rate M) / 2 ^ 49 :: rat) \<and>
    (n \<le> rate \<longrightarrow> fst (take_tokens (limiter_new rate t0) n t0) = Taken)"
proof -
  let ?M = "of_nat (max rate M) :: rat"
  have r: "f64_of_nat rate = of_nat rate" using assms(2) by (rule f64_of_nat_exact)
  have M: "1 \<le> ?M" "of_nat rate \<le> ?M"
  proof -
    have "1 \<le> max rate M" using assms(1) by simp
    then show "1 \<le> ?M" by (metis of_nat_1 of_nat_le_iff)
    show "of_nat rate \<le> ?M" unfolding of_nat_le_iff by simp
  qed
  have reqs: "list_all (\<lambda>(n, t). n < 2 ^ 53 \<and> of_nat n \<le> ?M \<and> t < 2 ^ 63) reqs"
    using assms(4,5) unfolding of_nat_le_iff by (auto simp: list_all_iff)
  from take_all_bound [OF limiter_new_wf [OF assms(1)] _ reqs M(1) _ assms(6)] assms(3) M(2)
  have "of_nat granted \<le> of_nat rate + of_nat rate * of_nat (last (t0 # map snd reqs) - t0) / 10 ^ 9 +
      of_nat (length reqs) * (5 * ?M / 2 ^ 52)"
    by (simp add: limiter_new_def r)
  moreover have "of_nat (length reqs) * (5 * ?M / 2 ^ 52) \<le> of_nat (length reqs) * ?M / 2 ^ 49"
  proof -
    have "5 * ?M / 2 ^ 52 \<le> ?M / 2 ^ 49" using M(1) by simp
    then have "of_nat (length reqs) * (5 * ?M / 2 ^ 52) \<le> of_nat (length reqs) * (?M / 2 ^ 49)" by (intro mult_left_mono) simp_all
    then show ?thesis by simp
  qed
  moreover have "fst (take_tokens (limiter_new rate t0) n t0) = Taken" if "n \<le> rate"
  proof -
    have n: "f64_of_nat n = of_nat n" using that assms(2) by (intro f64_of_nat_exact) simp
    have "refill (limiter_new rate t0) n t0 = of_nat rate"
      using that f64_of_nat_exact [OF assms(2)]
      by (simp add: refill_def limiter_new_def fadd_def fmul_def n r as_secs_f64_def fdiv_def max_def f64_of_nat_def)
    then show ?thesis using that by (simp add: take_tokens_def n)
  qed
  ultimately show ?thesis by linarith
qed

theorem limiter_limits_witness:
  "\<exists>granted l. take_all (limiter_new 2 0) [(1, 0), (1, 0), (1, 0), (1, 1000000000)] = (granted, l) \<and>
     (of_nat granted :: rat) < 5"
proof -
  obtain granted l where g: "take_all (limiter_new 2 0) [(1, 0), (1, 0), (1, 0), (1, 1000000000)] = (granted, l)" by fastforce
  from limiter_limits [of 2 0, OF _ _ _ _ _ g, of 1 0] g show ?thesis by auto
qed

end
