(* ===== verification/Engine_Worker.thy ===== *)
theory Engine_Worker
  imports Engine_Conn Latencies Limiter
begin

text \<open>
  A worker of the client, \<^verbatim>\<open>struct Worker\<close> of \<^verbatim>\<open>benchcli-rust/src/engine.rs\<close>: the
  connections it holds, the benchmark it runs, and one iteration of its event
  loop. Every method is a function on the whole worker, in the order the source
  has them from the innermost call outwards; the calls have no cycle.

  The counters the workers share through \<^verbatim>\<open>Arc\<close> (the addresses handed out, the
  requests issued, the limiter) are fields of the worker that runs. A failed
  \<^verbatim>\<open>unwrap\<close>, an index out of range and a subtraction below zero raise the fault
  \<open>Panic\<close>; the first fault is kept. The fuel of the loops is in \<^theory_text>\<open>deps\<close> where
  the environment decides when they end.
\<close>

subsection \<open>State\<close>

record engine_config =
  cfg_addrs :: "socket_addr list"
  cfg_authority :: string
  cfg_dial_timeout :: duration
  cfg_dial_retries :: nat
  cfg_dial_retry_interval :: duration
  cfg_idle_timeout :: duration
  cfg_check :: bool

text \<open>
  The counter \<^verbatim>\<open>issued\<close> is shared by the workers of a job. A worker sees of it the
  numbers its own calls of \<^verbatim>\<open>fetch_add\<close> return: \<open>ej_numbers\<close> is that sequence, whatever
  the other workers do in between, and \<open>ej_issued\<close> how many of them the worker has had.
  A worker with the counter to itself gets 0, 1, 2 and so on.
\<close>

record echo_job =
  ej_times :: nat
  ej_numbers :: "nat \<Rightarrow> nat"
  ej_issued :: nat
  ej_payloads :: "bytes list"
  ej_measure :: bool
  ej_limiter :: "limiter option"

record rate_job =
  rj_duration :: duration
  rj_batch :: nat
  rj_tick :: duration
  rj_payload :: bytes
  rj_limiter :: "limiter option"

record rate_counts =
  send_times :: nat
  send_bytes :: nat
  recv_times :: nat
  recv_bytes :: nat
  answered :: nat

definition rate_counts_default :: rate_counts where
  "rate_counts_default = \<lparr>send_times = 0, send_bytes = 0, recv_times = 0, recv_bytes = 0, answered = 0\<rparr>"

datatype command = CDial nat nat | CEcho echo_job nat | CRate rate_job | CStop

datatype outcome = ODial latencies | OEcho latencies | ORate rate_counts

record dial_phase =
  dp_remaining :: nat
  dp_active :: nat
  dp_concurrency :: nat
  dp_lat :: latencies

record echo_phase =
  ep_job :: echo_job
  ep_slots :: nat
  ep_in_flight :: nat
  ep_idle :: "nat list"
  ep_exhausted :: bool
  ep_wait_until :: "instant option"
  ep_lat :: latencies

record rate_phase =
  rp_job :: rate_job
  rp_conns :: "nat list"
  rp_deadline :: instant
  rp_next_tick :: instant
  rp_grace_until :: "instant option"
  rp_counts :: rate_counts

datatype phase = Idle | PDial dial_phase | PEcho echo_phase | PRatePrep rate_job nat | PRate rate_phase

record ('w, 's, 'q, 'h) worker =
  w_id :: nat
  w_cfg :: engine_config
  w_connected :: int
  w_addr_numbers :: "nat \<Rightarrow> nat"
  w_addr_counter :: nat
  w_ready :: nat
  w_server_name :: "string option"
  w_get_headers :: "header list"
  w_post_headers :: "header list"
  w_post_len :: nat
  w_slots :: "('s, 'q, 'h) conn option list"
  w_free :: "nat list"
  w_timers :: "(instant \<times> nat) reverse heap"
  w_retries :: "(instant \<times> dial_job) list"
  w_dirty :: "nat list"
  w_phase :: phase
  w_next_keepalive :: instant
  w_keepalive :: duration
  w_dropped :: nat
  w_results :: "outcome list"
  w_world :: 'w
  w_fault :: "fault option"

definition MAX_BATCHES_IN_FLIGHT :: nat where "MAX_BATCHES_IN_FLIGHT = 4"
definition H3_NO_ERROR :: nat where "H3_NO_ERROR = 0x100"

definition raise_fault :: "fault \<Rightarrow> ('w, 's, 'q, 'h) worker \<Rightarrow> ('w, 's, 'q, 'h) worker" where
  "raise_fault f w = w\<lparr>w_fault := (case w_fault w of None \<Rightarrow> Some f | Some g \<Rightarrow> Some g)\<rparr>"

definition slot :: "('w, 's, 'q, 'h) worker \<Rightarrow> nat \<Rightarrow> ('s, 'q, 'h) conn option" where
  "slot w i = slot_get (w_slots w) i"

definition put :: "nat \<Rightarrow> ('s, 'q, 'h) conn \<Rightarrow> ('w, 's, 'q, 'h) worker \<Rightarrow> ('w, 's, 'q, 'h) worker" where
  "put i c w = w\<lparr>w_slots := (w_slots w)[i := Some c]\<rparr>"

text \<open>\<^verbatim>\<open>Instant::now()\<close>\<close>

definition get_now :: "('w, 's, 'q, 'h) deps \<Rightarrow> ('w, 's, 'q, 'h) worker \<Rightarrow> instant \<times> ('w, 's, 'q, 'h) worker" where
  "get_now D w = (let (t, wd) = os_now (os D) (w_world w) in (t, w\<lparr>w_world := wd\<rparr>))"

text \<open>\<^verbatim>\<open>fn mark_dirty\<close>; the dirty list is a stack with its top first.\<close>

definition mark_dirty :: "nat \<Rightarrow> ('s, 'q, 'h) conn \<Rightarrow> nat list \<Rightarrow> ('s, 'q, 'h) conn \<times> nat list" where
  "mark_dirty idx c dirty = (if c_dirty c then (c, dirty) else (c\<lparr>c_dirty := True\<rparr>, idx # dirty))"

definition put_dirty :: "nat \<Rightarrow> ('s, 'q, 'h) conn \<Rightarrow> ('w, 's, 'q, 'h) worker \<Rightarrow> ('w, 's, 'q, 'h) worker" where
  "put_dirty idx c w = (let (c', d) = mark_dirty idx c (w_dirty w) in (put idx c' w)\<lparr>w_dirty := d\<rparr>)"

definition request_headers :: "string \<Rightarrow> string \<Rightarrow> nat option \<Rightarrow> header list" where
  "request_headers method authority len =
     [header '':method'' method, header '':scheme'' ''https'', header '':authority'' authority,
      header '':path'' ''/echo''] @
     (case len of
        None \<Rightarrow> []
      | Some n \<Rightarrow> [header ''content-type'' ''application/octet-stream'',
                   header ''content-length'' (show_nat n)])"

text \<open>
  \<^verbatim>\<open>Worker::new\<close>; \<open>is_ip_addr\<close> says whether a string parses as an \<^verbatim>\<open>IpAddr\<close>, and \<open>numbers\<close> is
  what the shared \<^verbatim>\<open>addr_counter\<close> hands this worker.
\<close>

definition worker_new ::
    "(string \<Rightarrow> bool) \<Rightarrow> nat \<Rightarrow> engine_config \<Rightarrow> (nat \<Rightarrow> nat) \<Rightarrow> instant \<Rightarrow> 'w \<Rightarrow> ('w, 's, 'q, 'h) worker" where
  "worker_new is_ip_addr wid cfg numbers now wd =
     \<lparr>w_id = wid, w_cfg = cfg, w_connected = 0, w_addr_numbers = numbers, w_addr_counter = 0, w_ready = 0,
      w_server_name = (if \<not> is_ip_addr (cfg_authority cfg) \<and> \<not> prefix ''['' (cfg_authority cfg)
                       then Some (cfg_authority cfg) else None),
      w_get_headers = request_headers ''GET'' (cfg_authority cfg) None,
      w_post_headers = [], w_post_len = 2 ^ 64 - 1,
      w_slots = [], w_free = [], w_timers = [], w_retries = [], w_dirty = [],
      w_phase = Idle, w_next_keepalive = now + secs 1,
      w_keepalive = max (cfg_idle_timeout cfg div 4) (secs 1),
      w_dropped = 0, w_results = [], w_world = wd, w_fault = None\<rparr>"

subsection \<open>Ends of dials and of round trips\<close>

definition finish :: "outcome \<Rightarrow> ('w, 's, 'q, 'h) worker \<Rightarrow> ('w, 's, 'q, 'h) worker" where
  "finish outcome w = w\<lparr>w_phase := Idle, w_results := w_results w @ [outcome]\<rparr>"

text \<open>\<^verbatim>\<open>x -= 1\<close> on an unsigned counter.\<close>

definition decr :: "nat \<Rightarrow> (nat \<Rightarrow> ('w, 's, 'q, 'h) worker) \<Rightarrow> ('w, 's, 'q, 'h) worker" where
  "decr n k = (if n = 0 then raise_fault Panic (k 0) else k (n - 1))"

text \<open>\<^verbatim>\<open>fetch_sub(1, Relaxed)\<close> on an \<^verbatim>\<open>AtomicUsize\<close>, which wraps.\<close>

definition fetch_sub :: "nat \<Rightarrow> nat" where
  "fetch_sub n = (if n = 0 then 2 ^ 64 - 1 else n - 1)"

definition echo_done :: "('w, 's, 'q, 'h) deps \<Rightarrow> nat \<Rightarrow> string + nat \<Rightarrow> instant \<Rightarrow>
    ('w, 's, 'q, 'h) worker \<Rightarrow> ('w, 's, 'q, 'h) worker" where
  "echo_done D idx result start w =
     (let (now, w) = get_now D w in
      case w_phase w of
        PEcho p \<Rightarrow>
          decr (ep_in_flight p) (\<lambda>n.
            w\<lparr>w_phase := PEcho (p\<lparr>ep_in_flight := n,
                ep_idle := ep_idle p @ [idx],
                ep_lat := (if ej_measure (ep_job p)
                           then (case result of Inr _ \<Rightarrow> lat_ok (now - start) (ep_lat p)
                                              | Inl e \<Rightarrow> lat_fail e (ep_lat p))
                           else ep_lat p)\<rparr>)\<rparr>)
      | _ \<Rightarrow> w)"

definition dial_failed_job :: "('w, 's, 'q, 'h) deps \<Rightarrow> dial_job \<Rightarrow> string \<Rightarrow>
    ('w, 's, 'q, 'h) worker \<Rightarrow> ('w, 's, 'q, 'h) worker" where
  "dial_failed_job D job err w =
     (if dj_attempt job < cfg_dial_retries (w_cfg w) then
        (let retry = job\<lparr>dj_attempt := dj_attempt job + 1\<rparr>; (now, w) = get_now D w in
         w\<lparr>w_retries := w_retries w @ [(now + cfg_dial_retry_interval (w_cfg w), retry)]\<rparr>)
      else case dj_purpose job of
        New \<Rightarrow>
          (case w_phase w of
             PDial p \<Rightarrow> decr (dp_active p) (\<lambda>n.
               w\<lparr>w_phase := PDial (p\<lparr>dp_active := n, dp_lat := lat_fail err (dp_lat p)\<rparr>)\<rparr>)
           | _ \<Rightarrow> w)
      | RedialEcho start \<Rightarrow>
          (case dj_slot job of
             Some idx \<Rightarrow> echo_done D idx (Inl (''redial: '' @ err)) start w
           | None \<Rightarrow> w)
      | RedialRate \<Rightarrow>
          (case w_phase w of
             PRatePrep j redials \<Rightarrow> decr redials (\<lambda>n. w\<lparr>w_phase := PRatePrep j n\<rparr>)
           | _ \<Rightarrow> w))"

definition dial_failed :: "('w, 's, 'q, 'h) deps \<Rightarrow> nat \<Rightarrow> string \<Rightarrow>
    ('w, 's, 'q, 'h) worker \<Rightarrow> ('w, 's, 'q, 'h) worker" where
  "dial_failed D idx err w =
     (if length (w_slots w) \<le> idx then raise_fault Panic w
      else case slot w idx of
        None \<Rightarrow> w
      | Some c \<Rightarrow>
        (case c_dial c of
           None \<Rightarrow> w
         | Some job \<Rightarrow>
             (let c' = c\<lparr>c_dial := None, c_state := Broken, c_attempt_deadline := None,
                         c_streams := [], c_pending := [], c_queued := []\<rparr> in
              if dj_purpose job = New
              then (let (sl, fr) = table_release idx (w_slots w) (w_free w) in
                    dial_failed_job D (job\<lparr>dj_slot := None\<rparr>) err
                      (w\<lparr>w_slots := sl, w_free := fr,
                         w_world := os_deregister (os D) (c_sock c) (w_world w)\<rparr>))
              else dial_failed_job D job err (put idx c' w))))"

subsection \<open>Requests\<close>

definition try_send :: "('w, 's, 'q, 'h) deps \<Rightarrow> nat \<Rightarrow> req_kind \<Rightarrow> bytes \<Rightarrow>
    ('w, 's, 'q, 'h) worker \<Rightarrow> send_error option \<times> ('w, 's, 'q, 'h) worker" where
  "try_send D idx kind body w =
     (case slot w idx of
        None \<Rightarrow> (Some (SendFailed []), raise_fault Panic w)
      | Some c \<Rightarrow>
          (let (err, c', d) = try_send_conn D (w_get_headers w) (w_post_headers w) c kind body
           in (err, if d then put_dirty idx c' w else put idx c' w)))"

definition send_request :: "('w, 's, 'q, 'h) deps \<Rightarrow> nat \<Rightarrow> req_kind \<Rightarrow> bytes \<Rightarrow>
    ('w, 's, 'q, 'h) worker \<Rightarrow> string option \<times> ('w, 's, 'q, 'h) worker" where
  "send_request D idx kind body w =
     (case slot w idx of
        None \<Rightarrow> (None, raise_fault Panic w)
      | Some c \<Rightarrow>
          if kind \<noteq> KRate \<and> c_queued c \<noteq> []
          then (None, put idx (c\<lparr>c_queued := c_queued c @ [(kind, body)]\<rparr>) w)
          else
            (case try_send D idx kind body w of
               (None, w') \<Rightarrow> (None, w')
             | (Some (Blocked e), w') \<Rightarrow>
                 if kind = KRate then (Some e, w')
                 else (case slot w' idx of
                         None \<Rightarrow> (None, raise_fault Panic w')
                       | Some c' \<Rightarrow> (None, put idx (c'\<lparr>c_queued := c_queued c' @ [(kind, body)]\<rparr>) w'))
             | (Some (SendFailed e), w') \<Rightarrow> (Some e, w')))"

definition dial_ok :: "('w, 's, 'q, 'h) deps \<Rightarrow> nat \<Rightarrow> ('w, 's, 'q, 'h) worker \<Rightarrow> ('w, 's, 'q, 'h) worker" where
  "dial_ok D idx w =
     (case slot w idx of
        None \<Rightarrow> raise_fault Panic w
      | Some c \<Rightarrow>
        (case c_dial c of
           None \<Rightarrow> w
         | Some job \<Rightarrow>
           (let w1 = (put idx (c\<lparr>c_dial := None, c_state := Ready, c_attempt_deadline := None\<rparr>) w)
                       \<lparr>w_ready := w_ready w + 1\<rparr> in
            case dj_purpose job of
              New \<Rightarrow>
                (let w2 = w1\<lparr>w_connected := w_connected w1 + 1\<rparr> in
                 case w_phase w2 of
                   PDial p \<Rightarrow>
                     (let (now, w3) = get_now D w2 in
                      decr (dp_active p) (\<lambda>n.
                        w3\<lparr>w_phase := PDial (p\<lparr>dp_active := n,
                             dp_lat := lat_ok (now - dj_start job) (dp_lat p)\<rparr>)\<rparr>))
                 | _ \<Rightarrow> w2)
            | RedialEcho start \<Rightarrow>
                (case w_phase w1 of
                   PEcho p \<Rightarrow>
                     (case ej_payloads (ep_job p) of
                        [] \<Rightarrow> raise_fault Panic w1
                      | payload # _ \<Rightarrow>
                          (case send_request D idx (KEcho start) payload w1 of
                             (None, w2) \<Rightarrow> w2
                           | (Some e, w2) \<Rightarrow> echo_done D idx (Inl e) start w2))
                 | _ \<Rightarrow> w1)
            | RedialRate \<Rightarrow>
                (case w_phase w1 of
                   PRatePrep j redials \<Rightarrow> decr redials (\<lambda>n. w1\<lparr>w_phase := PRatePrep j n\<rparr>)
                 | _ \<Rightarrow> w1))))"

text \<open>The errors that still are the server's answer to a \<^verbatim>\<open>BenchMultiplex\<close> request.\<close>

definition is_answer :: "string \<Rightarrow> bool" where
  "is_answer e \<longleftrightarrow> prefix ''status '' e \<or> prefix ''response body'' e"

definition count_rate :: "string + nat \<Rightarrow> rate_counts \<Rightarrow> rate_counts" where
  "count_rate result rc =
     (case result of
        Inr n \<Rightarrow> rc\<lparr>answered := answered rc + 1, recv_times := recv_times rc + 1,
                     recv_bytes := recv_bytes rc + n\<rparr>
      | Inl e \<Rightarrow> if is_answer e then rc\<lparr>answered := answered rc + 1\<rparr> else rc)"

fun response :: "('w, 's, 'q, 'h) deps \<Rightarrow> nat \<Rightarrow> req_kind \<Rightarrow> string + nat \<Rightarrow>
    ('w, 's, 'q, 'h) worker \<Rightarrow> ('w, 's, 'q, 'h) worker" where
  "response D idx KDial result w =
     (case result of Inr _ \<Rightarrow> dial_ok D idx w | Inl e \<Rightarrow> dial_failed D idx e w)"
| "response D idx (KEcho start) result w = echo_done D idx result start w"
| "response D idx KRate result w =
     (if length (w_slots w) \<le> idx then raise_fault Panic w
      else
        (let w1 = (case slot w idx of
                     None \<Rightarrow> w
                   | Some c \<Rightarrow> put idx (c\<lparr>c_in_flight := c_in_flight c - 1\<rparr>) w) in
         case w_phase w1 of
           PRate p \<Rightarrow> w1\<lparr>w_phase := PRate (p\<lparr>rp_counts := count_rate result (rp_counts p)\<rparr>)\<rparr>
         | _ \<Rightarrow> w1))"

text \<open>One round per queued request is enough: a round takes one off the queue.\<close>

fun send_queued_loop :: "('w, 's, 'q, 'h) deps \<Rightarrow> nat \<Rightarrow> nat \<Rightarrow>
    ('w, 's, 'q, 'h) worker \<Rightarrow> ('w, 's, 'q, 'h) worker" where
  "send_queued_loop D 0 idx w = raise_fault OutOfFuel w"
| "send_queued_loop D (Suc n) idx w =
     (if length (w_slots w) \<le> idx then raise_fault Panic w
      else case slot w idx of
        None \<Rightarrow> w
      | Some c \<Rightarrow>
        if q_is_closed (quic D) (c_q c) then w
        else
          (case c_queued c of
             [] \<Rightarrow> w
           | (kind, body) # rest \<Rightarrow>
             (case try_send D idx kind body (put idx (c\<lparr>c_queued := rest\<rparr>) w) of
                (None, w') \<Rightarrow> send_queued_loop D n idx w'
              | (Some (Blocked e), w') \<Rightarrow>
                  (case slot w' idx of
                     None \<Rightarrow> raise_fault Panic w'
                   | Some c' \<Rightarrow> put idx (c'\<lparr>c_queued := (kind, body) # c_queued c'\<rparr>) w')
              | (Some (SendFailed e), w') \<Rightarrow>
                  send_queued_loop D n idx (response D idx kind (Inl e) w'))))"

definition send_queued :: "('w, 's, 'q, 'h) deps \<Rightarrow> nat \<Rightarrow>
    ('w, 's, 'q, 'h) worker \<Rightarrow> ('w, 's, 'q, 'h) worker" where
  "send_queued D idx w =
     send_queued_loop D (Suc (case slot w idx of None \<Rightarrow> 0 | Some c \<Rightarrow> length (c_queued c))) idx w"

subsection \<open>The HTTP/3 side of a connection\<close>

fun handle_event :: "('w, 's, 'q, 'h) deps \<Rightarrow> nat \<Rightarrow> conn_event \<Rightarrow>
    ('w, 's, 'q, 'h) worker \<Rightarrow> ('w, 's, 'q, 'h) worker" where
  "handle_event D idx Established w =
     (case send_request D idx KDial [] w of
        (None, w') \<Rightarrow> w'
      | (Some e, w') \<Rightarrow> dial_failed D idx e w')"
| "handle_event D idx (Response kind result) w = response D idx kind result w"
| "handle_event D idx (Closed reason) w =
     (if length (w_slots w) \<le> idx then raise_fault Panic w
      else case slot w idx of
        None \<Rightarrow> w
      | Some c \<Rightarrow>
        (case c_state c of
           Connecting \<Rightarrow> dial_failed D idx reason w
         | Ready \<Rightarrow> (put idx (c\<lparr>c_state := Broken\<rparr>) w)\<lparr>w_ready := fetch_sub (w_ready w)\<rparr>
         | Broken \<Rightarrow> w))"

definition process :: "('w, 's, 'q, 'h) deps \<Rightarrow> nat \<Rightarrow>
    ('w, 's, 'q, 'h) worker \<Rightarrow> ('w, 's, 'q, 'h) worker" where
  "process D idx w =
     (case slot w idx of
        None \<Rightarrow> w
      | Some c \<Rightarrow>
        (let (evs, c', ok) = process_conn D (cfg_check (w_cfg w)) c;
             w1 = put_dirty idx c' w;
             w2 = (if ok then w1 else raise_fault OutOfFuel w1)
         in send_queued D idx (fold (handle_event D idx) evs w2)))"

subsection \<open>Sending and receiving datagrams\<close>

definition schedule :: "('w, 's, 'q, 'h) deps \<Rightarrow> nat \<Rightarrow>
    ('w, 's, 'q, 'h) worker \<Rightarrow> ('w, 's, 'q, 'h) worker" where
  "schedule D idx w =
     (if length (w_slots w) \<le> idx then raise_fault Panic w
      else case slot w idx of
        None \<Rightarrow> w
      | Some c \<Rightarrow>
        (let d0 = q_timeout_instant (quic D) (c_q c);
             d = (case c_attempt_deadline c of
                    None \<Rightarrow> d0
                  | Some a \<Rightarrow> Some (case d0 of None \<Rightarrow> a | Some t \<Rightarrow> min t a));
             c1 = c\<lparr>c_deadline := d\<rparr>
         in case d of
              None \<Rightarrow> put idx c1 w
            | Some t \<Rightarrow>
                if (case c_scheduled c1 of None \<Rightarrow> True | Some s \<Rightarrow> t < s)
                then (put idx (c1\<lparr>c_scheduled := Some t\<rparr>) w)
                       \<lparr>w_timers := heap_push (Reverse (t, idx)) (w_timers w)\<rparr>
                else put idx c1 w))"

text \<open>
  The loop of \<^verbatim>\<open>flush\<close>: the connection, whether anything was sent, how many
  datagrams a full socket buffer dropped, and whether the loop ended.
\<close>

fun send_loop :: "('w, 's, 'q, 'h) deps \<Rightarrow> nat \<Rightarrow> ('s, 'q, 'h) conn \<Rightarrow> bool \<Rightarrow>
    ('s, 'q, 'h) conn \<times> bool \<times> nat \<times> bool" where
  "send_loop D 0 c sent = (c, sent, 0, False)"
| "send_loop D (Suc n) c sent =
     (case q_send (quic D) (c_q c) of
        (Packet data dest, q') \<Rightarrow>
          (case os_send (os D) (c_sock c) data of
             (None, s') \<Rightarrow> send_loop D n (c\<lparr>c_q := q', c_sock := s'\<rparr>) True
           | (Some e, s') \<Rightarrow>
               if would_block D e then (c\<lparr>c_q := q', c_sock := s'\<rparr>, sent, 1, True)
               else (c\<lparr>c_q := q', c_sock := s', c_socket_error := Some (''send: '' @ ioe_text e)\<rparr>,
                     sent, 0, True))
      | (SendDone, q') \<Rightarrow> (c\<lparr>c_q := q'\<rparr>, sent, 0, True)
      | (SendErr e, q') \<Rightarrow>
          (c\<lparr>c_q := q_close (quic D) q' False 0x1 ''send failed'',
             c_socket_error := Some (''quiche send: '' @ e)\<rparr>, sent, 0, True))"

definition flush :: "('w, 's, 'q, 'h) deps \<Rightarrow> nat \<Rightarrow>
    ('w, 's, 'q, 'h) worker \<Rightarrow> ('w, 's, 'q, 'h) worker" where
  "flush D idx w =
     (case slot w idx of
        None \<Rightarrow> w
      | Some c \<Rightarrow>
        (let (c1, sent, dropped, ok) = send_loop D (fuel D) (c\<lparr>c_dirty := False\<rparr>) False;
             (now, w1) = get_now D (if ok then w else raise_fault OutOfFuel w);
             c2 = (if sent then c1\<lparr>c_last_active := now\<rparr> else c1);
             w2 = (put idx c2 w1)\<lparr>w_dropped := w_dropped w1 + dropped\<rparr>;
             w3 = schedule D idx w2
         in if c_socket_error c2 \<noteq> None then process D idx w3 else w3))"

fun flush_dirty :: "('w, 's, 'q, 'h) deps \<Rightarrow> nat \<Rightarrow>
    ('w, 's, 'q, 'h) worker \<Rightarrow> ('w, 's, 'q, 'h) worker" where
  "flush_dirty D n w =
     (case w_dirty w of
        [] \<Rightarrow> w
      | idx # rest \<Rightarrow>
        (case n of
           0 \<Rightarrow> raise_fault OutOfFuel w
         | Suc m \<Rightarrow>
           (let w1 = w\<lparr>w_dirty := rest\<rparr> in
            flush_dirty D m
              (case slot w1 idx of
                 None \<Rightarrow> w1
               | Some c \<Rightarrow> if c_dirty c then flush D idx w1 else w1))))"

declare flush_dirty.simps [simp del]

fun recv_datagrams :: "('w, 's, 'q, 'h) deps \<Rightarrow> nat \<Rightarrow> ('s, 'q, 'h) conn \<Rightarrow> bool \<Rightarrow>
    ('s, 'q, 'h) conn \<times> bool \<times> bool" where
  "recv_datagrams D 0 c got = (c, got, False)"
| "recv_datagrams D (Suc n) c got =
     (case os_recv (os D) (c_sock c) of
        (Inr data, s') \<Rightarrow>
          recv_datagrams D n
            (c\<lparr>c_sock := s', c_q := q_recv (quic D) (c_q c) data (c_peer c) (c_local c)\<rparr>) True
      | (Inl e, s') \<Rightarrow>
          (if would_block D e then (c\<lparr>c_sock := s'\<rparr>, got, True)
           else if ioe_kind e = Interrupted then recv_datagrams D n (c\<lparr>c_sock := s'\<rparr>) got
           else (c\<lparr>c_sock := s', c_socket_error := Some (''recv: '' @ ioe_text e)\<rparr>, got, True)))"

definition on_readable :: "('w, 's, 'q, 'h) deps \<Rightarrow> nat \<Rightarrow>
    ('w, 's, 'q, 'h) worker \<Rightarrow> ('w, 's, 'q, 'h) worker" where
  "on_readable D idx w =
     (case slot w idx of
        None \<Rightarrow> w
      | Some c \<Rightarrow>
        (let (c1, got, ok) = recv_datagrams D (fuel D) c False;
             w0 = (if ok then w else raise_fault OutOfFuel w);
             (c2, w1) = (if got then (let (now, w') = get_now D w0 in (c1\<lparr>c_last_active := now\<rparr>, w'))
                         else (c1, w0))
         in process D idx (put idx c2 w1)))"

subsection \<open>Dialing\<close>

definition alloc_slot :: "('w, 's, 'q, 'h) worker \<Rightarrow> nat \<times> ('w, 's, 'q, 'h) worker" where
  "alloc_slot w =
     (let (i, sl, fr) = table_alloc (w_slots w) (w_free w) in (i, w\<lparr>w_slots := sl, w_free := fr\<rparr>))"

definition unspecified :: "ip_addr \<Rightarrow> ip_addr" where
  "unspecified ip = (case ip of V4 _ \<Rightarrow> V4 0 | V6 _ \<Rightarrow> V6 0)"

text \<open>The first half of \<^verbatim>\<open>try_dial\<close>: the socket and the QUIC connection on it.\<close>

definition open_conn :: "('w, 's, 'q, 'h) deps \<Rightarrow> socket_addr \<Rightarrow> ('w, 's, 'q, 'h) worker \<Rightarrow>
    (string + 's \<times> socket_addr \<times> 'q) \<times> ('w, 's, 'q, 'h) worker" where
  "open_conn D peer w =
     (case os_bind (os D) \<lparr>sa_ip = unspecified (sa_ip peer), sa_port = 0\<rparr> (w_world w) of
        (Inl e, wd) \<Rightarrow> (Inl (''bind: '' @ e), w\<lparr>w_world := wd\<rparr>)
      | (Inr s, wd) \<Rightarrow>
        (case os_connect (os D) s peer of
           (Some e, _) \<Rightarrow> (Inl (''connect '' @ os_show_addr (os D) peer @ '': '' @ e), w\<lparr>w_world := wd\<rparr>)
         | (None, s1) \<Rightarrow>
           (let s2 = os_set_buffers (os D) s1 in
            case os_local_addr (os D) s2 of
              Inl e \<Rightarrow> (Inl e, w\<lparr>w_world := wd\<rparr>)
            | Inr loc \<Rightarrow>
              (let (scid, wd') = os_rand (os D) (q_max_conn_id_len (quic D)) wd in
               case q_connect (quic D) (w_server_name w) scid loc peer of
                 Inl e \<Rightarrow> (Inl (''quiche connect: '' @ e), w\<lparr>w_world := wd'\<rparr>)
               | Inr q \<Rightarrow> (Inr (s2, loc, q), w\<lparr>w_world := wd'\<rparr>)))))"

text \<open>The slot of a dial: the one it is dialed into again, emptied, or a new one.\<close>

definition dial_slot :: "('w, 's, 'q, 'h) deps \<Rightarrow> dial_job \<Rightarrow>
    ('w, 's, 'q, 'h) worker \<Rightarrow> nat \<times> ('w, 's, 'q, 'h) worker" where
  "dial_slot D job w =
     (case dj_slot job of
        None \<Rightarrow> alloc_slot w
      | Some i \<Rightarrow>
        (i, if length (w_slots w) \<le> i then raise_fault Panic w
            else case slot w i of
              None \<Rightarrow> w
            | Some old \<Rightarrow>
              (let w1 = w\<lparr>w_slots := (w_slots w)[i := None],
                          w_world := os_deregister (os D) (c_sock old) (w_world w)\<rparr> in
               if c_state old = Ready then w1\<lparr>w_ready := fetch_sub (w_ready w1)\<rparr> else w1)))"

definition new_conn :: "'s \<Rightarrow> 'q \<Rightarrow> socket_addr \<Rightarrow> socket_addr \<Rightarrow> dial_job \<Rightarrow> instant \<Rightarrow> instant \<Rightarrow>
    ('s, 'q, 'h) conn" where
  "new_conn s q loc peer job deadline now =
     \<lparr>c_sock = s, c_q = q, c_h3 = None, c_local = loc, c_peer = peer, c_state = Connecting,
      c_dial = Some job, c_attempt_deadline = Some deadline, c_streams = [], c_pending = [],
      c_queued = [], c_deadline = None, c_scheduled = None, c_last_active = now, c_dirty = False,
      c_in_flight = 0, c_goaway = False, c_socket_error = None\<rparr>"

definition try_dial :: "('w, 's, 'q, 'h) deps \<Rightarrow> dial_job \<Rightarrow>
    ('w, 's, 'q, 'h) worker \<Rightarrow> string option \<times> ('w, 's, 'q, 'h) worker" where
  "try_dial D job w =
     (if cfg_addrs (w_cfg w) = [] then (None, raise_fault Panic w)
      else
        (let addrs = cfg_addrs (w_cfg w);
             peer = addrs ! (w_addr_numbers w (w_addr_counter w) mod length addrs);
             w1 = w\<lparr>w_addr_counter := w_addr_counter w + 1\<rparr>
         in case open_conn D peer w1 of
              (Inl e, w2) \<Rightarrow> (Some e, w2)
            | (Inr (s, loc, q), w2) \<Rightarrow>
              (let (idx, w3) = dial_slot D job w2;
                   (err, wd) = os_register (os D) s idx (w_world w3);
                   w4 = w3\<lparr>w_world := wd\<rparr>
               in case err of
                    Some e \<Rightarrow> (Some (''register: '' @ e), w4)
                  | None \<Rightarrow>
                    (let (now, w5) = get_now D w4;
                         c = new_conn s q loc peer (job\<lparr>dj_slot := Some idx\<rparr>)
                               (now + cfg_dial_timeout (w_cfg w5)) now
                     in (None, flush D idx (w5\<lparr>w_slots := table_fill idx c (w_slots w5)\<rparr>))))))"

definition dial :: "('w, 's, 'q, 'h) deps \<Rightarrow> dial_job \<Rightarrow>
    ('w, 's, 'q, 'h) worker \<Rightarrow> ('w, 's, 'q, 'h) worker" where
  "dial D job w =
     (case try_dial D job w of
        (None, w') \<Rightarrow> w'
      | (Some e, w') \<Rightarrow> dial_failed_job D job e w')"

fun fire_retries :: "('w, 's, 'q, 'h) deps \<Rightarrow> nat \<Rightarrow> instant \<Rightarrow>
    ('w, 's, 'q, 'h) worker \<Rightarrow> ('w, 's, 'q, 'h) worker" where
  "fire_retries D n now w =
     (case w_retries w of
        [] \<Rightarrow> w
      | (t, job) # rest \<Rightarrow>
        if now < t then w
        else (case n of
                0 \<Rightarrow> raise_fault OutOfFuel w
              | Suc m \<Rightarrow> fire_retries D m now (dial D job (w\<lparr>w_retries := rest\<rparr>))))"

declare fire_retries.simps [simp del]

subsection \<open>Timers\<close>

text \<open>What \<^verbatim>\<open>fire_timers\<close> does with one timer it has popped.\<close>

definition fire_timer :: "('w, 's, 'q, 'h) deps \<Rightarrow> instant \<Rightarrow> instant \<Rightarrow> nat \<Rightarrow>
    ('w, 's, 'q, 'h) worker \<Rightarrow> ('w, 's, 'q, 'h) worker" where
  "fire_timer D now t idx w =
     (case slot w idx of
        None \<Rightarrow> w
      | Some c \<Rightarrow>
        if c_scheduled c \<noteq> Some t then w
        else
          (let c1 = c\<lparr>c_scheduled := None\<rparr>; w1 = put idx c1 w in
           if (case c_deadline c1 of None \<Rightarrow> False | Some d \<Rightarrow> d \<le> now)
           then if c_state c1 = Connecting \<and>
                   (case c_attempt_deadline c1 of None \<Rightarrow> False | Some a \<Rightarrow> a \<le> now)
                then dial_failed D idx
                       (if q_is_established (quic D) (c_q c1)
                        then ''timeout waiting for the first response'' else ''handshake timeout'') w1
                else process D idx (put_dirty idx (c1\<lparr>c_q := q_on_timeout (quic D) (c_q c1)\<rparr>) w1)
           else schedule D idx w1))"

fun fire_timers :: "('w, 's, 'q, 'h) deps \<Rightarrow> nat \<Rightarrow> instant \<Rightarrow>
    ('w, 's, 'q, 'h) worker \<Rightarrow> ('w, 's, 'q, 'h) worker" where
  "fire_timers D n now w =
     (case heap_peek (w_timers w) of
        None \<Rightarrow> w
      | Some (Reverse (t, idx)) \<Rightarrow>
        if now < t then w
        else (case n of
                0 \<Rightarrow> raise_fault OutOfFuel w
              | Suc m \<Rightarrow>
                  fire_timers D m now
                    (fire_timer D now t idx (w\<lparr>w_timers := heap_pop (w_timers w)\<rparr>))))"

declare fire_timers.simps [simp del]

definition keepalive_slot :: "('w, 's, 'q, 'h) deps \<Rightarrow> instant \<Rightarrow> nat \<Rightarrow>
    ('w, 's, 'q, 'h) worker \<Rightarrow> ('w, 's, 'q, 'h) worker" where
  "keepalive_slot D now idx w =
     (case slot w idx of
        None \<Rightarrow> w
      | Some c \<Rightarrow>
        if c_state c = Ready \<and> c_streams c = [] \<and> w_keepalive w \<le> now - c_last_active c
        then put_dirty idx (c\<lparr>c_q := q_send_ack_eliciting (quic D) (c_q c)\<rparr>) w
        else w)"

definition keepalive :: "('w, 's, 'q, 'h) deps \<Rightarrow> instant \<Rightarrow>
    ('w, 's, 'q, 'h) worker \<Rightarrow> ('w, 's, 'q, 'h) worker" where
  "keepalive D now w =
     (if now < w_next_keepalive w then w
      else fold (keepalive_slot D now) [0..<length (w_slots w)]
             (w\<lparr>w_next_keepalive := now + secs 1\<rparr>))"

definition close_slot :: "('w, 's, 'q, 'h) deps \<Rightarrow> nat \<Rightarrow>
    ('w, 's, 'q, 'h) worker \<Rightarrow> ('w, 's, 'q, 'h) worker" where
  "close_slot D idx w =
     (case slot w idx of
        None \<Rightarrow> w
      | Some c \<Rightarrow>
        if q_is_closed (quic D) (c_q c) then w
        else flush D idx (put idx (c\<lparr>c_q := q_close (quic D) (c_q c) True H3_NO_ERROR []\<rparr>) w))"

definition close_all :: "('w, 's, 'q, 'h) deps \<Rightarrow>
    ('w, 's, 'q, 'h) worker \<Rightarrow> ('w, 's, 'q, 'h) worker" where
  "close_all D w = fold (close_slot D) [0..<length (w_slots w)] w"

subsection \<open>The benchmarks\<close>

text \<open>The slots that hold a connection that satisfies \<open>P\<close>, in order.\<close>

definition slots_where :: "(('s, 'q, 'h) conn \<Rightarrow> bool) \<Rightarrow> ('w, 's, 'q, 'h) worker \<Rightarrow> nat list" where
  "slots_where P w =
     filter (\<lambda>i. case slot w i of None \<Rightarrow> False | Some c \<Rightarrow> P c) [0..<length (w_slots w)]"

definition set_post_len :: "nat \<Rightarrow> ('w, 's, 'q, 'h) worker \<Rightarrow> ('w, 's, 'q, 'h) worker" where
  "set_post_len len w =
     (if len = w_post_len w then w
      else w\<lparr>w_post_headers := request_headers ''POST'' (cfg_authority (w_cfg w)) (Some len),
             w_post_len := len\<rparr>)"

fun start :: "('w, 's, 'q, 'h) deps \<Rightarrow> command \<Rightarrow>
    ('w, 's, 'q, 'h) worker \<Rightarrow> ('w, 's, 'q, 'h) worker" where
  "start D (CDial num concurrency) w =
     w\<lparr>w_phase := PDial \<lparr>dp_remaining = num, dp_active = 0, dp_concurrency = concurrency,
                         dp_lat = lat_default\<rparr>\<rparr>"
| "start D (CEcho job concurrency) w =
     (let w1 = set_post_len (case ej_payloads job of [] \<Rightarrow> 0 | p # _ \<Rightarrow> length p) w;
          idle = slots_where (\<lambda>_. True) w1;
          slots = min concurrency (length idle)
      in w1\<lparr>w_phase := PEcho \<lparr>ep_job = job, ep_slots = slots, ep_in_flight = 0, ep_idle = idle,
                              ep_exhausted = (slots = 0), ep_wait_until = None, ep_lat = lat_default\<rparr>\<rparr>)"
| "start D (CRate job) w =
     (let w1 = set_post_len (length (rj_payload job)) w;
          broken = slots_where (\<lambda>c. c_state c = Broken) w1;
          (now, w2) = get_now D w1;
          w3 = fold (\<lambda>idx. dial D \<lparr>dj_start = now, dj_attempt = 1, dj_purpose = RedialRate,
                                    dj_slot = Some idx\<rparr>) broken w2
      in w3\<lparr>w_phase := PRatePrep job (length broken)\<rparr>)"
| "start D CStop w = w"

text \<open>The dials that fit the concurrency: taken off \<^verbatim>\<open>remaining\<close> first, then started.\<close>

fun take_dials :: "nat \<Rightarrow> nat \<Rightarrow> nat \<Rightarrow> nat \<times> nat \<times> nat" where
  "take_dials remaining active concurrency =
     (if 0 < remaining \<and> active < concurrency
      then (let (r, a, s) = take_dials (remaining - 1) (active + 1) concurrency in (r, a, s + 1))
      else (remaining, active, 0))"

declare take_dials.simps [simp del]

definition drive_dial :: "('w, 's, 'q, 'h) deps \<Rightarrow> instant \<Rightarrow> dial_phase \<Rightarrow>
    ('w, 's, 'q, 'h) worker \<Rightarrow> ('w, 's, 'q, 'h) worker" where
  "drive_dial D now p w =
     (if dp_remaining p = 0 \<and> dp_active p = 0 then finish (ODial (dp_lat p)) w
      else
        (let (r, a, starts) = take_dials (dp_remaining p) (dp_active p) (dp_concurrency p)
         in (dial D \<lparr>dj_start = now, dj_attempt = 1, dj_purpose = New, dj_slot = None\<rparr> ^^ starts)
              (w\<lparr>w_phase := PDial (p\<lparr>dp_remaining := r, dp_active := a\<rparr>)\<rparr>)))"

text \<open>The limiter of a job, if it has one: \<^term>\<open>None\<close> when the request may go now.\<close>

definition take_echo :: "('w, 's, 'q, 'h) deps \<Rightarrow> nat \<Rightarrow> limiter option \<Rightarrow>
    ('w, 's, 'q, 'h) worker \<Rightarrow> take_result \<times> limiter option \<times> ('w, 's, 'q, 'h) worker" where
  "take_echo D n lmt w =
     (case lmt of
        None \<Rightarrow> (Taken, None, w)
      | Some l \<Rightarrow> (let (t, w1) = get_now D w; (r, l') = take_tokens l n t in (r, Some l', w1)))"

text \<open>
  The second half of a round of \<^verbatim>\<open>drive_echo\<close>, in phase \<open>PEcho p\<close>: a round trip on the
  next idle connection. \<open>n\<close> is the number \<^verbatim>\<open>issued.fetch_add\<close> hands out; the counter
  passes \<^verbatim>\<open>times\<close> by one for each worker at most, so its 64 bits are enough.
\<close>

definition echo_issue :: "('w, 's, 'q, 'h) deps \<Rightarrow> echo_phase \<Rightarrow>
    ('w, 's, 'q, 'h) worker \<Rightarrow> ('w, 's, 'q, 'h) worker \<times> bool" where
  "echo_issue D p w =
     (case ep_idle p of
        [] \<Rightarrow> (w, False)
      | idx # rest \<Rightarrow>
        (let n = ej_numbers (ep_job p) (ej_issued (ep_job p));
             job = (ep_job p)\<lparr>ej_issued := ej_issued (ep_job p) + 1\<rparr>;
             p2 = p\<lparr>ep_job := job\<rparr>
         in if ej_times job \<le> n
            then (w\<lparr>w_phase := PEcho (p2\<lparr>ep_exhausted := True\<rparr>)\<rparr>, True)
            else
              (let w2 = w\<lparr>w_phase := PEcho (p2\<lparr>ep_idle := rest, ep_in_flight := ep_in_flight p2 + 1\<rparr>)\<rparr>;
                   payload = ej_payloads job ! (n mod length (ej_payloads job));
                   (start, w3) = get_now D w2
               in if ej_payloads job = [] then (raise_fault Panic w3, False)
                  else case slot w3 idx of
                    None \<Rightarrow> (raise_fault Panic w3, False)
                  | Some c \<Rightarrow>
                    if c_state c = Broken
                    then (dial D \<lparr>dj_start = start, dj_attempt = 1,
                                  dj_purpose = RedialEcho start, dj_slot = Some idx\<rparr> w3, True)
                    else (case send_request D idx (KEcho start) payload w3 of
                            (None, w4) \<Rightarrow> (w4, True)
                          | (Some e, w4) \<Rightarrow> (echo_done D idx (Inl e) start w4, True)))))"

text \<open>One round of the loop of \<^verbatim>\<open>drive_echo\<close>: the worker and whether to go round again.\<close>

definition echo_round :: "('w, 's, 'q, 'h) deps \<Rightarrow> instant \<Rightarrow>
    ('w, 's, 'q, 'h) worker \<Rightarrow> ('w, 's, 'q, 'h) worker \<times> bool" where
  "echo_round D now w =
     (case w_phase w of
        PEcho p \<Rightarrow>
        if ep_exhausted p \<and> ep_in_flight p = 0 then (finish (OEcho (ep_lat p)) w, False)
        else if ep_exhausted p \<or> ep_slots p \<le> ep_in_flight p then (w, False)
        else if (case ep_wait_until p of None \<Rightarrow> False | Some t \<Rightarrow> now < t) then (w, False)
        else
          (let (r, lmt, w1) = take_echo D 1 (ej_limiter (ep_job p)) w;
               p1 = p\<lparr>ep_wait_until := None, ep_job := (ep_job p)\<lparr>ej_limiter := lmt\<rparr>\<rparr>
           in case r of
                Wait d \<Rightarrow> (w1\<lparr>w_phase := PEcho (p1\<lparr>ep_wait_until := Some (now + d)\<rparr>)\<rparr>, False)
              | TakePanic \<Rightarrow> (raise_fault Panic (w1\<lparr>w_phase := PEcho p1\<rparr>), False)
              | Taken \<Rightarrow> echo_issue D p1 (w1\<lparr>w_phase := PEcho p1\<rparr>))
      | _ \<Rightarrow> (w, False))"

fun drive_echo :: "('w, 's, 'q, 'h) deps \<Rightarrow> nat \<Rightarrow> instant \<Rightarrow>
    ('w, 's, 'q, 'h) worker \<Rightarrow> ('w, 's, 'q, 'h) worker" where
  "drive_echo D 0 now w = raise_fault OutOfFuel w"
| "drive_echo D (Suc n) now w =
     (let (w', again) = echo_round D now w in if again then drive_echo D n now w' else w')"

text \<open>
  \<^verbatim>\<open>while *next_tick <= now { *next_tick += job.tick; }\<close>: \<^term>\<open>None\<close> is a loop
  that does not end.
\<close>

partial_function (option) catch_up :: "nat \<Rightarrow> nat \<Rightarrow> nat \<Rightarrow> nat option" where
  "catch_up tick now next_tick =
     (if next_tick \<le> now then catch_up tick now (next_tick + tick) else Some next_tick)"

declare catch_up.simps [code]

text \<open>The requests of one batch on one connection: sent until one is refused.\<close>

fun send_batch :: "('w, 's, 'q, 'h) deps \<Rightarrow> nat \<Rightarrow> bytes \<Rightarrow> nat \<Rightarrow>
    ('w, 's, 'q, 'h) worker \<Rightarrow> nat \<times> ('w, 's, 'q, 'h) worker" where
  "send_batch D idx payload 0 w = (0, w)"
| "send_batch D idx payload (Suc k) w =
     (case send_request D idx KRate payload w of
        (Some e, w') \<Rightarrow> (0, w')
      | (None, w') \<Rightarrow>
        (case slot w' idx of
           None \<Rightarrow> (0, raise_fault Panic w')
         | Some c \<Rightarrow>
           (let (m, w'') = send_batch D idx payload k
                              (put idx (c\<lparr>c_in_flight := c_in_flight c + 1\<rparr>) w')
            in (Suc m, w''))))"

text \<open>One connection's turn in \<^verbatim>\<open>rate_tick\<close>, with the requests sent so far.\<close>

definition tick_conn :: "('w, 's, 'q, 'h) deps \<Rightarrow> bytes \<Rightarrow> nat \<Rightarrow> nat \<Rightarrow>
    nat \<times> limiter option \<times> ('w, 's, 'q, 'h) worker \<Rightarrow> nat \<times> limiter option \<times> ('w, 's, 'q, 'h) worker" where
  "tick_conn D payload batch idx st =
     (case st of (sent, lmt, w) \<Rightarrow>
      if length (w_slots w) \<le> idx then (sent, lmt, raise_fault Panic w)
      else case slot w idx of
        None \<Rightarrow> (sent, lmt, w)
      | Some c \<Rightarrow>
        if c_state c \<noteq> Ready \<or> c_goaway c \<or> batch * MAX_BATCHES_IN_FLIGHT < c_in_flight c + batch
        then (sent, lmt, w)
        else if q_peer_streams_left_bidi (quic D) (c_q c) < batch then (sent, lmt, w)
        else
          (let (r, lmt', w1) = take_echo D batch lmt w in
           case r of
             Taken \<Rightarrow> (let (m, w2) = send_batch D idx payload batch w1 in (sent + m, lmt', w2))
           | Wait d \<Rightarrow> (sent, lmt', w1)
           | TakePanic \<Rightarrow> (sent, lmt', raise_fault Panic w1)))"

definition rate_tick :: "('w, 's, 'q, 'h) deps \<Rightarrow>
    ('w, 's, 'q, 'h) worker \<Rightarrow> ('w, 's, 'q, 'h) worker" where
  "rate_tick D w =
     (case w_phase w of
        PRate p \<Rightarrow>
          (let job = rp_job p;
               (sent, lmt, w1) = fold (tick_conn D (rj_payload job) (rj_batch job)) (rp_conns p)
                                   (0, rj_limiter job, w)
           in case w_phase w1 of
                PRate p1 \<Rightarrow>
                  w1\<lparr>w_phase := PRate (p1\<lparr>rp_job := (rp_job p1)\<lparr>rj_limiter := lmt\<rparr>,
                       rp_counts := (rp_counts p1)
                         \<lparr>send_times := send_times (rp_counts p1) + sent,
                          send_bytes := send_bytes (rp_counts p1) + sent * length (rj_payload job)\<rparr>\<rparr>)\<rparr>
              | _ \<Rightarrow> w1)
      | _ \<Rightarrow> w)"

definition drive_rate :: "('w, 's, 'q, 'h) deps \<Rightarrow> instant \<Rightarrow>
    ('w, 's, 'q, 'h) worker \<Rightarrow> ('w, 's, 'q, 'h) worker" where
  "drive_rate D now w =
     (case w_phase w of
        PRate p \<Rightarrow>
          (case rp_grace_until p of
             Some grace \<Rightarrow>
               (if send_times (rp_counts p) \<le> answered (rp_counts p) \<or> grace \<le> now
                then finish (ORate (rp_counts p)) w else w)
           | None \<Rightarrow>
               if rp_deadline p \<le> now
               then w\<lparr>w_phase := PRate (p\<lparr>rp_grace_until := Some (now + rj_tick (rp_job p))\<rparr>)\<rparr>
               else if now < rp_next_tick p then w
               else (case catch_up (rj_tick (rp_job p)) now (rp_next_tick p) of
                       None \<Rightarrow> raise_fault Diverge w
                     | Some t \<Rightarrow> rate_tick D (w\<lparr>w_phase := PRate (p\<lparr>rp_next_tick := t\<rparr>)\<rparr>)))
      | _ \<Rightarrow> w)"

definition start_rate :: "instant \<Rightarrow> rate_job \<Rightarrow>
    ('w, 's, 'q, 'h) worker \<Rightarrow> ('w, 's, 'q, 'h) worker" where
  "start_rate now job w =
     (let conns = slots_where (\<lambda>c. c_state c = Ready) w
      in w\<lparr>w_slots := map (map_option (\<lambda>c. if c_state c = Ready then c\<lparr>c_in_flight := 0\<rparr> else c)) (w_slots w),
           w_phase := PRate \<lparr>rp_job = job, rp_conns = conns, rp_deadline = now + rj_duration job,
                            rp_next_tick = now + rj_tick job, rp_grace_until = None,
                            rp_counts = rate_counts_default\<rparr>\<rparr>)"

definition drive :: "('w, 's, 'q, 'h) deps \<Rightarrow> instant \<Rightarrow>
    ('w, 's, 'q, 'h) worker \<Rightarrow> ('w, 's, 'q, 'h) worker" where
  "drive D now w =
     (case w_phase w of
        Idle \<Rightarrow> w
      | PDial p \<Rightarrow> drive_dial D now p w
      | PEcho p \<Rightarrow> drive_echo D (ej_times (ep_job p) - ej_issued (ep_job p) + 2) now w
      | PRatePrep job redials \<Rightarrow> if redials = 0 then start_rate now job w else w
      | PRate _ \<Rightarrow> drive_rate D now w)"

subsection \<open>The event loop\<close>

definition next_wakeup :: "('w, 's, 'q, 'h) worker \<Rightarrow> instant" where
  "next_wakeup w =
     (let t0 = w_next_keepalive w;
          t1 = (case heap_peek (w_timers w) of None \<Rightarrow> t0 | Some (Reverse (t, i)) \<Rightarrow> min t0 t);
          t2 = (case w_retries w of [] \<Rightarrow> t1 | (t, job) # _ \<Rightarrow> min t1 t)
      in case w_phase w of
           PEcho p \<Rightarrow> (case ep_wait_until p of None \<Rightarrow> t2 | Some t \<Rightarrow> min t2 t)
         | PRate p \<Rightarrow>
             min t2 (case rp_grace_until p of
                       Some g \<Rightarrow> g
                     | None \<Rightarrow> if rp_next_tick p < rp_deadline p then rp_next_tick p else rp_deadline p)
         | _ \<Rightarrow> t2)"

text \<open>What a poll reports: the waker, with the commands then in the channel, or a socket.\<close>

datatype poll_ev = Wake "command list" | Readable nat

fun on_wake :: "('w, 's, 'q, 'h) deps \<Rightarrow> command list \<Rightarrow>
    ('w, 's, 'q, 'h) worker \<times> bool \<Rightarrow> ('w, 's, 'q, 'h) worker \<times> bool" where
  "on_wake D [] st = st"
| "on_wake D (cmd # cmds) (w, stop) =
     on_wake D cmds (case cmd of CStop \<Rightarrow> (w, True) | _ \<Rightarrow> (start D cmd w, stop))"

fun on_events :: "('w, 's, 'q, 'h) deps \<Rightarrow> poll_ev list \<Rightarrow>
    ('w, 's, 'q, 'h) worker \<times> bool \<Rightarrow> ('w, 's, 'q, 'h) worker \<times> bool" where
  "on_events D [] st = st"
| "on_events D (Wake cmds # evs) st = on_events D evs (on_wake D cmds st)"
| "on_events D (Readable i # evs) st = on_events D evs st"

fun readable_of :: "poll_ev list \<Rightarrow> nat list" where
  "readable_of [] = []"
| "readable_of (Wake cmds # evs) = readable_of evs"
| "readable_of (Readable i # evs) = i # readable_of evs"

text \<open>
  One iteration of \<^verbatim>\<open>Worker::run\<close>; the flag says that the worker returned. A panic in
  \<^verbatim>\<open>drive\<close> unwinds out of \<^verbatim>\<open>run\<close>, and a loop that does not end never leaves it.
\<close>

definition iteration :: "('w, 's, 'q, 'h) deps \<Rightarrow> poll_ev list \<Rightarrow>
    ('w, 's, 'q, 'h) worker \<Rightarrow> ('w, 's, 'q, 'h) worker \<times> bool" where
  "iteration D evs w =
     (let (w1, stop) = on_events D evs (w, False);
          w2 = fold (on_readable D) (readable_of evs) w1;
          (now, w3) = get_now D w2;
          w4 = fire_timers D (fuel D) now w3;
          w5 = fire_retries D (fuel D) now w4;
          w6 = drive D now w5
      in if w_fault w6 \<noteq> None then (w6, True)
         else
           (let w7 = keepalive D now w6;
                w8 = flush_dirty D (fuel D) w7
            in (if stop then close_all D w8 else w8, stop)))"

end
