(* ===== verification/Engine_Inv.thy ===== *)
theory Engine_Inv
  imports Engine_Worker
begin

text \<open>
  The invariant of a worker and that every operation keeps it. It accounts for
  every dial and every round trip: a dial is in a slot, waiting to be retried, or
  in hand; a round trip is on a connection, waiting for its connection to be
  dialed again, or in hand; and the counters of the running benchmark are the
  numbers of these. \<open>n\<close>, \<open>E\<close> and \<open>R\<close> are what an operation has in hand: new dials,
  round trips and redials, the latter two by the slot they belong to.
\<close>

subsection \<open>Counting work\<close>

definition is_echo :: "req_kind \<Rightarrow> bool" where
  "is_echo k = (case k of KEcho _ \<Rightarrow> True | _ \<Rightarrow> False)"

definition p_new :: "purpose \<Rightarrow> bool" where "p_new p \<longleftrightarrow> p = New"
definition p_echo :: "purpose \<Rightarrow> bool" where
  "p_echo p = (case p of RedialEcho _ \<Rightarrow> True | _ \<Rightarrow> False)"
definition p_rate :: "purpose \<Rightarrow> bool" where "p_rate p \<longleftrightarrow> p = RedialRate"

definition jobs :: "(purpose \<Rightarrow> bool) \<Rightarrow> ('s, 'q, 'h) conn \<Rightarrow> nat" where
  "jobs Q c = (case c_dial c of None \<Rightarrow> 0 | Some j \<Rightarrow> if Q (dj_purpose j) then 1 else 0)"

definition retry_count :: "(purpose \<Rightarrow> bool) \<Rightarrow> (instant \<times> dial_job) list \<Rightarrow> nat" where
  "retry_count Q rs = length (filter (\<lambda>r. Q (dj_purpose (snd r))) rs)"

definition retries_at :: "nat \<Rightarrow> (instant \<times> dial_job) list \<Rightarrow> nat" where
  "retries_at i rs = length (filter (\<lambda>r. dj_slot (snd r) = Some i) rs)"

definition echo_load :: "('s, 'q, 'h) conn \<Rightarrow> nat" where
  "echo_load c = reqs is_echo c + jobs p_echo c"

definition busy_conn :: "('s, 'q, 'h) conn \<Rightarrow> nat" where
  "busy_conn c = reqs is_echo c + (if c_dial c = None then 0 else 1)"

definition is_ready :: "('s, 'q, 'h) conn \<Rightarrow> nat" where
  "is_ready c = (if c_state c = Ready then 1 else 0)"

definition new_work :: "('w, 's, 'q, 'h) worker \<Rightarrow> nat" where
  "new_work w = slot_sum (jobs p_new) (w_slots w) + retry_count p_new (w_retries w)"

definition echo_work :: "('w, 's, 'q, 'h) worker \<Rightarrow> nat" where
  "echo_work w = slot_sum echo_load (w_slots w) + retry_count p_echo (w_retries w)"

definition rate_work :: "('w, 's, 'q, 'h) worker \<Rightarrow> nat" where
  "rate_work w = slot_sum (jobs p_rate) (w_slots w) + retry_count p_rate (w_retries w)"

definition busy :: "('w, 's, 'q, 'h) worker \<Rightarrow> nat \<Rightarrow> nat" where
  "busy w i = slot_val busy_conn (slot w i) + retries_at i (w_retries w)"

subsection \<open>What the phase says\<close>

fun ph_new :: "phase \<Rightarrow> nat" where
  "ph_new (PDial p) = dp_active p"
| "ph_new _ = 0"

fun ph_echo :: "phase \<Rightarrow> nat" where
  "ph_echo (PEcho p) = ep_in_flight p"
| "ph_echo _ = 0"

fun ph_idle :: "phase \<Rightarrow> nat list" where
  "ph_idle (PEcho p) = ep_idle p"
| "ph_idle _ = []"

text \<open>
  The redials \<^verbatim>\<open>BenchMultiplex\<close> waits for are the ones under way and \<open>lost\<close> more
  that ended before it was waiting.
\<close>

fun ph_rate :: "nat \<Rightarrow> nat \<Rightarrow> phase \<Rightarrow> bool" where
  "ph_rate lost m (PRatePrep j r) = (m + lost = r)"
| "ph_rate lost m _ = (m \<le> lost)"

text \<open>
  A run of a benchmark: which one it is, what it was started with, what its counters
  come to, and the results there were when it started.
\<close>

datatype phase_tag = TIdle | TDial | TEcho | TPrep | TRate

fun phase_kind :: "phase \<Rightarrow> phase_tag" where
  "phase_kind Idle = TIdle"
| "phase_kind (PDial _) = TDial"
| "phase_kind (PEcho _) = TEcho"
| "phase_kind (PRatePrep _ _) = TPrep"
| "phase_kind (PRate _) = TRate"

text \<open>How many of the first \<open>k\<close> numbers a worker is handed are below \<open>limit\<close>.\<close>

definition handed :: "(nat \<Rightarrow> nat) \<Rightarrow> nat \<Rightarrow> nat \<Rightarrow> nat" where
  "handed numbers limit k = card {j. j < k \<and> numbers j < limit}"

lemma handed_Suc [simp]:
  "handed f limit (Suc k) = handed f limit k + (if f k < limit then 1 else 0)"
proof -
  have "{j. j < Suc k \<and> f j < limit} = {j. j < k \<and> f j < limit} \<union> (if f k < limit then {k} else {})"
    by (auto simp: less_Suc_eq)
  then show ?thesis by (simp add: handed_def)
qed

lemma handed_0 [simp]: "handed f limit 0 = 0"
  by (simp add: handed_def)

lemma handed_all:
  assumes "strict_mono f" and "j < k" and "limit \<le> f j"
  shows "handed f limit k = card {i. f i < limit}"
proof -
  have "i < k" if "f i < limit" for i
    using that assms strict_mono_less [OF assms(1), of i j] by simp
  then have "{i. i < k \<and> f i < limit} = {i. f i < limit}" by auto
  then show ?thesis by (simp add: handed_def)
qed

record run =
  run_total :: int
  run_results :: "outcome list"
  run_kind :: phase_tag
  run_conc :: nat
  run_times :: nat
  run_numbers :: "nat \<Rightarrow> nat"
  run_issued :: nat
  run_measure :: bool

text \<open>
  What is to be done, under way and done comes to the same \<open>run_total\<close>: all dials of
  \<^verbatim>\<open>Connections\<close>, and the round trips of \<^verbatim>\<open>BenchEcho\<close> handed to this worker, which
  are the numbers below \<^verbatim>\<open>times\<close> it was handed. No more are under way than
  the concurrency allows, and \<^verbatim>\<open>BenchEcho\<close> always has an idle connection when it may
  send.
\<close>

fun ph_total :: "run \<Rightarrow> phase \<Rightarrow> bool" where
  "ph_total rn (PDial p) =
     (lat_wf (dp_lat p) \<and> dp_active p \<le> dp_concurrency p \<and> dp_concurrency p = run_conc rn \<and>
      int (dp_remaining p) + int (dp_active p) + success (dp_lat p) + failed (dp_lat p) = run_total rn)"
| "ph_total rn (PEcho p) =
     (lat_wf (ep_lat p) \<and> ej_payloads (ep_job p) \<noteq> [] \<and>
      ej_times (ep_job p) = run_times rn \<and> ej_numbers (ep_job p) = run_numbers rn \<and> ej_measure (ep_job p) = run_measure rn \<and> ep_slots p = run_conc rn \<and>
      ep_in_flight p \<le> ep_slots p \<and> ep_slots p \<le> length (ep_idle p) + ep_in_flight p \<and>
      (run_conc rn = 0 \<longrightarrow> ep_exhausted p \<and> ej_issued (ep_job p) = run_issued rn) \<and>
      (ep_exhausted p \<longrightarrow> ep_slots p = 0 \<or> (\<exists>j < ej_issued (ep_job p). run_times rn \<le> run_numbers rn j)) \<and>
      (ej_measure (ep_job p) \<longrightarrow>
         int (ep_in_flight p) + success (ep_lat p) + failed (ep_lat p) =
         run_total rn + int (handed (run_numbers rn) (run_times rn) (ej_issued (ep_job p)))))"
| "ph_total rn _ = True"

subsection \<open>The invariant\<close>

definition conn_inv :: "('h \<Rightarrow> nat) \<Rightarrow> nat \<Rightarrow> ('s, 'q, 'h) conn \<Rightarrow> bool" where
  "conn_inv nxt i c \<longleftrightarrow>
     conn_wf nxt c \<and> (c_state c = Connecting \<longleftrightarrow> c_dial c \<noteq> None) \<and>
     (\<forall>j. c_dial c = Some j \<longrightarrow> dj_slot j = Some i)"

definition valid_slot :: "('w, 's, 'q, 'h) worker \<Rightarrow> nat \<Rightarrow> bool" where
  "valid_slot w i \<longleftrightarrow> i < length (w_slots w) \<and> i \<notin> set (w_free w)"

definition job_ok :: "('w, 's, 'q, 'h) worker \<Rightarrow> dial_job \<Rightarrow> bool" where
  "job_ok w j \<longleftrightarrow>
     (if dj_purpose j = New then dj_slot j = None else (\<exists>i. dj_slot j = Some i \<and> valid_slot w i))"

definition base_inv :: "('h \<Rightarrow> nat) \<Rightarrow> ('w, 's, 'q, 'h) worker \<Rightarrow> bool" where
  "base_inv nxt w \<longleftrightarrow>
     slots_all (conn_inv nxt) (w_slots w) \<and>
     w_ready w = slot_sum is_ready (w_slots w) \<and>
     table_ok (w_slots w) (w_free w) \<and>
     (\<forall>r \<in> set (w_retries w). job_ok w (snd r)) \<and>
     cfg_addrs (w_cfg w) \<noteq> []"

definition acct_inv :: "run \<Rightarrow> nat \<Rightarrow> ('w, 's, 'q, 'h) worker \<Rightarrow> nat \<Rightarrow> nat multiset \<Rightarrow> nat multiset \<Rightarrow> bool" where
  "acct_inv rn lost w n E R \<longleftrightarrow>
     new_work w + n = ph_new (w_phase w) \<and>
     echo_work w + size E = ph_echo (w_phase w) \<and>
     ph_rate lost (rate_work w + size R) (w_phase w) \<and>
     ph_total rn (w_phase w) \<and>
     w_results w = run_results rn \<and> phase_kind (w_phase w) = run_kind rn"

definition excl_inv :: "('w, 's, 'q, 'h) worker \<Rightarrow> nat multiset \<Rightarrow> nat multiset \<Rightarrow> bool" where
  "excl_inv w E R \<longleftrightarrow>
     (\<forall>i. busy w i + count_list (ph_idle (w_phase w)) i + count E i + count R i \<le> 1) \<and>
     (\<forall>i. i \<in> set (ph_idle (w_phase w)) \<or> i \<in># E \<or> i \<in># R \<longrightarrow> valid_slot w i)"

definition winv where
  "winv nxt rn lost w n E R \<longleftrightarrow> base_inv nxt w \<and> acct_inv rn lost w n E R \<and> excl_inv w E R"

lemmas winv_defs = winv_def base_inv_def acct_inv_def excl_inv_def new_work_def echo_work_def
  rate_work_def busy_def valid_slot_def job_ok_def slot_def

lemma job_ok_cong:
  "length (w_slots w') = length (w_slots w) \<Longrightarrow> w_free w' = w_free w \<Longrightarrow> job_ok w' = job_ok w"
  by (simp add: job_ok_def valid_slot_def fun_eq_iff)

lemma job_ok_frame [simp]:
  "job_ok (w\<lparr>w_phase := x1\<rparr>) = job_ok w" "job_ok (w\<lparr>w_retries := x2\<rparr>) = job_ok w"
  "job_ok (w\<lparr>w_ready := x3\<rparr>) = job_ok w" "job_ok (w\<lparr>w_world := x4\<rparr>) = job_ok w"
  "job_ok (put i c w) = job_ok w"
  by (rule job_ok_cong; simp add: put_def)+

text \<open>Only the slots, the free list, the retries, the phase and the ready count matter.\<close>

lemma winv_cong:
  assumes "w_slots w' = w_slots w" "w_free w' = w_free w" "w_retries w' = w_retries w"
    "w_phase w' = w_phase w" "w_ready w' = w_ready w" "w_cfg w' = w_cfg w"
    "w_results w' = w_results w"
  shows "winv nxt rn lost w' n E R = winv nxt rn lost w n E R"
  using assms by (simp add: winv_defs)

lemma winv_frame [simp]:
  "winv nxt rn lost (w\<lparr>w_world := x1\<rparr>) n E R = winv nxt rn lost w n E R"
  "winv nxt rn lost (w\<lparr>w_timers := x2\<rparr>) n E R = winv nxt rn lost w n E R"
  "winv nxt rn lost (w\<lparr>w_dirty := x3\<rparr>) n E R = winv nxt rn lost w n E R"
  "winv nxt rn lost (w\<lparr>w_dropped := x4\<rparr>) n E R = winv nxt rn lost w n E R"
  "winv nxt rn lost (w\<lparr>w_fault := x5\<rparr>) n E R = winv nxt rn lost w n E R"
  "winv nxt rn lost (w\<lparr>w_connected := x6\<rparr>) n E R = winv nxt rn lost w n E R"
  "winv nxt rn lost (w\<lparr>w_addr_counter := x7\<rparr>) n E R = winv nxt rn lost w n E R"
  "winv nxt rn lost (w\<lparr>w_next_keepalive := x8\<rparr>) n E R = winv nxt rn lost w n E R"
  "winv nxt rn lost (w\<lparr>w_post_headers := x9\<rparr>) n E R = winv nxt rn lost w n E R"
  "winv nxt rn lost (w\<lparr>w_post_len := x10\<rparr>) n E R = winv nxt rn lost w n E R"
  by (rule winv_cong; simp)+

lemma winv_raise [simp]: "winv nxt rn lost (raise_fault f w) n E R = winv nxt rn lost w n E R"
  by (simp add: raise_fault_def)

lemma slot_frame [simp]:
  "slot (w\<lparr>w_world := x1\<rparr>) i = slot w i" "slot (w\<lparr>w_timers := x2\<rparr>) i = slot w i"
  "slot (w\<lparr>w_dirty := x3\<rparr>) i = slot w i" "slot (w\<lparr>w_dropped := x4\<rparr>) i = slot w i"
  "slot (w\<lparr>w_fault := x5\<rparr>) i = slot w i" "slot (w\<lparr>w_connected := x6\<rparr>) i = slot w i"
  "slot (w\<lparr>w_phase := x7\<rparr>) i = slot w i" "slot (w\<lparr>w_ready := x8\<rparr>) i = slot w i"
  "slot (w\<lparr>w_retries := x9\<rparr>) i = slot w i" "slot (raise_fault f w) i = slot w i"
  by (simp_all add: slot_def raise_fault_def)

lemma slot_put [simp]: "slot w i = Some c \<Longrightarrow> slot (put i c' w) j = (if j = i then Some c' else slot w j)"
  by (auto simp: slot_def put_def dest: slot_get_bound)

lemma slot_bound: "slot w i = Some c \<Longrightarrow> i < length (w_slots w)"
  by (simp add: slot_def slot_get_bound)

lemma put_fields [simp]:
  "w_phase (put i c w) = w_phase w" "w_ready (put i c w) = w_ready w" "w_free (put i c w) = w_free w"
  "w_retries (put i c w) = w_retries w" "w_cfg (put i c w) = w_cfg w" "w_fault (put i c w) = w_fault w"
  "length (w_slots (put i c w)) = length (w_slots w)" "w_dirty (put i c w) = w_dirty w"
  "w_get_headers (put i c w) = w_get_headers w" "w_post_headers (put i c w) = w_post_headers w"
  by (simp_all add: put_def)

lemma get_now_eq: "get_now D w = (t, w') \<Longrightarrow> \<exists>wd. w' = w\<lparr>w_world := wd\<rparr>"
  by (auto simp: get_now_def split: prod.splits)

lemma winv_slot_free: "winv nxt rn lost w n E R \<Longrightarrow> slot w i = Some c \<Longrightarrow> i \<notin> set (w_free w)"
  using conn_table.occupied_not_free [of "w_slots w" "w_free w" i c]
  by (simp add: winv_def base_inv_def slot_def)

lemma winv_conn: "winv nxt rn lost w n E R \<Longrightarrow> slot w i = Some c \<Longrightarrow> conn_inv nxt i c"
  by (auto simp: winv_def base_inv_def slot_def dest: slots_allD)

lemma jobs_sum: "jobs p_new c + jobs p_echo c + jobs p_rate c = (if c_dial c = None then 0 else 1)"
  by (auto simp: jobs_def p_new_def p_echo_def p_rate_def split: option.splits purpose.splits)

subsection \<open>Changing one connection\<close>

text \<open>
  What a connection loses is in hand and what it gains was: the one lemma behind
  every change of a slot.
\<close>

lemma winv_slot_any:
  assumes inv: "winv nxt rn lost w n E R" and v: "valid_slot w i"
    and c': "\<And>c. v' = Some c \<Longrightarrow> conn_inv nxt i c"
    and ready: "r' + slot_val is_ready (slot w i) = w_ready w + slot_val is_ready v'"
    and new: "n' + slot_val (jobs p_new) v' = n + slot_val (jobs p_new) (slot w i)"
    and echo: "size E' + slot_val echo_load v' = size E + slot_val echo_load (slot w i)"
    and rate: "size R' + slot_val (jobs p_rate) v' = size R + slot_val (jobs p_rate) (slot w i)"
    and excl: "\<And>j. slot_val busy_conn (if j = i then v' else slot w j) + retries_at j (w_retries w) +
        count_list (ph_idle (w_phase w)) j + count E' j + count R' j \<le> 1"
    and valid: "\<And>j. j \<in># E' \<or> j \<in># R' \<Longrightarrow> valid_slot w j"
  shows "winv nxt rn lost (w\<lparr>w_slots := (w_slots w)[i := v'], w_ready := r'\<rparr>) n' E' R'"
proof -
  let ?w = "w\<lparr>w_slots := (w_slots w)[i := v'], w_ready := r'\<rparr>"
  have i: "i < length (w_slots w)" and nf: "i \<notin> set (w_free w)"
    using v by (simp_all add: valid_slot_def)
  then have sl: "w_slots w ! i = slot w i" by (simp add: slot_def slot_get_def)
  note upd = slot_sum_update [OF i, of _ v', unfolded sl]
  have vs: "valid_slot ?w j = valid_slot w j" for j by (simp add: valid_slot_def)
  have "base_inv nxt ?w"
  proof -
    have "table_ok ((w_slots w)[i := v']) (w_free w)"
      using inv i nf by (auto simp: winv_def base_inv_def table_ok_def nth_list_update)
    moreover have "slots_all (conn_inv nxt) ((w_slots w)[i := v'])"
      using inv i c' by (auto simp: winv_def base_inv_def slots_all_def)
    moreover have "r' = slot_sum is_ready ((w_slots w)[i := v'])"
      using upd [of is_ready] ready inv by (simp add: winv_def base_inv_def)
    ultimately show ?thesis
      using inv job_ok_cong [of ?w w] by (simp add: winv_def base_inv_def)
  qed
  moreover have "new_work ?w + n' = new_work w + n" "echo_work ?w + size E' = echo_work w + size E"
      "rate_work ?w + size R' = rate_work w + size R"
    using upd [of "jobs p_new"] upd [of echo_load] upd [of "jobs p_rate"] new echo rate
    by (simp_all add: new_work_def echo_work_def rate_work_def)
  then have "acct_inv rn lost ?w n' E' R'"
    using inv by (simp add: winv_def acct_inv_def)
  moreover have "busy ?w j = slot_val busy_conn (if j = i then v' else slot w j) + retries_at j (w_retries w)" for j
    using i by (simp add: busy_def slot_def)
  then have "excl_inv ?w E' R'"
    using inv excl valid by (auto simp: winv_def excl_inv_def vs)
  ultimately show ?thesis by (simp add: winv_def)
qed

lemma winv_slot_gen:
  assumes inv: "winv nxt rn lost w n E R" and v: "valid_slot w i"
    and "\<And>c. v' = Some c \<Longrightarrow> conn_inv nxt i c"
    and "r' + slot_val is_ready (slot w i) = w_ready w + slot_val is_ready v'"
    and "n' + slot_val (jobs p_new) v' = n + slot_val (jobs p_new) (slot w i)"
    and "size E' + slot_val echo_load v' = size E + slot_val echo_load (slot w i)"
    and "size R' + slot_val (jobs p_rate) v' = size R + slot_val (jobs p_rate) (slot w i)"
    and excl: "\<And>j. count E' j + count R' j + (if j = i then slot_val busy_conn v' else 0) \<le>
                    count E j + count R j + (if j = i then slot_val busy_conn (slot w i) else 0)"
  shows "winv nxt rn lost (w\<lparr>w_slots := (w_slots w)[i := v'], w_ready := r'\<rparr>) n' E' R'"
proof (rule winv_slot_any [OF assms(1-7)])
  fix j
  have "busy w j + count_list (ph_idle (w_phase w)) j + count E j + count R j \<le> 1"
    using inv by (simp add: winv_def excl_inv_def)
  then show "slot_val busy_conn (if j = i then v' else slot w j) + retries_at j (w_retries w) +
      count_list (ph_idle (w_phase w)) j + count E' j + count R' j \<le> 1"
    using excl [of j] by (auto simp: busy_def)
  assume "j \<in># E' \<or> j \<in># R'"
  then have "j \<in> set (ph_idle (w_phase w)) \<or> j \<in># E \<or> j \<in># R \<or> j = i"
    using excl [of j] by (auto simp: count_greater_zero_iff [symmetric] simp del: count_greater_zero_iff)
  then show "valid_slot w j"
    using inv v by (auto simp: winv_def excl_inv_def)
qed

lemma valid_slotI: "winv nxt rn lost w n E R \<Longrightarrow> slot w i = Some c \<Longrightarrow> valid_slot w i"
  by (simp add: valid_slot_def slot_bound winv_slot_free)

lemma winv_put_gen:
  assumes "winv nxt rn lost w n E R" and "slot w i = Some c" and "conn_inv nxt i c'"
    and "r' + is_ready c = w_ready w + is_ready c'"
    and "n' + jobs p_new c' = n + jobs p_new c"
    and "size E' + echo_load c' = size E + echo_load c"
    and "size R' + jobs p_rate c' = size R + jobs p_rate c"
    and "\<And>j. count E' j + count R' j + (if j = i then busy_conn c' else 0) \<le>
              count E j + count R j + (if j = i then busy_conn c else 0)"
  shows "winv nxt rn lost ((put i c' w)\<lparr>w_ready := r'\<rparr>) n' E' R'"
proof -
  have "winv nxt rn lost (w\<lparr>w_slots := (w_slots w)[i := Some c'], w_ready := r'\<rparr>) n' E' R'"
    using assms(2-7) valid_slotI [OF assms(1,2)]
    by (intro winv_slot_gen [OF assms(1)]) (simp_all only: assms(8) slot_val_simps option.inject)
  then show ?thesis by (simp add: put_def)
qed

lemma winv_put_same:
  assumes "winv nxt rn lost w n E R" and "slot w i = Some c" and "conn_inv nxt i c'"
    and "c_state c' = c_state c" and "c_dial c' = c_dial c" and "reqs is_echo c' = reqs is_echo c"
  shows "winv nxt rn lost (put i c' w) n E R"
proof -
  have "winv nxt rn lost ((put i c' w)\<lparr>w_ready := w_ready w\<rparr>) n E R"
    using assms(4-) by (intro winv_put_gen [OF assms(1-3)])
      (simp_all add: is_ready_def jobs_def echo_load_def busy_conn_def)
  then show ?thesis by (simp add: put_def)
qed

lemma winv_put_frame:
  assumes "winv nxt rn lost w n E R" and "slot w i = Some c" and "conn_wf nxt c'"
    and "cframe c' = cframe c" and "reqs is_echo c' = reqs is_echo c"
  shows "winv nxt rn lost (put i c' w) n E R"
  using winv_conn [OF assms(1,2)] cframeD(4,5) [OF assms(4)]
  by (intro winv_put_same [OF assms(1,2)]) (auto simp: conn_inv_def assms)

text \<open>Requests taken off a connection are in hand, and requests put on it were.\<close>

lemma winv_put_take:
  assumes "winv nxt rn lost w n E R" and "slot w i = Some c" and "conn_inv nxt i c'"
    and "c_state c' = c_state c" and "c_dial c' = c_dial c" and "reqs is_echo c' + k = reqs is_echo c"
  shows "winv nxt rn lost (put i c' w) n (replicate_mset k i + E) R"
proof -
  have "winv nxt rn lost ((put i c' w)\<lparr>w_ready := w_ready w\<rparr>) n (replicate_mset k i + E) R"
    using assms(4-) by (intro winv_put_gen [OF assms(1-3)])
      (simp_all add: is_ready_def jobs_def echo_load_def busy_conn_def)
  then show ?thesis by (simp add: put_def)
qed

lemma winv_put_add:
  assumes "winv nxt rn lost w n (replicate_mset k i + E) R" and "slot w i = Some c" and "conn_inv nxt i c'"
    and "c_state c' = c_state c" and "c_dial c' = c_dial c" and "reqs is_echo c' = reqs is_echo c + k"
  shows "winv nxt rn lost (put i c' w) n E R"
proof -
  have "winv nxt rn lost ((put i c' w)\<lparr>w_ready := w_ready w\<rparr>) n E R"
    using assms(4-) by (intro winv_put_gen [OF assms(1-3)])
      (simp_all add: is_ready_def jobs_def echo_load_def busy_conn_def)
  then show ?thesis by (simp add: put_def)
qed

subsection \<open>Dial jobs in hand\<close>

definition hold_n :: "dial_job \<Rightarrow> nat" where
  "hold_n j = (if p_new (dj_purpose j) then 1 else 0)"

definition slot_set :: "dial_job \<Rightarrow> nat multiset" where
  "slot_set j = (case dj_slot j of None \<Rightarrow> {#} | Some i \<Rightarrow> {#i#})"

definition hold_E :: "dial_job \<Rightarrow> nat multiset" where
  "hold_E j = (if p_echo (dj_purpose j) then slot_set j else {#})"

definition hold_R :: "dial_job \<Rightarrow> nat multiset" where
  "hold_R j = (if p_rate (dj_purpose j) then slot_set j else {#})"

definition winv_job where
  "winv_job nxt rn lost w n E R j \<longleftrightarrow>
     winv nxt rn lost w (n + hold_n j) (hold_E j + E) (hold_R j + R) \<and> job_ok w j"

lemma hold_update [simp]:
  "hold_n (j\<lparr>dj_attempt := a\<rparr>) = hold_n j" "hold_E (j\<lparr>dj_attempt := a\<rparr>) = hold_E j"
  "hold_R (j\<lparr>dj_attempt := a\<rparr>) = hold_R j" "job_ok w (j\<lparr>dj_attempt := a\<rparr>) = job_ok w j"
  by (simp_all add: hold_n_def hold_E_def hold_R_def slot_set_def job_ok_def)

lemma purpose_flags [simp]:
  "p_new New" "\<not> p_new (RedialEcho t)" "\<not> p_new RedialRate"
  "\<not> p_echo New" "p_echo (RedialEcho t)" "\<not> p_echo RedialRate"
  "\<not> p_rate New" "\<not> p_rate (RedialEcho t)" "p_rate RedialRate"
  by (simp_all add: p_new_def p_echo_def p_rate_def)

lemma count_list_pos: "0 < count_list xs x \<longleftrightarrow> x \<in> set xs"
  using count_list_0_iff [of xs x] by auto

text \<open>A change of the phase moves work between the counters and the hands.\<close>

lemma winv_phase:
  assumes inv: "winv nxt rn lost w n E R"
    and new: "ph_new ph + n = ph_new (w_phase w) + n'"
    and echo: "ph_echo ph + size E = ph_echo (w_phase w) + size E'"
    and rate: "ph_rate lost (rate_work w + size R') ph"
    and tot: "ph_total rn ph" and kind: "phase_kind ph = phase_kind (w_phase w)"
    and excl: "\<And>j. count_list (ph_idle ph) j + count E' j + count R' j \<le>
                    count_list (ph_idle (w_phase w)) j + count E j + count R j"
  shows "winv nxt rn lost (w\<lparr>w_phase := ph\<rparr>) n' E' R'"
proof -
  let ?w = "w\<lparr>w_phase := ph\<rparr>"
  have b: "busy ?w j = busy w j" for j by (simp add: busy_def)
  have "base_inv nxt ?w"
    using inv by (simp add: winv_def base_inv_def)
  moreover have "acct_inv rn lost ?w n' E' R'"
    using inv new echo rate tot kind
    by (simp add: winv_def acct_inv_def new_work_def echo_work_def rate_work_def)
  moreover have "busy w j + count_list (ph_idle ph) j + count E' j + count R' j \<le> 1" for j
    using excl [of j] inv by (auto simp: winv_def excl_inv_def dest: spec [of _ j])
  moreover have "valid_slot ?w j" if "j \<in> set (ph_idle ph) \<or> j \<in># E' \<or> j \<in># R'" for j
  proof -
    have "0 < count_list (ph_idle ph) j + count E' j + count R' j"
      using that count_list_pos [of "ph_idle ph" j] by (elim disjE) (simp_all add: add_pos_nonneg)
    then have "0 < count_list (ph_idle (w_phase w)) j + count E j + count R j"
      using excl [of j] by linarith
    then have "j \<in> set (ph_idle (w_phase w)) \<or> j \<in># E \<or> j \<in># R"
      by (auto simp: count_list_0_iff not_in_iff [symmetric])
    then show ?thesis using inv by (auto simp: winv_def excl_inv_def valid_slot_def)
  qed
  ultimately show ?thesis by (simp add: winv_def excl_inv_def b)
qed

lemma winv_acct: "winv nxt rn lost w n E R \<Longrightarrow> acct_inv rn lost w n E R"
  by (simp add: winv_def)

text \<open>The end of a round trip in hand.\<close>

lemma winv_echo_done:
  assumes "winv nxt rn lost w n (add_mset idx E) R"
  shows "winv nxt rn lost (echo_done D idx result t0 w) n E R"
proof -
  obtain t wd where gn: "get_now D w = (t, w\<lparr>w_world := wd\<rparr>)"
    using get_now_eq by (metis surj_pair)
  have "ph_echo (w_phase w) \<noteq> 0"
    using assms by (auto simp: winv_def acct_inv_def)
  then obtain p where p: "w_phase w = PEcho p" "ep_in_flight p \<noteq> 0"
    by (cases "w_phase w") auto
  let ?lat = "if ej_measure (ep_job p)
    then (case result of Inr _ \<Rightarrow> lat_ok (t - t0) (ep_lat p) | Inl e \<Rightarrow> lat_fail e (ep_lat p)) else ep_lat p"
  let ?p = "p\<lparr>ep_in_flight := ep_in_flight p - 1, ep_idle := ep_idle p @ [idx], ep_lat := ?lat\<rparr>"
  have eq: "echo_done D idx result t0 w = (w\<lparr>w_world := wd\<rparr>)\<lparr>w_phase := PEcho ?p\<rparr>"
    using p by (simp add: echo_done_def gn decr_def)
  have tot: "ph_total rn (PEcho ?p)"
    using assms p by (auto simp: winv_def acct_inv_def lat_wf_ok lat_wf_fail split: sum.splits)
  have "winv nxt rn lost (w\<lparr>w_phase := PEcho ?p\<rparr>) n E R"
    using winv_acct [OF assms] p tot by (intro winv_phase [OF assms]) (auto simp: acct_inv_def)
  then show ?thesis
    unfolding eq by (rule iffD1 [OF winv_cong, rotated -1]) simp_all
qed

subsection \<open>Failed dials\<close>

lemma retry_count_simps [simp]:
  "retry_count Q [] = 0"
  "retry_count Q (r # rs) = (if Q (dj_purpose (snd r)) then 1 else 0) + retry_count Q rs"
  "retry_count Q (rs @ rs') = retry_count Q rs + retry_count Q rs'"
  by (simp_all add: retry_count_def)

lemma retries_at_simps [simp]:
  "retries_at i [] = 0"
  "retries_at i (r # rs) = (if dj_slot (snd r) = Some i then 1 else 0) + retries_at i rs"
  "retries_at i (rs @ rs') = retries_at i rs + retries_at i rs'"
  by (simp_all add: retries_at_def)

text \<open>A job's purpose says what it counts as.\<close>

lemma hold_cases:
  assumes "job_ok w j"
  obtains (new) "dj_purpose j = New" "dj_slot j = None" "hold_n j = 1" "hold_E j = {#}" "hold_R j = {#}"
  | (echo) t i where "dj_purpose j = RedialEcho t" "dj_slot j = Some i" "valid_slot w i"
      "hold_n j = 0" "hold_E j = {#i#}" "hold_R j = {#}"
  | (rate) i where "dj_purpose j = RedialRate" "dj_slot j = Some i" "valid_slot w i"
      "hold_n j = 0" "hold_E j = {#}" "hold_R j = {#i#}"
  using assms
  by (cases "dj_purpose j") (auto simp: job_ok_def hold_n_def hold_E_def hold_R_def slot_set_def)

lemma winv_job_ok: "winv_job nxt rn lost w n E R j \<Longrightarrow> job_ok w j"
  by (simp add: winv_job_def)

lemma winv_retries:
  assumes inv: "winv nxt rn lost w n E R"
    and ok: "\<forall>r \<in> set rs. job_ok w (snd r)"
    and new: "retry_count p_new rs + n' = retry_count p_new (w_retries w) + n"
    and echo: "retry_count p_echo rs + size E' = retry_count p_echo (w_retries w) + size E"
    and rate: "retry_count p_rate rs + size R' = retry_count p_rate (w_retries w) + size R"
    and at: "\<And>i. retries_at i rs + count E' i + count R' i = retries_at i (w_retries w) + count E i + count R i"
    and valid: "\<And>i. i \<in># E' \<or> i \<in># R' \<Longrightarrow> valid_slot w i"
  shows "winv nxt rn lost (w\<lparr>w_retries := rs\<rparr>) n' E' R'"
proof -
  let ?w = "w\<lparr>w_retries := rs\<rparr>"
  have "base_inv nxt ?w"
    using inv ok by (simp add: winv_def base_inv_def)
  moreover have "new_work ?w + n' = new_work w + n" "echo_work ?w + size E' = echo_work w + size E"
      "rate_work ?w + size R' = rate_work w + size R"
    using new echo rate by (simp_all add: new_work_def echo_work_def rate_work_def)
  then have "acct_inv rn lost ?w n' E' R'"
    using inv by (simp add: winv_def acct_inv_def)
  moreover have "busy ?w i + count_list (ph_idle (w_phase w)) i + count E' i + count R' i \<le> 1" for i
  proof -
    have "busy ?w i + retries_at i (w_retries w) = busy w i + retries_at i rs" by (simp add: busy_def)
    moreover have "busy w i + count_list (ph_idle (w_phase w)) i + count E i + count R i \<le> 1"
      using inv by (simp add: winv_def excl_inv_def)
    ultimately show ?thesis using at [of i] by linarith
  qed
  moreover have "valid_slot ?w i" if "i \<in> set (ph_idle (w_phase w)) \<or> i \<in># E' \<or> i \<in># R'" for i
    using that valid [of i] inv by (auto simp: winv_def excl_inv_def valid_slot_def)
  ultimately show ?thesis by (simp add: winv_def excl_inv_def)
qed

lemma winv_retry_push:
  assumes "winv_job nxt rn lost w n E R j"
  shows "winv nxt rn lost (w\<lparr>w_retries := w_retries w @ [(t, j)]\<rparr>) n E R"
proof -
  from assms have inv: "winv nxt rn lost w (n + hold_n j) (hold_E j + E) (hold_R j + R)" and ok: "job_ok w j"
    by (simp_all add: winv_job_def)
  from inv have v: "valid_slot w i" if "i \<in># E \<or> i \<in># R" for i
    using that by (auto simp: winv_def excl_inv_def)
  show ?thesis
    using ok
  proof (cases rule: hold_cases)
    case new
    then show ?thesis
      using ok v inv by (intro winv_retries [OF inv]) (auto simp: winv_def base_inv_def)
  next
    case (echo t i)
    then show ?thesis
      using ok v inv by (intro winv_retries [OF inv]) (auto simp: winv_def base_inv_def)
  next
    case (rate i)
    then show ?thesis
      using ok v inv by (intro winv_retries [OF inv]) (auto simp: winv_def base_inv_def)
  qed
qed

lemma winv_retry_pop:
  assumes inv: "winv nxt rn lost w n E R" and rs: "w_retries w = (t, j) # rest"
  shows "winv_job nxt rn lost (w\<lparr>w_retries := rest\<rparr>) n E R j"
proof -
  have ok: "job_ok w j" "\<forall>r \<in> set rest. job_ok w (snd r)"
    using inv rs by (auto simp: winv_def base_inv_def)
  from inv have v: "valid_slot w i" if "i \<in># E \<or> i \<in># R" for i
    using that by (auto simp: winv_def excl_inv_def)
  have "winv nxt rn lost (w\<lparr>w_retries := rest\<rparr>) (n + hold_n j) (hold_E j + E) (hold_R j + R)"
    using ok(1)
  proof (cases rule: hold_cases)
    case new
    then show ?thesis using ok v rs by (intro winv_retries [OF inv]) auto
  next
    case (echo t i)
    then show ?thesis using ok v rs by (intro winv_retries [OF inv]) auto
  next
    case (rate i)
    then show ?thesis using ok v rs by (intro winv_retries [OF inv]) auto
  qed
  then show ?thesis using ok by (simp add: winv_job_def)
qed

text \<open>A dial in hand that failed is retried, or its end is counted.\<close>

lemma winv_drop_R:
  assumes "winv nxt rn lost w n E (add_mset i R)" and "\<nexists>j r. w_phase w = PRatePrep j r"
  shows "winv nxt rn lost w n E R"
proof -
  have "ph_rate lost (rate_work w + size R) (w_phase w)"
    using winv_acct [OF assms(1)] assms(2) by (cases "w_phase w") (auto simp: acct_inv_def)
  then have "winv nxt rn lost (w\<lparr>w_phase := w_phase w\<rparr>) n E R"
    using winv_acct [OF assms(1)] by (intro winv_phase [OF assms(1)]) (auto simp: acct_inv_def)
  then show ?thesis by simp
qed

lemma winv_rate_end:
  assumes "winv nxt rn lost w n E (add_mset i R)"
  shows "winv nxt rn lost
    (case w_phase w of PRatePrep j r \<Rightarrow> decr r (\<lambda>m. w\<lparr>w_phase := PRatePrep j m\<rparr>) | _ \<Rightarrow> w) n E R"
proof (cases "\<exists>j r. w_phase w = PRatePrep j r")
  case True
  then obtain j r where ph: "w_phase w = PRatePrep j r" by blast
  with winv_acct [OF assms] have "r = Suc (rate_work w + size R + lost)"
    by (simp add: acct_inv_def)
  then show ?thesis
    using winv_acct [OF assms] ph
    by (auto simp: decr_def acct_inv_def intro!: winv_phase [OF assms])
next
  case False
  with winv_drop_R [OF assms] show ?thesis by (auto split: phase.splits)
qed

lemma winv_new_end:
  assumes "winv nxt rn lost w (Suc n) E R"
    and "\<And>l. lat_wf l \<Longrightarrow> lat_wf (f l) \<and> success (f l) + failed (f l) = success l + failed l + 1"
  shows "winv nxt rn lost
    (case w_phase w of
       PDial p \<Rightarrow> decr (dp_active p) (\<lambda>m. w\<lparr>w_phase := PDial (p\<lparr>dp_active := m, dp_lat := f (dp_lat p)\<rparr>)\<rparr>)
     | _ \<Rightarrow> w) n E R"
proof -
  have "ph_new (w_phase w) \<noteq> 0" using winv_acct [OF assms(1)] by (simp add: acct_inv_def)
  then obtain p where p: "w_phase w = PDial p" "dp_active p \<noteq> 0"
    by (cases "w_phase w") auto
  let ?p = "p\<lparr>dp_active := dp_active p - 1, dp_lat := f (dp_lat p)\<rparr>"
  have "winv nxt rn lost (w\<lparr>w_phase := PDial ?p\<rparr>) n E R"
    using p winv_acct [OF assms(1)] assms(2) [of "dp_lat p"]
    by (intro winv_phase [OF assms(1)]) (auto simp: acct_inv_def)
  with p show ?thesis by (simp add: decr_def)
qed

lemma lat_one:
  "lat_wf l \<Longrightarrow> lat_wf (lat_ok d l) \<and> success (lat_ok d l) + failed (lat_ok d l) = success l + failed l + 1"
  "lat_wf l \<Longrightarrow> lat_wf (lat_fail e l) \<and> success (lat_fail e l) + failed (lat_fail e l) = success l + failed l + 1"
  by (simp_all add: lat_wf_ok lat_wf_fail)

lemma winv_dial_failed_job:
  assumes "winv_job nxt rn lost w n E R job"
  shows "winv nxt rn lost (dial_failed_job D job err w) n E R"
proof (cases "dj_attempt job < cfg_dial_retries (w_cfg w)")
  case True
  obtain t wd where gn: "get_now D w = (t, w\<lparr>w_world := wd\<rparr>)"
    using get_now_eq by (metis surj_pair)
  have "winv_job nxt rn lost (w\<lparr>w_world := wd\<rparr>) n E R (job\<lparr>dj_attempt := dj_attempt job + 1\<rparr>)"
    using assms by (simp add: winv_job_def)
  from winv_retry_push [OF this] show ?thesis
    using True by (simp add: dial_failed_job_def gn)
next
  case False
  note inv = assms [unfolded winv_job_def, THEN conjunct1]
  from winv_job_ok [OF assms] show ?thesis
  proof (cases rule: hold_cases)
    case new
    then show ?thesis
      using False inv winv_new_end [OF _ lat_one(2)] by (simp add: dial_failed_job_def)
  next
    case (echo t i)
    then show ?thesis
      using False inv winv_echo_done by (simp add: dial_failed_job_def)
  next
    case (rate i)
    then show ?thesis
      using False inv winv_rate_end by (simp add: dial_failed_job_def)
  qed
qed

text \<open>A connection that holds no dial and no round trip may leave its slot.\<close>

lemma busy_conn_0: "busy_conn c = 0 \<longleftrightarrow> reqs is_echo c = 0 \<and> c_dial c = None"
  by (simp add: busy_conn_def)

lemma no_dial [simp]: "c_dial c = None \<Longrightarrow> jobs Q c = 0"
  by (simp add: jobs_def)

lemma winv_clear:
  assumes "winv nxt rn lost w n E R" and "slot w i = Some c" and "busy_conn c = 0"
    and "r' + is_ready c = w_ready w"
  shows "winv nxt rn lost (w\<lparr>w_slots := (w_slots w)[i := None], w_ready := r'\<rparr>) n E R"
  using assms(2-) valid_slotI [OF assms(1,2)]
  by (intro winv_slot_gen [OF assms(1)]) (auto simp: busy_conn_0 echo_load_def)

lemma winv_free:
  assumes inv: "winv nxt rn lost w n E R" and "slot w i = None" and v: "valid_slot w i"
    and idle: "retries_at i (w_retries w) = 0" "i \<notin> set (ph_idle (w_phase w))" "i \<notin># E" "i \<notin># R"
  shows "winv nxt rn lost (w\<lparr>w_free := i # w_free w\<rparr>) n E R"
proof -
  let ?w = "w\<lparr>w_free := i # w_free w\<rparr>"
  have "job_ok ?w (snd r)" if "r \<in> set (w_retries w)" for r
  proof -
    have "dj_slot (snd r) \<noteq> Some i"
      using that idle(1) by (auto simp: retries_at_def filter_empty_conv)
    moreover have "job_ok w (snd r)" using that inv by (simp add: winv_def base_inv_def)
    ultimately show ?thesis by (auto simp: job_ok_def valid_slot_def)
  qed
  moreover have "w_slots w ! i = None"
    using assms(2) v by (auto simp: slot_def slot_get_def valid_slot_def)
  ultimately have "base_inv nxt ?w"
    using inv v by (auto simp: winv_def base_inv_def table_ok_def valid_slot_def)
  moreover have "acct_inv rn lost ?w n E R"
    using inv by (simp add: winv_def acct_inv_def new_work_def echo_work_def rate_work_def)
  moreover have "excl_inv ?w E R"
    using inv idle by (auto simp: winv_def excl_inv_def valid_slot_def busy_def slot_def)
  ultimately show ?thesis by (simp add: winv_def)
qed

text \<open>The dial of a connection that is dialing, taken off it.\<close>

lemma winv_busy: "winv nxt rn lost w n E R \<Longrightarrow>
    busy w i + count_list (ph_idle (w_phase w)) i + count E i + count R i \<le> 1"
  by (simp add: winv_def excl_inv_def)

lemma dialing_conn:
  assumes "winv nxt rn lost w n E R" and "slot w i = Some c" and "c_dial c = Some job"
  shows "c_state c = Connecting" and "dj_slot job = Some i" and "reqs is_echo c = 0"
    and "retries_at i (w_retries w) = 0" and "i \<notin> set (ph_idle (w_phase w))" and "i \<notin># E" and "i \<notin># R"
proof -
  from winv_conn [OF assms(1,2)] assms(3) show "c_state c = Connecting" "dj_slot job = Some i"
    by (auto simp: conn_inv_def)
  have "busy w i = reqs is_echo c + 1 + retries_at i (w_retries w)"
    using assms(2,3) by (simp add: busy_def busy_conn_def)
  then have "reqs is_echo c = 0 \<and> retries_at i (w_retries w) = 0 \<and>
      count_list (ph_idle (w_phase w)) i = 0 \<and> count E i = 0 \<and> count R i = 0"
    using winv_busy [OF assms(1), of i] by linarith
  then show "reqs is_echo c = 0" "retries_at i (w_retries w) = 0" "i \<notin> set (ph_idle (w_phase w))"
      "i \<notin># E" "i \<notin># R"
    by (simp_all add: count_list_0_iff not_in_iff)
qed

lemma winv_take_dial:
  assumes inv: "winv nxt rn lost w n E R" and s: "slot w i = Some c" and d: "c_dial c = Some job"
    and c': "conn_inv nxt i c'" "c_dial c' = None" "reqs is_echo c' = 0"
    and ready: "r' = w_ready w + is_ready c'"
  shows "winv nxt rn lost ((put i c' w)\<lparr>w_ready := r'\<rparr>) (n + hold_n job) (hold_E job + E) (hold_R job + R)"
proof -
  note dc = dialing_conn [OF inv s d]
  have "busy_conn c' = 0" "busy_conn c = 1" "is_ready c = 0" "echo_load c' = 0" "echo_load c = jobs p_echo c"
    using dc d c' by (simp_all add: busy_conn_def is_ready_def echo_load_def)
  then show ?thesis
    using d c' ready dc(2)
    by (intro winv_put_gen [OF inv s c'(1)])
      (auto simp: jobs_def hold_n_def hold_E_def hold_R_def slot_set_def split: purpose.splits
        simp: p_new_def p_echo_def p_rate_def)
qed

lemma winv_dial_failed:
  assumes inv: "winv nxt rn lost w n E R"
  shows "winv nxt rn lost (dial_failed D idx err w) n E R"
proof (cases "slot w idx")
  case None
  with assms show ?thesis by (simp add: dial_failed_def)
next
  case s: (Some c)
  note v = valid_slotI [OF inv s]
  show ?thesis
  proof (cases "c_dial c")
    case None
    with s assms show ?thesis by (simp add: dial_failed_def)
  next
    case d: (Some job)
    note dc = dialing_conn [OF inv s d]
    let ?c = "c\<lparr>c_dial := None, c_state := Broken, c_attempt_deadline := None,
                c_streams := [], c_pending := [], c_queued := []\<rparr>"
    let ?E = "hold_E job + E" and ?R = "hold_R job + R" and ?n = "n + hold_n job"
    have ci: "conn_inv nxt idx ?c"
      by (simp add: conn_inv_def conn_wf_def split: option.splits)
    have "winv nxt rn lost ((put idx ?c w)\<lparr>w_ready := w_ready w\<rparr>) ?n ?E ?R"
      using ci by (intro winv_take_dial [OF inv s d]) (simp_all add: reqs_def is_ready_def)
    then have p: "winv nxt rn lost (put idx ?c w) ?n ?E ?R" by (simp add: put_def)
    show ?thesis
    proof (cases "dj_purpose job = New")
      case True
      let ?w1 = "w\<lparr>w_slots := (w_slots w)[idx := None], w_free := idx # w_free w,
                  w_world := os_deregister (os D) (c_sock c) (w_world w)\<rparr>"
      let ?w0 = "w\<lparr>w_slots := (w_slots w)[idx := None]\<rparr>"
      have h: "hold_E job = {#}" "hold_R job = {#}" using True by (simp_all add: hold_E_def hold_R_def)
      have "winv nxt rn lost ((put idx ?c w)\<lparr>w_slots := (w_slots (put idx ?c w))[idx := None],
          w_ready := w_ready w\<rparr>) ?n ?E ?R"
        using s by (intro winv_clear [OF p, of idx ?c]) (simp_all add: busy_conn_def reqs_def is_ready_def)
      then have w0: "winv nxt rn lost ?w0 ?n E R" by (simp add: put_def h)
      have "winv nxt rn lost (?w0\<lparr>w_free := idx # w_free ?w0\<rparr>) ?n E R"
        using dc v by (intro winv_free [OF w0]) (auto simp: slot_def valid_slot_def)
      then have "winv nxt rn lost ?w1 ?n E R" by simp
      then have "winv_job nxt rn lost ?w1 n E R (job\<lparr>dj_slot := None\<rparr>)"
        using True by (simp add: winv_job_def hold_n_def hold_E_def hold_R_def job_ok_def)
      from winv_dial_failed_job [OF this] show ?thesis
        using s d True v by (simp add: dial_failed_def valid_slot_def table_release_def)
    next
      case False
      then have "winv_job nxt rn lost (put idx ?c w) n E R job"
        using p v dc(2) by (simp add: winv_job_def) (simp add: job_ok_def)
      from winv_dial_failed_job [OF this] show ?thesis
        using s d False v by (simp add: dial_failed_def valid_slot_def)
    qed
  qed
qed

subsection \<open>Sending requests\<close>

text \<open>A round trip that is being sent is in hand; a dial's first request counts as its dial.\<close>

definition hand :: "req_kind \<Rightarrow> nat \<Rightarrow> nat multiset" where
  "hand k i = (if is_echo k then {#i#} else {#})"

lemma hand_simps [simp]:
  "hand KDial i = {#}" "hand (KEcho t) i = {#i#}" "hand KRate i = {#}"
  by (simp_all add: hand_def is_echo_def)

lemma hand_replicate: "hand k i = replicate_mset (if is_echo k then 1 else 0) i"
  by (simp add: hand_def)

lemma put_dirty_eq:
  "put_dirty i c w = (put i (c\<lparr>c_dirty := True\<rparr>) w)\<lparr>w_dirty := if c_dirty c then w_dirty w else i # w_dirty w\<rparr>"
proof (cases "c_dirty c")
  case True
  then have eq: "c\<lparr>c_dirty := True\<rparr> = c" by (cases c) simp
  from True show ?thesis unfolding eq by (simp add: put_dirty_def mark_dirty_def put_def)
qed (simp add: put_dirty_def mark_dirty_def put_def)

text \<open>What sending leaves alone.\<close>

definition wframe where
  "wframe w = (w_phase w, w_retries w, w_free w, w_ready w, w_cfg w, length (w_slots w), w_fault w)"

lemma wframeD:
  assumes "wframe w' = wframe w"
  shows "w_phase w' = w_phase w" "w_retries w' = w_retries w" "w_free w' = w_free w"
    "w_ready w' = w_ready w" "w_cfg w' = w_cfg w" "length (w_slots w') = length (w_slots w)"
    "w_fault w' = w_fault w"
  using assms by (simp_all add: wframe_def)

lemma wframe_upd [simp]:
  "wframe (put i c w) = wframe w" "wframe (w\<lparr>w_dirty := x\<rparr>) = wframe w" "wframe (put_dirty i c w) = wframe w"
  "wframe (w\<lparr>w_world := y\<rparr>) = wframe w" "wframe (w\<lparr>w_timers := z\<rparr>) = wframe w"
  "wframe (w\<lparr>w_dropped := d\<rparr>) = wframe w"
  by (simp_all add: wframe_def put_def put_dirty_eq)

lemma conn_inv_frame: "conn_inv nxt i c \<Longrightarrow> conn_wf nxt c' \<Longrightarrow> cframe c' = cframe c \<Longrightarrow> conn_inv nxt i c'"
  by (simp add: conn_inv_def cframeD(4,5) [of c' c])

lemma conn_inv_upd [simp]:
  "conn_inv nxt i (c\<lparr>c_dirty := x1\<rparr>) = conn_inv nxt i c"
  "conn_inv nxt i (c\<lparr>c_queued := x2\<rparr>) = conn_inv nxt i c"
  "conn_inv nxt i (c\<lparr>c_in_flight := x3\<rparr>) = conn_inv nxt i c"
  "conn_inv nxt i (c\<lparr>c_last_active := x4\<rparr>) = conn_inv nxt i c"
  "conn_inv nxt i (c\<lparr>c_deadline := x5\<rparr>) = conn_inv nxt i c"
  "conn_inv nxt i (c\<lparr>c_scheduled := x6\<rparr>) = conn_inv nxt i c"
  "conn_inv nxt i (c\<lparr>c_sock := x7\<rparr>) = conn_inv nxt i c"
  "conn_inv nxt i (c\<lparr>c_q := x8\<rparr>) = conn_inv nxt i c"
  "conn_inv nxt i (c\<lparr>c_socket_error := x9\<rparr>) = conn_inv nxt i c"
  "conn_inv nxt i (c\<lparr>c_attempt_deadline := y1\<rparr>) = conn_inv nxt i c"
  by (simp_all add: conn_inv_def conn_wf_def split: option.split)

lemma reqs_upd [simp]:
  "reqs P (c\<lparr>c_dirty := x1\<rparr>) = reqs P c" "reqs P (c\<lparr>c_in_flight := x3\<rparr>) = reqs P c"
  "reqs P (c\<lparr>c_last_active := x4\<rparr>) = reqs P c" "reqs P (c\<lparr>c_deadline := x5\<rparr>) = reqs P c"
  "reqs P (c\<lparr>c_scheduled := x6\<rparr>) = reqs P c" "reqs P (c\<lparr>c_sock := x7\<rparr>) = reqs P c"
  "reqs P (c\<lparr>c_q := x8\<rparr>) = reqs P c" "reqs P (c\<lparr>c_socket_error := x9\<rparr>) = reqs P c"
  "reqs P (c\<lparr>c_attempt_deadline := y1\<rparr>) = reqs P c" "reqs P (c\<lparr>c_state := y2\<rparr>) = reqs P c"
  "reqs P (c\<lparr>c_dial := y3\<rparr>) = reqs P c"
  by (simp_all add: reqs_def)

lemma try_send_winv:
  assumes fresh: "fresh_streams D nxt" and inv: "winv nxt rn lost w n (hand kind idx + E) R"
    and s: "slot w idx = Some c" and ts: "try_send D idx kind body w = (err, w')"
  shows "winv nxt rn lost w' n (if err = None then E else hand kind idx + E) R"
    and "wframe w' = wframe w"
    and "\<exists>c'. slot w' idx = Some c' \<and> cframe (c'\<lparr>c_dirty := False\<rparr>) = cframe (c\<lparr>c_dirty := False\<rparr>) \<and>
           c_queued c' = c_queued c"
proof -
  obtain c1 d where tc: "try_send_conn D (w_get_headers w) (w_post_headers w) c kind body = (err, c1, d)"
    using ts s by (auto simp: try_send_def split: prod.splits)
  define c2 where "c2 = (if d then c1\<lparr>c_dirty := True\<rparr> else c1)"
  define dl where "dl = (if d \<and> \<not> c_dirty c1 then idx # w_dirty w else w_dirty w)"
  have w': "w' = (put idx c2 w)\<lparr>w_dirty := dl\<rparr>"
    using ts s tc by (auto simp: try_send_def c2_def dl_def put_dirty_eq put_def)
  note ci = winv_conn [OF inv s]
  then have "conn_wf nxt c" by (simp add: conn_inv_def)
  note tr = try_send_conn_rel [OF fresh tc this]
  have ci2: "conn_inv nxt idx c2"
    using conn_inv_frame [OF ci tr(4,1)] by (simp add: c2_def)
  have st: "c_state c2 = c_state c" "c_dial c2 = c_dial c" and qd: "c_queued c2 = c_queued c"
    using cframeD(4,5) [OF tr(1)] tr(2) by (simp_all add: c2_def)
  have rq: "reqs is_echo c2 = reqs is_echo c + (if err = None \<and> is_echo kind then 1 else 0)"
    using tr(5) [of is_echo] by (simp add: c2_def)
  show "winv nxt rn lost w' n (if err = None then E else hand kind idx + E) R"
  proof (cases "err = None")
    case True
    then show ?thesis
      using winv_put_add [OF inv [unfolded hand_replicate] s ci2 st] rq by (simp add: w')
  next
    case False
    then show ?thesis
      using winv_put_same [OF inv s ci2 st] rq False by (auto simp: w')
  qed
  show "wframe w' = wframe w" by (simp add: w')
  show "\<exists>c'. slot w' idx = Some c' \<and> cframe (c'\<lparr>c_dirty := False\<rparr>) = cframe (c\<lparr>c_dirty := False\<rparr>) \<and>
      c_queued c' = c_queued c"
    using s qd tr(1) by (simp add: w' c2_def cframe_def)
qed

lemma winv_enqueue:
  assumes inv: "winv nxt rn lost w n (hand kind idx + E) R" and s: "slot w idx = Some c"
    and q: "mset q = add_mset (kind, body) (mset (c_queued c))"
  shows "winv nxt rn lost (put idx (c\<lparr>c_queued := q\<rparr>) w) n E R"
proof -
  have "size (filter_mset (\<lambda>x. is_echo (fst x)) (mset q)) =
      size (filter_mset (\<lambda>x. is_echo (fst x)) (mset (c_queued c))) + (if is_echo kind then 1 else 0)"
    by (simp add: q)
  then have "length (filter (\<lambda>x. is_echo (fst x)) q) =
      length (filter (\<lambda>x. is_echo (fst x)) (c_queued c)) + (if is_echo kind then 1 else 0)"
    by (simp flip: mset_filter)
  then show ?thesis
    using winv_conn [OF inv s]
    by (intro winv_put_add [OF inv [unfolded hand_replicate] s]) (simp_all add: reqs_def)
qed

lemma send_request_winv:
  assumes fresh: "fresh_streams D nxt" and inv: "winv nxt rn lost w n (hand kind idx + E) R"
    and s: "slot w idx = Some c" and sr: "send_request D idx kind body w = (err, w')"
  shows "winv nxt rn lost w' n (if err = None then E else hand kind idx + E) R"
    and "wframe w' = wframe w"
    and "\<exists>c'. slot w' idx = Some c' \<and> cframe (c'\<lparr>c_dirty := False\<rparr>) = cframe (c\<lparr>c_dirty := False\<rparr>)"
proof -
  have "winv nxt rn lost w' n (if err = None then E else hand kind idx + E) R \<and> wframe w' = wframe w \<and>
    (\<exists>c'. slot w' idx = Some c' \<and> cframe (c'\<lparr>c_dirty := False\<rparr>) = cframe (c\<lparr>c_dirty := False\<rparr>))"
  proof (cases "kind \<noteq> KRate \<and> c_queued c \<noteq> []")
    case True
    then have eq: "err = None" "w' = put idx (c\<lparr>c_queued := c_queued c @ [(kind, body)]\<rparr>) w"
      using sr s by (auto simp: send_request_def)
    then show ?thesis
      using winv_enqueue [OF inv s, of "c_queued c @ [(kind, body)]" body] s by (simp add: cframe_def)
  next
    case False
    obtain e1 w1 where ts: "try_send D idx kind body w = (e1, w1)" by fastforce
    note T = try_send_winv [OF fresh inv s ts]
    then obtain c1 where c1: "slot w1 idx = Some c1"
        "cframe (c1\<lparr>c_dirty := False\<rparr>) = cframe (c\<lparr>c_dirty := False\<rparr>)" "c_queued c1 = c_queued c"
      by blast
    show ?thesis
    proof (cases "\<exists>e. e1 = Some (Blocked e) \<and> kind \<noteq> KRate")
      case True
      then have "err = None" "w' = put idx (c1\<lparr>c_queued := c_queued c1 @ [(kind, body)]\<rparr>) w1"
        using sr s ts c1 False by (auto simp: send_request_def)
      moreover have "winv nxt rn lost w1 n (hand kind idx + E) R"
        using T(1) True by auto
      ultimately show ?thesis
        using winv_enqueue [OF _ c1(1), of nxt rn lost n kind E R "c_queued c1 @ [(kind, body)]" body] c1 T(2)
        by (simp add: cframe_def)
    next
      case F: False
      then have "w' = w1" "err = None \<longleftrightarrow> e1 = None"
        using sr s ts False
        by (auto simp: send_request_def split: option.splits send_error.splits if_splits)
      then show ?thesis using T c1 by auto
    qed
  qed
  then show "winv nxt rn lost w' n (if err = None then E else hand kind idx + E) R"
    and "wframe w' = wframe w"
    and "\<exists>c'. slot w' idx = Some c' \<and> cframe (c'\<lparr>c_dirty := False\<rparr>) = cframe (c\<lparr>c_dirty := False\<rparr>)"
    by blast+
qed

subsection \<open>Ends of dials and of requests\<close>

lemma phase_of_echo:
  assumes "winv nxt rn lost w n (add_mset i E) R"
  obtains p where "w_phase w = PEcho p" "ej_payloads (ep_job p) \<noteq> []"
proof -
  have "ph_echo (w_phase w) \<noteq> 0" "ph_total rn (w_phase w)"
    using winv_acct [OF assms] by (simp_all add: acct_inv_def)
  then show ?thesis using that by (cases "w_phase w") auto
qed

lemma winv_dial_ok:
  assumes fresh: "fresh_streams D nxt" and inv: "winv nxt rn lost w n E R"
  shows "winv nxt rn lost (dial_ok D idx w) n E R"
proof (cases "slot w idx")
  case None
  with inv show ?thesis by (simp add: dial_ok_def)
next
  case s: (Some c)
  show ?thesis
  proof (cases "c_dial c")
    case None
    with s inv show ?thesis by (simp add: dial_ok_def)
  next
    case d: (Some job)
    note dc = dialing_conn [OF inv s d]
    let ?c = "c\<lparr>c_dial := None, c_state := Ready, c_attempt_deadline := None\<rparr>"
    define w1 where "w1 = (put idx ?c w)\<lparr>w_ready := w_ready w + 1\<rparr>"
    have ci: "conn_inv nxt idx ?c"
      using winv_conn [OF inv s] by (simp add: conn_inv_def conn_wf_def split: option.splits)
    have inv1: "winv nxt rn lost w1 (n + hold_n job) (hold_E job + E) (hold_R job + R)"
      unfolding w1_def using ci dc(3) by (intro winv_take_dial [OF inv s d]) (simp_all add: is_ready_def)
    have s1: "slot w1 idx = Some ?c" using s by (simp add: w1_def)
    have "job_ok w job \<or> dj_purpose job = New"
      using dc(2) valid_slotI [OF inv s] by (auto simp: job_ok_def)
    then consider (new) "dj_purpose job = New"
      | (echo) st where "dj_purpose job = RedialEcho st"
      | (rate) "dj_purpose job = RedialRate" by (cases "dj_purpose job") auto
    then show ?thesis
    proof cases
      case new
      obtain t wd where gn: "get_now D (w1\<lparr>w_connected := w_connected w1 + 1\<rparr>) =
          (t, w1\<lparr>w_connected := w_connected w1 + 1, w_world := wd\<rparr>)"
        using get_now_eq by (metis surj_pair)
      let ?w = "w1\<lparr>w_connected := w_connected w1 + 1, w_world := wd\<rparr>"
      have inv2: "winv nxt rn lost ?w (Suc n) E R"
        using inv1 new by (simp add: hold_n_def hold_E_def hold_R_def)
      then have "ph_new (w_phase w) \<noteq> 0"
        using winv_acct [OF inv2] by (simp add: acct_inv_def w1_def)
      then obtain p where p: "w_phase w = PDial p" by (cases "w_phase w") auto
      have "dial_ok D idx w = (case w_phase ?w of PDial p \<Rightarrow>
          decr (dp_active p) (\<lambda>m. ?w\<lparr>w_phase := PDial (p\<lparr>dp_active := m,
            dp_lat := lat_ok (t - dj_start job) (dp_lat p)\<rparr>)\<rparr>) | _ \<Rightarrow> ?w)"
        using s d new p gn by (simp add: dial_ok_def w1_def)
      then show ?thesis
        using winv_new_end [OF inv2, of "lat_ok (t - dj_start job)"] lat_one(1) by simp
    next
      case (echo st)
      then have h: "hold_n job = 0" "hold_E job = {#idx#}" "hold_R job = {#}"
        using dc(2) by (simp_all add: hold_n_def hold_E_def hold_R_def slot_set_def)
      with inv1 have inv2: "winv nxt rn lost w1 n (add_mset idx E) R" by simp
      from phase_of_echo [OF this] obtain p where p: "w_phase w1 = PEcho p" "ej_payloads (ep_job p) \<noteq> []" .
      then obtain payload rest where pl: "ej_payloads (ep_job p) = payload # rest"
        by (cases "ej_payloads (ep_job p)") auto
      obtain err w2 where sr: "send_request D idx (KEcho st) payload w1 = (err, w2)" by fastforce
      have "winv nxt rn lost w2 n (if err = None then E else add_mset idx E) R"
        using send_request_winv(1) [OF fresh _ s1 sr, of rn lost n E R] inv2 by (cases err) simp_all
      then show ?thesis
        using s d echo p(1) pl sr
        by (auto simp: dial_ok_def Let_def w1_def split: option.splits intro: winv_echo_done)
    next
      case rate
      then have "hold_n job = 0" "hold_E job = {#}" "hold_R job = {#idx#}"
        using dc(2) by (simp_all add: hold_n_def hold_E_def hold_R_def slot_set_def)
      with inv1 have "winv nxt rn lost w1 n E (add_mset idx R)" by simp
      from winv_rate_end [OF this] show ?thesis
        using s d rate by (simp add: dial_ok_def Let_def w1_def split: phase.splits)
    qed
  qed
qed

lemma winv_response:
  assumes fresh: "fresh_streams D nxt" and inv: "winv nxt rn lost w n (hand kind idx + E) R"
  shows "winv nxt rn lost (response D idx kind result w) n E R"
proof (cases kind)
  case KDial
  with inv show ?thesis
    by (auto intro: winv_dial_ok [OF fresh] winv_dial_failed split: sum.splits)
next
  case (KEcho st)
  with inv show ?thesis by (simp add: winv_echo_done)
next
  case KRate
  let ?w = "case slot w idx of None \<Rightarrow> w | Some c \<Rightarrow> put idx (c\<lparr>c_in_flight := c_in_flight c - 1\<rparr>) w"
  have inv0: "winv nxt rn lost w n E R" using inv KRate by simp
  have inv1: "winv nxt rn lost ?w n E R"
  proof (cases "slot w idx")
    case (Some c)
    with winv_put_same [OF inv0 Some] winv_conn [OF inv0 Some] show ?thesis by simp
  qed (simp add: inv0)
  moreover have "winv nxt rn lost (?w\<lparr>w_phase := PRate p'\<rparr>) n E R" if "w_phase ?w = PRate p" for p p'
    using winv_acct [OF inv1] that by (intro winv_phase [OF inv1]) (auto simp: acct_inv_def)
  ultimately show ?thesis
    using KRate inv0 by (auto simp: Let_def split: phase.split)
qed

lemma winv_send_queued_loop:
  assumes fresh: "fresh_streams D nxt" and "winv nxt rn lost w n E R"
  shows "winv nxt rn lost (send_queued_loop D k idx w) n E R"
  using assms(2)
proof (induction k arbitrary: w)
  case 0
  then show ?case by simp
next
  case (Suc k)
  show ?case
  proof (cases "\<exists>c kind body rest. slot w idx = Some c \<and> \<not> q_is_closed (quic D) (c_q c) \<and>
      c_queued c = (kind, body) # rest")
    case False
    then show ?thesis using Suc.prems by (auto split: option.splits list.splits)
  next
    case True
    then obtain c kind body rest where s: "slot w idx = Some c" and o: "\<not> q_is_closed (quic D) (c_q c)"
      and q: "c_queued c = (kind, body) # rest" by blast
    let ?w = "put idx (c\<lparr>c_queued := rest\<rparr>) w"
    have inv1: "winv nxt rn lost ?w n (hand kind idx + E) R"
      unfolding hand_replicate using winv_conn [OF Suc.prems s] q
      by (intro winv_put_take [OF Suc.prems s]) (simp_all add: reqs_def)
    have s1: "slot ?w idx = Some (c\<lparr>c_queued := rest\<rparr>)" using s by simp
    obtain err w2 where ts: "try_send D idx kind body ?w = (err, w2)" by fastforce
    note T = try_send_winv [OF fresh inv1 s1 ts]
    then obtain c2 where c2: "slot w2 idx = Some c2" by blast
    have b: "idx < length (w_slots w)" using s by (rule slot_bound)
    show ?thesis
    proof (cases err)
      case None
      then show ?thesis using Suc.IH T(1) s o q ts b by simp
    next
      case (Some e)
      then have inv2: "winv nxt rn lost w2 n (hand kind idx + E) R" using T(1) by simp
      from winv_enqueue [OF inv2 c2, of "(kind, body) # c_queued c2" body]
        Suc.IH [OF winv_response [OF fresh inv2]] show ?thesis
        using Some s o q ts b c2 by (cases e) simp_all
    qed
  qed
qed

lemma winv_send_queued:
  "fresh_streams D nxt \<Longrightarrow> winv nxt rn lost w n E R \<Longrightarrow> winv nxt rn lost (send_queued D idx w) n E R"
  unfolding send_queued_def by (rule winv_send_queued_loop)

lemma winv_handle_event:
  assumes fresh: "fresh_streams D nxt"
    and inv: "winv nxt rn lost w n (replicate_mset (ev_reqs is_echo [ev]) idx + E) R"
  shows "winv nxt rn lost (handle_event D idx ev w) n E R"
proof (cases ev)
  case Established
  with inv have inv1: "winv nxt rn lost w n E R" by simp
  obtain err w1 where sr: "send_request D idx KDial [] w = (err, w1)" by fastforce
  have "winv nxt rn lost w1 n E R"
  proof (cases "slot w idx")
    case None
    with sr inv1 show ?thesis by (auto simp: send_request_def)
  next
    case (Some c)
    show ?thesis
      using send_request_winv(1) [OF fresh _ Some sr, of rn lost n E R] inv1 by (cases err) simp_all
  qed
  with Established sr show ?thesis
    by (auto split: option.splits intro: winv_dial_failed)
next
  case (Response kind result)
  with inv winv_response [OF fresh, of rn lost w n kind idx E R] show ?thesis
    by (simp add: hand_replicate)
next
  case (Closed reason)
  with inv have inv1: "winv nxt rn lost w n E R" by simp
  have "winv nxt rn lost ((put idx (c\<lparr>c_state := Broken\<rparr>) w)\<lparr>w_ready := fetch_sub (w_ready w)\<rparr>) n E R"
    if s: "slot w idx = Some c" "c_state c = Ready" for c
  proof -
    have "w_ready w = slot_sum is_ready (w_slots w)" using inv1 by (simp add: winv_def base_inv_def)
    then have pos: "0 < w_ready w"
      using slot_sum_ge [of "w_slots w" idx c is_ready] s by (simp add: slot_def is_ready_def)
    have "conn_inv nxt idx (c\<lparr>c_state := Broken\<rparr>)"
      using winv_conn [OF inv1 s(1)] s(2) by (simp add: conn_inv_def conn_wf_def split: option.splits)
    then have "winv nxt rn lost ((put idx (c\<lparr>c_state := Broken\<rparr>) w)\<lparr>w_ready := w_ready w - 1\<rparr>) n E R"
      using pos s by (intro winv_put_gen [OF inv1 s(1)])
        (simp_all add: is_ready_def jobs_def echo_load_def busy_conn_def)
    with pos show ?thesis by (simp add: fetch_sub_def)
  qed
  then show ?thesis
    using Closed inv1 winv_dial_failed [OF inv1] by (auto split: option.split cstate.split)
qed

lemma winv_events:
  assumes fresh: "fresh_streams D nxt"
    and "winv nxt rn lost w n (replicate_mset (ev_reqs is_echo evs) idx + E) R"
  shows "winv nxt rn lost (fold (handle_event D idx) evs w) n E R"
  using assms(2)
proof (induction evs arbitrary: w)
  case Nil
  then show ?case by simp
next
  case (Cons ev evs)
  have "replicate_mset (ev_reqs is_echo (ev # evs)) idx + E =
      replicate_mset (ev_reqs is_echo [ev]) idx + (replicate_mset (ev_reqs is_echo evs) idx + E)"
    by (simp add: multiset_eq_iff)
  then have "winv nxt rn lost w n (replicate_mset (ev_reqs is_echo [ev]) idx +
      (replicate_mset (ev_reqs is_echo evs) idx + E)) R"
    using Cons.prems by metis
  from Cons.IH [OF winv_handle_event [OF fresh this]] show ?case by simp
qed

lemma winv_process:
  assumes fresh: "fresh_streams D nxt" and inv: "winv nxt rn lost w n E R"
  shows "winv nxt rn lost (process D idx w) n E R"
proof (cases "slot w idx")
  case None
  with inv show ?thesis by (simp add: process_def)
next
  case s: (Some c)
  obtain evs c' ok where pc: "process_conn D (cfg_check (w_cfg w)) c = (evs, c', ok)"
    by (metis prod_cases3)
  note ci = winv_conn [OF inv s]
  from process_conn_rel [OF fresh pc] ci have rel: "cframe c' = cframe c" "conn_wf nxt c'"
      "reqs is_echo c' + ev_reqs is_echo evs = reqs is_echo c"
    by (auto simp: proc_rel_def conn_inv_def)
  have "winv nxt rn lost (put idx (c'\<lparr>c_dirty := True\<rparr>) w) n (replicate_mset (ev_reqs is_echo evs) idx + E) R"
    using conn_inv_frame [OF ci rel(2,1)] rel(3) cframeD(4,5) [OF rel(1)]
    by (intro winv_put_take [OF inv s]) simp_all
  then have "winv nxt rn lost (put_dirty idx c' w) n (replicate_mset (ev_reqs is_echo evs) idx + E) R"
    by (simp add: put_dirty_eq)
  then show ?thesis
    using s pc by (simp add: process_def Let_def winv_send_queued [OF fresh] winv_events [OF fresh])
qed

end
