(* ===== verification/Engine_Steps.thy ===== *)
theory Engine_Steps
  imports Engine_Inv
begin

text \<open>
  The invariant of a worker through its datagrams, dials, timers and benchmarks,
  up to one iteration of \<^verbatim>\<open>Worker::run\<close> and the states a worker can reach.
\<close>

subsection \<open>Datagrams\<close>

text \<open>The loops on the socket change the transport of a connection only.\<close>

definition io_core where
  "io_core c = (c_h3 c, c_local c, c_peer c, c_state c, c_dial c, c_attempt_deadline c, c_streams c,
     c_pending c, c_queued c, c_deadline c, c_scheduled c, c_last_active c, c_dirty c, c_in_flight c, c_goaway c)"

lemma io_core_upd [simp]:
  "io_core (c\<lparr>c_q := q\<rparr>) = io_core c" "io_core (c\<lparr>c_sock := s\<rparr>) = io_core c"
  "io_core (c\<lparr>c_socket_error := e\<rparr>) = io_core c"
  by (simp_all add: io_core_def)

lemma send_loop_core: "send_loop D n c sent = (c', sent', dropped, ok) \<Longrightarrow> io_core c' = io_core c"
  by (induction n arbitrary: c sent)
    (auto split: prod.splits option.splits send_packet.splits if_splits)

lemma recv_datagrams_core: "recv_datagrams D n c got = (c', got', ok) \<Longrightarrow> io_core c' = io_core c"
  by (induction n arbitrary: c got) (auto split: prod.splits sum.splits if_splits)

lemma winv_put_core:
  assumes inv: "winv nxt rn lost w n E R" and s: "slot w idx = Some c"
    and "io_core c' = io_core (c\<lparr>c_dirty := d, c_last_active := t, c_deadline := x, c_scheduled := y\<rparr>)"
  shows "winv nxt rn lost (put idx c' w) n E R"
  using winv_conn [OF inv s] assms(3)
  by (intro winv_put_same [OF inv s]) (simp_all add: io_core_def conn_inv_def conn_wf_def reqs_def split: option.splits)

lemma winv_schedule:
  assumes inv: "winv nxt rn lost w n E R"
  shows "winv nxt rn lost (schedule D idx w) n E R"
proof (cases "slot w idx")
  case None
  with inv show ?thesis by (simp add: schedule_def)
next
  case (Some c)
  have "winv nxt rn lost (put idx (c\<lparr>c_deadline := d\<rparr>) w) n E R"
    "winv nxt rn lost (put idx (c\<lparr>c_deadline := d, c_scheduled := s\<rparr>) w) n E R" for d s
    using winv_conn [OF inv Some] by (simp_all add: winv_put_same [OF inv Some])
  with Some inv show ?thesis
    by (auto simp: schedule_def Let_def split: option.split)
qed

lemma winv_flush:
  assumes fresh: "fresh_streams D nxt" and inv: "winv nxt rn lost w n E R"
  shows "winv nxt rn lost (flush D idx w) n E R"
proof (cases "slot w idx")
  case None
  with inv show ?thesis by (simp add: flush_def)
next
  case s: (Some c)
  obtain c1 sent dropped ok where sl: "send_loop D (fuel D) (c\<lparr>c_dirty := False\<rparr>) False = (c1, sent, dropped, ok)"
    by (metis prod_cases4)
  let ?w = "if ok then w else raise_fault OutOfFuel w"
  obtain t wd where gn: "get_now D ?w = (t, ?w\<lparr>w_world := wd\<rparr>)"
    using get_now_eq by (metis surj_pair)
  let ?c = "if sent then c1\<lparr>c_last_active := t\<rparr> else c1"
  have inv1: "winv nxt rn lost (?w\<lparr>w_world := wd\<rparr>) n E R" and s1: "slot (?w\<lparr>w_world := wd\<rparr>) idx = Some c"
    using inv s by simp_all
  have "io_core ?c = io_core (c\<lparr>c_dirty := False, c_last_active := if sent then t else c_last_active c,
      c_deadline := c_deadline c, c_scheduled := c_scheduled c\<rparr>)"
    using send_loop_core [OF sl] by (simp add: io_core_def)
  from winv_put_core [OF inv1 s1 this]
  have "winv nxt rn lost (schedule D idx ((put idx ?c (?w\<lparr>w_world := wd\<rparr>))\<lparr>w_dropped := x\<rparr>)) n E R" for x
    by (intro winv_schedule) simp
  then show ?thesis
    using s sl gn by (simp add: flush_def Let_def winv_process [OF fresh])
qed

lemma winv_flush_dirty:
  assumes fresh: "fresh_streams D nxt" and "winv nxt rn lost w n E R"
  shows "winv nxt rn lost (flush_dirty D k w) n E R"
  using assms(2)
proof (induction k arbitrary: w)
  case 0
  then show ?case by (subst flush_dirty.simps) (simp split: list.split)
next
  case (Suc k)
  then show ?case
    by (subst flush_dirty.simps)
      (auto simp: Let_def intro!: Suc.IH winv_flush [OF fresh] split: list.split option.split)
qed

lemma winv_on_readable:
  assumes fresh: "fresh_streams D nxt" and inv: "winv nxt rn lost w n E R"
  shows "winv nxt rn lost (on_readable D idx w) n E R"
proof (cases "slot w idx")
  case None
  with inv show ?thesis by (simp add: on_readable_def)
next
  case s: (Some c)
  obtain c1 got ok where rd: "recv_datagrams D (fuel D) c False = (c1, got, ok)"
    by (metis prod_cases3)
  let ?w = "if ok then w else raise_fault OutOfFuel w"
  obtain t wd where gn: "get_now D ?w = (t, ?w\<lparr>w_world := wd\<rparr>)"
    using get_now_eq by (metis surj_pair)
  define c2 where "c2 = (if got then c1\<lparr>c_last_active := t\<rparr> else c1)"
  define w2 where "w2 = (if got then ?w\<lparr>w_world := wd\<rparr> else ?w)"
  have inv1: "winv nxt rn lost w2 n E R" and s1: "slot w2 idx = Some c"
    using inv s by (simp_all add: w2_def)
  have "io_core c2 = io_core (c\<lparr>c_dirty := c_dirty c, c_last_active := if got then t else c_last_active c,
      c_deadline := c_deadline c, c_scheduled := c_scheduled c\<rparr>)"
    using recv_datagrams_core [OF rd] by (simp add: io_core_def c2_def)
  from winv_process [OF fresh winv_put_core [OF inv1 s1 this]]
  have "winv nxt rn lost (process D idx (put idx c2 w2)) n E R" .
  moreover have "on_readable D idx w = process D idx (put idx c2 w2)"
    using s rd gn by (cases got) (simp_all add: on_readable_def Let_def c2_def w2_def)
  ultimately show ?thesis by simp
qed

subsection \<open>Dials\<close>

lemma winv_world: "winv nxt rn lost w n E R \<Longrightarrow> winv nxt rn lost (w\<lparr>w_world := wd, w_addr_counter := a\<rparr>) n E R"
  by simp

lemma winv_job_frame [simp]:
  "winv_job nxt rn lost (w\<lparr>w_world := x1\<rparr>) n E R j = winv_job nxt rn lost w n E R j"
  "winv_job nxt rn lost (w\<lparr>w_addr_counter := x2\<rparr>) n E R j = winv_job nxt rn lost w n E R j"
  by (simp_all add: winv_job_def job_ok_def valid_slot_def)

lemma open_conn_world: "open_conn D peer w = (r, w') \<Longrightarrow> \<exists>wd. w' = w\<lparr>w_world := wd\<rparr>"
  by (auto simp: open_conn_def Let_def split: prod.splits sum.splits option.splits)

text \<open>A slot of the table that is not in use is in nobody's hands.\<close>

lemma invalid_unused:
  assumes inv: "winv nxt rn lost w n E R" and "\<not> valid_slot w i"
  shows "retries_at i (w_retries w) = 0" "i \<notin> set (ph_idle (w_phase w))" "i \<notin># E" "i \<notin># R"
proof -
  have "job_ok w (snd r)" if "r \<in> set (w_retries w)" for r
    using inv that by (simp add: winv_def base_inv_def)
  with assms(2) show "retries_at i (w_retries w) = 0"
    by (fastforce simp: retries_at_def filter_empty_conv job_ok_def split: if_splits)
  show "i \<notin> set (ph_idle (w_phase w))" "i \<notin># E" "i \<notin># R"
    using inv assms(2) by (auto simp: winv_def excl_inv_def)
qed

lemma winv_alloc:
  assumes inv: "winv nxt rn lost w n E R" and al: "alloc_slot w = (i, w')"
  shows "winv nxt rn lost w' n E R" and "slot w' i = None" and "valid_slot w' i"
    and "\<not> valid_slot w i" and "w_retries w' = w_retries w" and "w_phase w' = w_phase w"
    and "w_ready w' = w_ready w" and "w_world w' = w_world w"
proof -
  obtain sl fr where ta: "table_alloc (w_slots w) (w_free w) = (i, sl, fr)"
    and w': "w' = w\<lparr>w_slots := sl, w_free := fr\<rparr>"
    using al by (auto simp: alloc_slot_def split: prod.splits)
  have tok: "table_ok (w_slots w) (w_free w)" using inv by (simp add: winv_def base_inv_def)
  note A = conn_table.alloc_ok [OF tok ta] and F = conn_table.alloc_frame [OF tok ta]
  show "slot w' i = None" "valid_slot w' i" using A by (simp_all add: slot_def valid_slot_def w')
  show nv: "\<not> valid_slot w i"
    using ta by (auto simp: valid_slot_def table_alloc_def split: list.splits)
  show "w_retries w' = w_retries w" "w_phase w' = w_phase w" "w_ready w' = w_ready w"
    "w_world w' = w_world w" by (simp_all add: w')
  have sum: "slot_sum f sl = slot_sum f (w_slots w)" for f
    using ta by (auto simp: table_alloc_def split: list.splits)
  have len: "length (w_slots w) \<le> length sl" and sub: "set fr \<subseteq> set (w_free w)"
    using ta by (auto simp: table_alloc_def split: list.splits)
  then have vs: "valid_slot w j \<Longrightarrow> valid_slot w' j" for j by (auto simp: valid_slot_def w')
  have "base_inv nxt w'"
  proof -
    have "job_ok w j \<Longrightarrow> job_ok w' j" for j using vs by (auto simp: job_ok_def split: if_splits)
    then show ?thesis
      using inv A F sum by (auto simp: winv_def base_inv_def w' slots_all_def)
  qed
  moreover have "acct_inv rn lost w' n E R"
    using inv sum by (simp add: winv_def acct_inv_def new_work_def echo_work_def rate_work_def w')
  moreover have "busy w' j = busy w j" for j using F by (simp add: busy_def slot_def w')
  then have "excl_inv w' E R"
    using inv vs by (auto simp: winv_def excl_inv_def) (simp_all add: w')
  ultimately show "winv nxt rn lost w' n E R" by (simp add: winv_def)
qed

text \<open>The slot a dial gets is empty, in the table and in nobody else's hands.\<close>

lemma dial_slot_winv:
  assumes inv: "winv_job nxt rn lost w n E R job" and ds: "dial_slot D job w = (i, w')"
  shows "winv_job nxt rn lost w' n E R job" and "slot w' i = None" and "valid_slot w' i"
    and "dj_slot job = None \<or> dj_slot job = Some i"
    and "dj_slot job = None \<Longrightarrow> retries_at i (w_retries w') = 0 \<and> i \<notin> set (ph_idle (w_phase w')) \<and>
           i \<notin># E \<and> i \<notin># R"
proof -
  note ok = winv_job_ok [OF inv]
  note W = inv [unfolded winv_job_def, THEN conjunct1]
  have "winv_job nxt rn lost w' n E R job \<and> slot w' i = None \<and> valid_slot w' i \<and>
    (dj_slot job = None \<or> dj_slot job = Some i) \<and>
    (dj_slot job = None \<longrightarrow> retries_at i (w_retries w') = 0 \<and> i \<notin> set (ph_idle (w_phase w')) \<and>
       i \<notin># E \<and> i \<notin># R)"
  proof (cases "dj_slot job")
    case None
    then have al: "alloc_slot w = (i, w')" using ds by (simp add: dial_slot_def)
    note A = winv_alloc [OF W al] and U = invalid_unused [OF W winv_alloc(4) [OF W al]]
    have "job_ok w' job" using ok None by (auto simp: job_ok_def split: if_splits)
    then show ?thesis using None A U by (simp add: winv_job_def)
  next
    case (Some k)
    then have k: "k = i" using ds by (simp add: dial_slot_def split: if_splits option.splits)
    then have v: "valid_slot w i" and mem: "i \<in># hold_E job + hold_R job"
      using ok Some by (auto elim!: hold_cases)
    show ?thesis
    proof (cases "slot w i")
      case None
      then have "w' = w" using ds Some k v by (auto simp: dial_slot_def valid_slot_def)
      then show ?thesis using None Some k v inv by simp
    next
      case s: (Some c)
      have "0 < count (hold_E job) i + count (hold_R job) i"
        using mem by (simp only: count_union [symmetric] count_greater_zero_iff)
      then have "busy w i = 0"
        using winv_busy [OF W, of i] unfolding count_union by linarith
      then have b: "busy_conn c = 0" using s by (simp add: busy_def)
      define r where "r = (if c_state c = Ready then w_ready w - 1 else w_ready w)"
      have "w_ready w = slot_sum is_ready (w_slots w)" using W by (simp add: winv_def base_inv_def)
      then have pos: "is_ready c \<le> w_ready w"
        using slot_sum_ge [of "w_slots w" i c is_ready] s by (simp add: slot_def)
      have "w' = (w\<lparr>w_slots := (w_slots w)[i := None], w_ready := r\<rparr>)
          \<lparr>w_world := os_deregister (os D) (c_sock c) (w_world w)\<rparr>"
        using ds Some k s v pos
        by (auto simp: dial_slot_def valid_slot_def fetch_sub_def r_def is_ready_def split: if_splits)
      moreover have "winv nxt rn lost (w\<lparr>w_slots := (w_slots w)[i := None], w_ready := r\<rparr>)
          (n + hold_n job) (hold_E job + E) (hold_R job + R)"
        using pos by (intro winv_clear [OF W s b]) (auto simp: r_def is_ready_def)
      moreover have "job_ok (w\<lparr>w_slots := (w_slots w)[i := None], w_ready := r\<rparr>) job"
        using ok job_ok_cong [of "w\<lparr>w_slots := (w_slots w)[i := None], w_ready := r\<rparr>" w] by simp
      ultimately show ?thesis
        using Some k v by (simp add: winv_job_def slot_def valid_slot_def)
    qed
  qed
  then show "winv_job nxt rn lost w' n E R job" and "slot w' i = None" and "valid_slot w' i"
    and "dj_slot job = None \<or> dj_slot job = Some i"
    and "dj_slot job = None \<Longrightarrow> retries_at i (w_retries w') = 0 \<and> i \<notin> set (ph_idle (w_phase w')) \<and>
           i \<notin># E \<and> i \<notin># R"
    by blast+
qed

lemma winv_fill:
  assumes inv: "winv_job nxt rn lost w n E R job" and s: "slot w i = None" and v: "valid_slot w i"
    and js: "dj_slot job = None \<or> dj_slot job = Some i"
    and un: "dj_slot job = None \<Longrightarrow> retries_at i (w_retries w) = 0 \<and> i \<notin> set (ph_idle (w_phase w)) \<and>
           i \<notin># E \<and> i \<notin># R"
    and c: "c = new_conn sk q loc peer (job\<lparr>dj_slot := Some i\<rparr>) dl now"
  shows "winv nxt rn lost (w\<lparr>w_slots := table_fill i c (w_slots w)\<rparr>) n E R"
proof -
  note W = inv [unfolded winv_job_def, THEN conjunct1]
  have q: "is_ready c = 0" "echo_load c = jobs p_echo c" "busy_conn c = 1" "conn_inv nxt i c" "c_dial c = Some (job\<lparr>dj_slot := Some i\<rparr>)"
    by (simp_all add: c new_conn_def is_ready_def echo_load_def busy_conn_def reqs_def conn_inv_def conn_wf_def)
  have E: "valid_slot w j" if "j \<in># E \<or> j \<in># R" for j
    using W that by (auto simp: winv_def excl_inv_def)
  have "winv nxt rn lost (w\<lparr>w_slots := (w_slots w)[i := Some c], w_ready := w_ready w\<rparr>) n E R"
  proof (rule winv_slot_any [OF W v])
    show "n + slot_val (jobs p_new) (Some c) = n + hold_n job + slot_val (jobs p_new) (slot w i)"
      using q s by (simp add: jobs_def hold_n_def)
    have "size (hold_E job) = jobs p_echo c \<and> size (hold_R job) = jobs p_rate c"
      using winv_job_ok [OF inv]
    proof (cases rule: hold_cases)
    qed (simp_all add: q(5) jobs_def)
    then show "size E + slot_val echo_load (Some c) = size (hold_E job + E) + slot_val echo_load (slot w i)"
      and "size R + slot_val (jobs p_rate) (Some c) = size (hold_R job + R) + slot_val (jobs p_rate) (slot w i)"
      using q s by simp_all
    fix j
    have b: "busy w j + count_list (ph_idle (w_phase w)) j + count (hold_E job + E) j + count (hold_R job + R) j \<le> 1"
      using winv_busy [OF W] .
    show "slot_val busy_conn (if j = i then Some c else slot w j) + retries_at j (w_retries w) +
        count_list (ph_idle (w_phase w)) j + count E j + count R j \<le> 1"
    proof (cases "j = i")
      case False
      then show ?thesis using b by (simp add: busy_def)
    next
      case True
      show ?thesis
      proof (cases "dj_slot job")
        case None
        then show ?thesis using un True q(3) by (simp add: count_list_0_iff not_in_iff)
      next
        case (Some k)
        then have "count (hold_E job) i + count (hold_R job) i = 1"
          using js winv_job_ok [OF inv] by (auto elim!: hold_cases)
        then show ?thesis using b True q(3) s by (simp add: busy_def)
      qed
    qed
  qed (use q s E in auto)
  then show ?thesis by (simp add: table_fill_def)
qed

lemma winv_addrs: "winv_job nxt rn lost w n E R job \<Longrightarrow> cfg_addrs (w_cfg w) \<noteq> []"
  by (simp add: winv_job_def winv_def base_inv_def)

lemma try_dial_winv:
  assumes fresh: "fresh_streams D nxt" and inv: "winv_job nxt rn lost w n E R job"
    and td: "try_dial D job w = (err, w')"
  shows "if err = None then winv nxt rn lost w' n E R else winv_job nxt rn lost w' n E R job"
proof -
  define peer where "peer = cfg_addrs (w_cfg w) ! (w_addr_numbers w (w_addr_counter w) mod length (cfg_addrs (w_cfg w)))"
  define w1 where "w1 = w\<lparr>w_addr_counter := w_addr_counter w + 1\<rparr>"
  obtain r w2 where oc: "open_conn D peer w1 = (r, w2)" by fastforce
  from open_conn_world [OF this] have inv2: "winv_job nxt rn lost w2 n E R job"
    using inv by (auto simp: w1_def)
  note td' = td [unfolded try_dial_def Let_def, folded peer_def w1_def, unfolded oc]
  show ?thesis
  proof (cases r)
    case (Inl e)
    then show ?thesis using td' inv2 winv_addrs [OF inv] by auto
  next
    case (Inr a)
    then obtain sk loc q where r: "r = Inr (sk, loc, q)" by (cases a) auto
    obtain idx w3 where ds: "dial_slot D job w2 = (idx, w3)" by fastforce
    note S = dial_slot_winv [OF inv2 ds]
    obtain rg wd where rg: "os_register (os D) sk idx (w_world w3) = (rg, wd)" by fastforce
    let ?w = "w3\<lparr>w_world := wd\<rparr>"
    show ?thesis
    proof (cases rg)
      case (Some e)
      then show ?thesis using td' r ds rg S(1) winv_addrs [OF inv] by auto
    next
      case None
      obtain t wd' where gn: "get_now D ?w = (t, ?w\<lparr>w_world := wd'\<rparr>)"
        using get_now_eq by (metis surj_pair)
      let ?w5 = "?w\<lparr>w_world := wd'\<rparr>"
      let ?c = "new_conn sk q loc peer (job\<lparr>dj_slot := Some idx\<rparr>) (t + cfg_dial_timeout (w_cfg ?w5)) t"
      have w': "err = None" "w' = flush D idx (?w5\<lparr>w_slots := table_fill idx ?c (w_slots ?w5)\<rparr>)"
        using td' r ds rg None gn winv_addrs [OF inv] by auto
      have "winv nxt rn lost (?w5\<lparr>w_slots := table_fill idx ?c (w_slots ?w5)\<rparr>) n E R"
        using S by (intro winv_fill [where i = idx and job = job]) (simp_all add: valid_slot_def slot_def)
      then show ?thesis unfolding w' by (simp add: winv_flush [OF fresh])
    qed
  qed
qed

lemma winv_dial:
  assumes fresh: "fresh_streams D nxt" and inv: "winv_job nxt rn lost w n E R job"
  shows "winv nxt rn lost (dial D job w) n E R"
proof -
  obtain err w' where td: "try_dial D job w = (err, w')" by fastforce
  with try_dial_winv [OF fresh inv td] winv_dial_failed_job show ?thesis
    by (cases err) (auto simp: dial_def)
qed

lemma winv_fire_retries:
  assumes fresh: "fresh_streams D nxt" and "winv nxt rn lost w n E R"
  shows "winv nxt rn lost (fire_retries D k now w) n E R"
  using assms(2)
proof (induction k arbitrary: w)
  case 0
  then show ?case by (subst fire_retries.simps) (auto split: list.split)
next
  case (Suc k)
  have "winv nxt rn lost (dial D job (w\<lparr>w_retries := rest\<rparr>)) n E R" if "w_retries w = (t, job) # rest" for t job rest
    using winv_dial [OF fresh winv_retry_pop [OF Suc.prems that]] .
  then show ?case
    using Suc by (subst fire_retries.simps) (auto split: list.split)
qed

subsection \<open>Timers and keep-alive\<close>

lemma winv_fire_timer:
  assumes fresh: "fresh_streams D nxt" and inv: "winv nxt rn lost w n E R"
  shows "winv nxt rn lost (fire_timer D now t idx w) n E R"
proof (cases "slot w idx")
  case None
  with inv show ?thesis by (simp add: fire_timer_def)
next
  case s: (Some c)
  let ?c = "c\<lparr>c_scheduled := None\<rparr>"
  have inv1: "winv nxt rn lost (put idx ?c w) n E R"
    using winv_conn [OF inv s] by (simp add: winv_put_same [OF inv s])
  have s1: "slot (put idx ?c w) idx = Some ?c" using s by simp
  have "winv nxt rn lost (put_dirty idx (?c\<lparr>c_q := q\<rparr>) (put idx ?c w)) n E R" for q
    using winv_conn [OF inv1 s1] by (simp add: put_dirty_eq winv_put_same [OF inv1 s1])
  then show ?thesis
    using s inv inv1 winv_dial_failed [OF inv1] winv_schedule [OF inv1]
    by (simp add: fire_timer_def Let_def winv_process [OF fresh])
qed

lemma winv_fire_timers:
  assumes fresh: "fresh_streams D nxt" and "winv nxt rn lost w n E R"
  shows "winv nxt rn lost (fire_timers D k now w) n E R"
  using assms(2)
proof (induction k arbitrary: w)
  case 0
  then show ?case
    by (subst fire_timers.simps) (auto split: option.split reverse.split)
next
  case (Suc k)
  then show ?case
    by (subst fire_timers.simps)
      (auto split: option.split reverse.split intro!: Suc.IH winv_fire_timer [OF fresh])
qed

lemma winv_keepalive_slot:
  assumes inv: "winv nxt rn lost w n E R"
  shows "winv nxt rn lost (keepalive_slot D now idx w) n E R"
proof (cases "slot w idx")
  case None
  with inv show ?thesis by (simp add: keepalive_slot_def)
next
  case (Some c)
  have "winv nxt rn lost (put idx (c\<lparr>c_q := q, c_dirty := True\<rparr>) w) n E R" for q
    using winv_conn [OF inv Some] by (simp add: winv_put_same [OF inv Some])
  with Some inv show ?thesis
    by (simp add: keepalive_slot_def put_dirty_eq)
qed

lemma winv_fold:
  assumes "winv nxt rn lost w n E R"
    and "\<And>x w. winv nxt rn lost w n E R \<Longrightarrow> winv nxt rn lost (f x w) n E R"
  shows "winv nxt rn lost (fold f xs w) n E R"
  using assms(1) by (induction xs arbitrary: w) (simp_all add: assms(2))

lemma winv_keepalive: "winv nxt rn lost w n E R \<Longrightarrow> winv nxt rn lost (keepalive D now w) n E R"
  by (simp add: keepalive_def winv_fold winv_keepalive_slot)

lemma winv_close_slot:
  assumes fresh: "fresh_streams D nxt" and inv: "winv nxt rn lost w n E R"
  shows "winv nxt rn lost (close_slot D idx w) n E R"
proof (cases "slot w idx")
  case None
  with inv show ?thesis by (simp add: close_slot_def)
next
  case (Some c)
  have "winv nxt rn lost (put idx (c\<lparr>c_q := q\<rparr>) w) n E R" for q
    using winv_conn [OF inv Some] by (simp add: winv_put_same [OF inv Some])
  with Some inv show ?thesis by (simp add: close_slot_def winv_flush [OF fresh])
qed

lemma winv_close_all:
  "fresh_streams D nxt \<Longrightarrow> winv nxt rn lost w n E R \<Longrightarrow> winv nxt rn lost (close_all D w) n E R"
  by (simp add: close_all_def winv_fold winv_close_slot)

subsection \<open>The benchmarks\<close>

lemma winv_tot: "winv nxt rn lost w n E R \<Longrightarrow> w_phase w = ph \<Longrightarrow> ph_total rn ph"
  by (auto simp: winv_def acct_inv_def)

text \<open>The end of a benchmark: nothing is under way, and its result is the last.\<close>

definition run_done :: "outcome \<Rightarrow> run \<Rightarrow> run" where
  "run_done o1 rn = rn\<lparr>run_results := run_results rn @ [o1], run_kind := TIdle\<rparr>"

lemma winv_finish:
  assumes inv: "winv nxt rn lost w 0 {#} {#}"
    and "ph_new (w_phase w) = 0" "ph_echo (w_phase w) = 0" "\<nexists>j r. w_phase w = PRatePrep j r"
  shows "winv nxt (run_done o1 rn) lost (finish o1 w) 0 {#} {#}"
proof -
  have "ph_rate lost (rate_work w) Idle"
    using inv assms(4) by (cases "w_phase w") (auto simp: winv_def acct_inv_def)
  then have "acct_inv (run_done o1 rn) lost (finish o1 w) 0 {#} {#}"
    using inv assms(2,3)
    by (simp add: winv_def acct_inv_def finish_def run_done_def new_work_def echo_work_def rate_work_def)
  moreover have "base_inv nxt (finish o1 w)"
    using inv job_ok_cong [of "finish o1 w" w] by (simp add: winv_def base_inv_def finish_def)
  moreover have "busy (finish o1 w) i = busy w i" for i by (simp add: busy_def finish_def slot_def)
  then have "excl_inv (finish o1 w) {#} {#}"
    using add_leD1 [OF winv_busy [OF inv, simplified]] by (simp add: excl_inv_def) (simp add: finish_def)
  ultimately show ?thesis by (simp add: winv_def)
qed

lemma take_dials_spec:
  "take_dials r a c = (r', a', s) \<Longrightarrow> r' + s = r \<and> a' = a + s \<and> (a \<le> c \<longrightarrow> a' \<le> c) \<and> (r' = 0 \<or> c \<le> a')"
proof (induction r a c arbitrary: r' a' s rule: take_dials.induct)
  case (1 r a c)
  show ?case
  proof (cases "0 < r \<and> a < c")
    case True
    obtain r1 a1 s1 where t: "take_dials (r - 1) (a + 1) c = (r1, a1, s1)" by (metis prod_cases3)
    then have "r' = r1" "a' = a1" "s = s1 + 1"
      using 1(2) True by (simp_all add: take_dials.simps [of r a c])
    with 1(1) [OF True t] True show ?thesis by auto
  next
    case False
    with 1(2) show ?thesis by (auto simp: take_dials.simps [of r a c])
  qed
qed

lemma winv_dials:
  assumes fresh: "fresh_streams D nxt" and "winv nxt rn lost w (n + k) E R"
    and job: "dj_purpose job = New" "dj_slot job = None"
  shows "winv nxt rn lost ((dial D job ^^ k) w) n E R"
  using assms(2)
proof (induction k arbitrary: w)
  case 0
  then show ?case by simp
next
  case (Suc k)
  then have "winv_job nxt rn lost w (n + k) E R job"
    using job by (simp add: winv_job_def hold_n_def hold_E_def hold_R_def job_ok_def)
  from Suc.IH [OF winv_dial [OF fresh this]] show ?case
    by (simp add: funpow_swap1)
qed

lemma winv_drive_dial:
  assumes fresh: "fresh_streams D nxt" and inv: "winv nxt rn lost w 0 {#} {#}" and p: "w_phase w = PDial p"
  shows "dp_remaining p = 0 \<and> dp_active p = 0 \<Longrightarrow>
      drive_dial D now p w = finish (ODial (dp_lat p)) w \<and>
      winv nxt (run_done (ODial (dp_lat p)) rn) lost (drive_dial D now p w) 0 {#} {#}"
    and "\<not> (dp_remaining p = 0 \<and> dp_active p = 0) \<Longrightarrow> winv nxt rn lost (drive_dial D now p w) 0 {#} {#}"
proof -
  show "drive_dial D now p w = finish (ODial (dp_lat p)) w \<and>
      winv nxt (run_done (ODial (dp_lat p)) rn) lost (drive_dial D now p w) 0 {#} {#}"
    if "dp_remaining p = 0 \<and> dp_active p = 0"
    using that p winv_finish [OF inv] by (simp add: drive_dial_def)
  show "winv nxt rn lost (drive_dial D now p w) 0 {#} {#}" if c: "\<not> (dp_remaining p = 0 \<and> dp_active p = 0)"
  proof -
    obtain r a s where t: "take_dials (dp_remaining p) (dp_active p) (dp_concurrency p) = (r, a, s)"
      by (metis prod_cases3)
    note T = take_dials_spec [OF t]
    have "ph_total rn (PDial p)" using winv_tot [OF inv p] .
    then have "ph_total rn (PDial (p\<lparr>dp_remaining := r, dp_active := a\<rparr>))"
      using T by auto
    then have "winv nxt rn lost (w\<lparr>w_phase := PDial (p\<lparr>dp_remaining := r, dp_active := a\<rparr>)\<rparr>) (0 + s) {#} {#}"
      using winv_acct [OF inv] p T by (intro winv_phase [OF inv]) (auto simp: acct_inv_def)
    from winv_dials [OF fresh this] show ?thesis
      using c t by (auto simp: drive_dial_def)
  qed
qed

text \<open>
  One round of \<^verbatim>\<open>drive_echo\<close> keeps the invariant or ends the benchmark. It panics on an
  idle connection whose slot is empty, which only a failed registration leaves.
\<close>

lemma take_echo_world: "take_echo D k lmt w = (r, lmt', w') \<Longrightarrow> \<exists>wd. w' = w\<lparr>w_world := wd\<rparr>"
proof (cases lmt)
  case None
  moreover have "\<exists>wd. w = w\<lparr>w_world := wd\<rparr>" by (rule exI [of _ "w_world w"]) simp
  ultimately show "take_echo D k lmt w = (r, lmt', w') \<Longrightarrow> ?thesis" by (auto simp: take_echo_def)
next
  case (Some l)
  then show "take_echo D k lmt w = (r, lmt', w') \<Longrightarrow> ?thesis"
    by (auto simp: take_echo_def get_now_def split: prod.splits)
qed

text \<open>The numbers below \<^verbatim>\<open>times\<close> handed out until one was not, if the job used any connection.\<close>

definition echo_total :: "run \<Rightarrow> latencies \<Rightarrow> bool" where
  "echo_total rn l \<longleftrightarrow>
     (\<exists>k. (if run_conc rn = 0 then k = run_issued rn else \<exists>j < k. run_times rn \<le> run_numbers rn j) \<and>
          success l + failed l = run_total rn + int (handed (run_numbers rn) (run_times rn) k))"

definition echo_post where
  "echo_post nxt rn lost w' \<longleftrightarrow>
     w_fault w' \<noteq> None \<or> winv nxt rn lost w' 0 {#} {#} \<or>
     (\<exists>lat. winv nxt (run_done (OEcho lat) rn) lost w' 0 {#} {#} \<and> lat_wf lat \<and>
        (run_measure rn \<longrightarrow> echo_total rn lat))"

lemma raise_fault_set [simp]: "w_fault (raise_fault f w) \<noteq> None"
  by (simp add: raise_fault_def split: option.split)

lemma winv_echo_phase:
  assumes inv: "winv nxt rn lost w 0 {#} {#}" and p: "w_phase w = PEcho p"
    and "ph_total rn (PEcho p')" "ep_in_flight p' = ep_in_flight p" "ep_idle p' = ep_idle p"
  shows "winv nxt rn lost (w\<lparr>w_phase := PEcho p'\<rparr>) 0 {#} {#}"
  using winv_acct [OF inv] p assms(3-) by (intro winv_phase [OF inv]) (auto simp: acct_inv_def)

lemma winv_echo_send:
  assumes fresh: "fresh_streams D nxt" and inv: "winv nxt rn lost w 0 {#idx#} {#}" and s: "slot w idx = Some c"
  shows "winv nxt rn lost
    (if c_state c = Broken
     then dial D \<lparr>dj_start = st, dj_attempt = 1, dj_purpose = RedialEcho st, dj_slot = Some idx\<rparr> w
     else case send_request D idx (KEcho st) payload w of
            (None, w4) \<Rightarrow> w4 | (Some e, w4) \<Rightarrow> echo_done D idx (Inl e) st w4) 0 {#} {#}"
proof (cases "c_state c = Broken")
  case True
  let ?job = "\<lparr>dj_start = st, dj_attempt = 1, dj_purpose = RedialEcho st, dj_slot = Some idx\<rparr>"
  have "winv_job nxt rn lost w 0 {#} {#} ?job"
    using inv valid_slotI [OF inv s]
    by (simp add: winv_job_def hold_n_def hold_E_def hold_R_def slot_set_def job_ok_def)
  with True show ?thesis by (simp add: winv_dial [OF fresh])
next
  case False
  obtain err w4 where sr: "send_request D idx (KEcho st) payload w = (err, w4)" by fastforce
  from send_request_winv(1) [OF fresh _ s sr, of rn lost 0 "{#}" "{#}"] inv
  show ?thesis using False sr by (cases err) (simp_all add: winv_echo_done)
qed

lemma echo_issue_post:
  assumes fresh: "fresh_streams D nxt" and inv: "winv nxt rn lost w 0 {#} {#}" and p: "w_phase w = PEcho p"
    and go: "\<not> ep_exhausted p" "ep_in_flight p < ep_slots p" and ei: "echo_issue D p w = (w', again)"
  shows "(w_fault w' \<noteq> None \<and> \<not> again) \<or> winv nxt rn lost w' 0 {#} {#}"
proof -
  note tot = winv_tot [OF inv p]
  let ?n = "ej_numbers (ep_job p) (ej_issued (ep_job p))"
  let ?p2 = "p\<lparr>ep_job := (ep_job p)\<lparr>ej_issued := ej_issued (ep_job p) + 1\<rparr>\<rparr>"
  have "ep_idle p \<noteq> []" using tot go by auto
  then obtain idx rest where idle: "ep_idle p = idx # rest" by (cases "ep_idle p") auto
  show ?thesis
  proof (cases "ej_times (ep_job p) \<le> ?n")
    case True
    have "ph_total rn (PEcho (?p2\<lparr>ep_exhausted := True\<rparr>))" using tot True go by auto
    from winv_echo_phase [OF inv p this] show ?thesis
      using ei idle True by (auto simp: echo_issue_def)
  next
    case False
    let ?p3 = "?p2\<lparr>ep_idle := rest, ep_in_flight := ep_in_flight p + 1\<rparr>"
    define w2 where "w2 = w\<lparr>w_phase := PEcho ?p3\<rparr>"
    have "ph_total rn (PEcho ?p3)" using tot go False idle by auto
    then have inv2: "winv nxt rn lost w2 0 {#idx#} {#}"
      unfolding w2_def using winv_acct [OF inv] p idle
      by (intro winv_phase [OF inv]) (auto simp: acct_inv_def)
    obtain st wd where gn: "get_now D w2 = (st, w2\<lparr>w_world := wd\<rparr>)"
      using get_now_eq by (metis surj_pair)
    let ?w = "w2\<lparr>w_world := wd\<rparr>"
    have pl: "ej_payloads (ep_job p) \<noteq> []" using tot by simp
    let ?pl = "ej_payloads (ep_job p) ! (?n mod length (ej_payloads (ep_job p)))"
    have ei': "(w', again) = (case slot ?w idx of
        None \<Rightarrow> (raise_fault Panic ?w, False)
      | Some c \<Rightarrow>
          (if c_state c = Broken
           then dial D \<lparr>dj_start = st, dj_attempt = 1, dj_purpose = RedialEcho st, dj_slot = Some idx\<rparr> ?w
           else case send_request D idx (KEcho st) ?pl ?w of
                  (None, w4) \<Rightarrow> w4 | (Some e, w4) \<Rightarrow> echo_done D idx (Inl e) st w4, True))"
      using ei idle False pl gn
      by (simp add: echo_issue_def Let_def w2_def split: option.splits prod.splits if_splits)
    show ?thesis
    proof (cases "slot ?w idx")
      case None
      then show ?thesis using ei' by simp
    next
      case (Some c)
      have inv3: "winv nxt rn lost ?w 0 {#idx#} {#}" using inv2 by simp
      show ?thesis
        using ei' Some winv_echo_send [OF fresh inv3 Some] by simp
    qed
  qed
qed

lemma echo_round_post:
  assumes fresh: "fresh_streams D nxt" and inv: "winv nxt rn lost w 0 {#} {#}"
    and er: "echo_round D now w = (w', again)"
  shows "echo_post nxt rn lost w'" and "again \<Longrightarrow> winv nxt rn lost w' 0 {#} {#}"
proof -
  have "(w_fault w' \<noteq> None \<and> \<not> again) \<or> winv nxt rn lost w' 0 {#} {#} \<or> (echo_post nxt rn lost w' \<and> \<not> again)"
  proof (cases "\<exists>p. w_phase w = PEcho p")
    case False
    then show ?thesis using er inv by (cases "w_phase w") (auto simp: echo_round_def)
  next
    case True
    then obtain p where p: "w_phase w = PEcho p" by blast
    have tot: "ph_total rn (PEcho p)" using winv_tot [OF inv p] .
    consider (fin) "ep_exhausted p" "ep_in_flight p = 0"
      | (stay) "ep_exhausted p \<and> ep_in_flight p \<noteq> 0 \<or> \<not> ep_exhausted p \<and> ep_slots p \<le> ep_in_flight p \<or>
          (\<not> ep_exhausted p \<and> (case ep_wait_until p of None \<Rightarrow> False | Some t \<Rightarrow> now < t))"
      | (go) "\<not> ep_exhausted p" "ep_in_flight p < ep_slots p"
          "\<not> (case ep_wait_until p of None \<Rightarrow> False | Some t \<Rightarrow> now < t)"
      by linarith
    then show ?thesis
    proof cases
      case fin
      then have "w' = finish (OEcho (ep_lat p)) w" "\<not> again" using er p by (simp_all add: echo_round_def)
      moreover have "winv nxt (run_done (OEcho (ep_lat p)) rn) lost (finish (OEcho (ep_lat p)) w) 0 {#} {#}"
        using p fin by (intro winv_finish [OF inv]) auto
      moreover have "echo_total rn (ep_lat p)" if "run_measure rn"
        unfolding echo_total_def using fin tot that
        by (intro exI [of _ "ej_issued (ep_job p)"]) auto
      ultimately show ?thesis using tot by (force simp: echo_post_def)
    next
      case stay
      then have "w' = w" using er p by (auto simp: echo_round_def split: if_splits)
      then show ?thesis using inv by simp
    next
      case go
      obtain r lmt w1 where te: "take_echo D 1 (ej_limiter (ep_job p)) w = (r, lmt, w1)" by (metis prod_cases3)
      then obtain wd where w1: "w1 = w\<lparr>w_world := wd\<rparr>" using take_echo_world by blast
      have inv1: "winv nxt rn lost w1 0 {#} {#}" and p1: "w_phase w1 = PEcho p" using inv p w1 by simp_all
      let ?q = "p\<lparr>ep_wait_until := None, ep_job := (ep_job p)\<lparr>ej_limiter := lmt\<rparr>\<rparr>"
      have er': "(w', again) = (case r of
          Wait d \<Rightarrow> (w1\<lparr>w_phase := PEcho (?q\<lparr>ep_wait_until := Some (now + d)\<rparr>)\<rparr>, False)
        | TakePanic \<Rightarrow> (raise_fault Panic (w1\<lparr>w_phase := PEcho ?q\<rparr>), False)
        | Taken \<Rightarrow> echo_issue D ?q (w1\<lparr>w_phase := PEcho ?q\<rparr>))"
        using er p go te by (simp add: echo_round_def not_le Let_def)
      have Q: "winv nxt rn lost (w1\<lparr>w_phase := PEcho (?q\<lparr>ep_wait_until := x\<rparr>)\<rparr>) 0 {#} {#}" for x
        using tot by (intro winv_echo_phase [OF inv1 p1]) auto
      show ?thesis
      proof (cases r)
        case Taken
        have "winv nxt rn lost (w1\<lparr>w_phase := PEcho ?q\<rparr>) 0 {#} {#}"
          using tot by (intro winv_echo_phase [OF inv1 p1]) auto
        from echo_issue_post [OF fresh this, of ?q w' again] show ?thesis
          using er' go Taken by auto
      next
        case (Wait d)
        then show ?thesis using er' Q by simp
      next
        case TakePanic
        then show ?thesis using er' by simp
      qed
    qed
  qed
  then show "echo_post nxt rn lost w'" and "again \<Longrightarrow> winv nxt rn lost w' 0 {#} {#}"
    by (auto simp: echo_post_def)
qed

lemma drive_echo_post:
  assumes fresh: "fresh_streams D nxt" and "winv nxt rn lost w 0 {#} {#}"
  shows "echo_post nxt rn lost (drive_echo D k now w)"
  using assms(2)
proof (induction k arbitrary: w)
  case 0
  then show ?case by (simp add: echo_post_def)
next
  case (Suc k)
  obtain w' again where er: "echo_round D now w = (w', again)" by fastforce
  from echo_round_post [OF fresh Suc.prems er] Suc.IH show ?case
    using er by (simp split: if_splits)
qed

text \<open>\<^verbatim>\<open>BenchMultiplex\<close>: its requests are no round trips, so it leaves the accounts alone.\<close>

lemma winv_send_rate:
  assumes fresh: "fresh_streams D nxt" and inv: "winv nxt rn lost w n E R"
    and sr: "send_request D idx KRate body w = (err, w')"
  shows "winv nxt rn lost w' n E R"
proof (cases "slot w idx")
  case None
  with sr inv show ?thesis by (auto simp: send_request_def)
next
  case (Some c)
  show ?thesis
    using send_request_winv(1) [OF fresh _ Some sr, of rn lost n E R] inv by (cases err) simp_all
qed

lemma winv_send_batch:
  assumes fresh: "fresh_streams D nxt" and "winv nxt rn lost w n E R"
    and "send_batch D idx payload k w = (m, w')"
  shows "winv nxt rn lost w' n E R"
  using assms(2,3)
proof (induction k arbitrary: w m w')
  case 0
  then show ?case by simp
next
  case (Suc k)
  obtain err w1 where sr: "send_request D idx KRate payload w = (err, w1)" by fastforce
  note inv1 = winv_send_rate [OF fresh Suc.prems(1) sr]
  show ?case
  proof (cases "\<exists>c. err = None \<and> slot w1 idx = Some c")
    case False
    then show ?thesis
      using Suc.prems(2) sr inv1 by (cases err; cases "slot w1 idx") auto
  next
    case True
    then obtain c where c: "err = None" "slot w1 idx = Some c" by blast
    let ?w = "put idx (c\<lparr>c_in_flight := c_in_flight c + 1\<rparr>) w1"
    have "winv nxt rn lost ?w n E R"
      using winv_conn [OF inv1 c(2)] by (simp add: winv_put_same [OF inv1 c(2)])
    moreover obtain m2 w2 where sb: "send_batch D idx payload k ?w = (m2, w2)" by fastforce
    ultimately have "winv nxt rn lost w2 n E R" using Suc.IH by blast
    then show ?thesis using Suc.prems(2) sr c sb by simp
  qed
qed

lemma winv_tick_conn:
  assumes fresh: "fresh_streams D nxt" and inv: "winv nxt rn lost w n E R"
    and tc: "tick_conn D payload batch idx (sent, lmt, w) = (sent', lmt', w')"
  shows "winv nxt rn lost w' n E R"
proof -
  obtain r l1 w1 where te: "take_echo D batch lmt w = (r, l1, w1)" by (metis prod_cases3)
  with take_echo_world [OF te] inv have inv1: "winv nxt rn lost w1 n E R" by auto
  obtain m w2 where sb: "send_batch D idx payload batch w1 = (m, w2)" by fastforce
  note inv2 = winv_send_batch [OF fresh inv1 sb]
  have "w' \<in> {w, raise_fault Panic w, w1, raise_fault Panic w1, w2}"
    using tc te sb by (auto simp: tick_conn_def split: if_splits option.splits take_result.splits)
  then show ?thesis using inv inv1 inv2 by auto
qed

lemma winv_ticks:
  assumes fresh: "fresh_streams D nxt" and "winv nxt rn lost w n E R"
    and "fold (tick_conn D payload batch) xs (sent, lmt, w) = (sent', lmt', w')"
  shows "winv nxt rn lost w' n E R"
  using assms(2,3)
proof (induction xs arbitrary: sent lmt w)
  case Nil
  then show ?case by simp
next
  case (Cons x xs)
  obtain s1 l1 w1 where tc: "tick_conn D payload batch x (sent, lmt, w) = (s1, l1, w1)" by (metis prod_cases3)
  with Cons.prems(2) Cons.IH [OF winv_tick_conn [OF fresh Cons.prems(1) tc]] show ?case by simp
qed

lemma winv_rate_phase:
  assumes inv: "winv nxt rn lost w 0 {#} {#}" and p: "w_phase w = PRate p"
  shows "winv nxt rn lost (w\<lparr>w_phase := PRate p'\<rparr>) 0 {#} {#}"
  using winv_acct [OF inv] p by (intro winv_phase [OF inv]) (auto simp: acct_inv_def)

lemma winv_rate_tick:
  assumes fresh: "fresh_streams D nxt" and inv: "winv nxt rn lost w 0 {#} {#}"
  shows "winv nxt rn lost (rate_tick D w) 0 {#} {#}"
proof (cases "\<exists>p. w_phase w = PRate p")
  case False
  then show ?thesis using inv by (cases "w_phase w") (auto simp: rate_tick_def)
next
  case True
  then obtain p where p: "w_phase w = PRate p" by blast
  obtain sent lmt w1 where f: "fold (tick_conn D (rj_payload (rp_job p)) (rj_batch (rp_job p))) (rp_conns p)
      (0, rj_limiter (rp_job p), w) = (sent, lmt, w1)" by (metis prod_cases3)
  note inv1 = winv_ticks [OF fresh inv f]
  show ?thesis
    using p f inv1 winv_rate_phase [OF inv1]
    by (simp add: rate_tick_def Let_def split: phase.split)
qed

definition rate_post where
  "rate_post nxt rn lost w' \<longleftrightarrow>
     winv nxt rn lost w' 0 {#} {#} \<or>
     (\<exists>rc. winv nxt (run_done (ORate rc) rn) lost w' 0 {#} {#})"

lemma drive_rate_post:
  assumes fresh: "fresh_streams D nxt" and inv: "winv nxt rn lost w 0 {#} {#}" and p: "w_phase w = PRate p"
  shows "rate_post nxt rn lost (drive_rate D now w)"
proof -
  have "winv nxt (run_done (ORate (rp_counts p)) rn) lost (finish (ORate (rp_counts p)) w) 0 {#} {#}"
    using p by (intro winv_finish [OF inv]) auto
  then show ?thesis
    using inv p winv_rate_phase [OF inv p] winv_rate_tick [OF fresh winv_rate_phase [OF inv p]]
    by (auto simp: drive_rate_def rate_post_def split: option.split)
qed

text \<open>The connections of \<^verbatim>\<open>BenchMultiplex\<close> are counted from zero.\<close>

lemma slot_get_map: "slot_get (map (map_option f) xs) i = map_option f (slot_get xs i)"
  by (simp add: slot_get_def)

lemma slot_sum_map: "(\<And>c. g (f c) = g c) \<Longrightarrow> slot_sum g (map (map_option f) xs) = slot_sum g xs"
  by (induction xs) (auto simp: slot_val_def split: option.split)

lemma winv_start_rate:
  fixes w :: "('w, 's, 'q, 'h) worker"
  assumes inv: "winv nxt rn 0 w 0 {#} {#}" and p: "w_phase w = PRatePrep job 0"
  shows "winv nxt (rn\<lparr>run_kind := TRate\<rparr>) 0 (start_rate now job w) 0 {#} {#}"
proof -
  define f :: "('s, 'q, 'h) conn \<Rightarrow> ('s, 'q, 'h) conn" where
    "f = (\<lambda>c. if c_state c = Ready then c\<lparr>c_in_flight := 0\<rparr> else c)"
  define w' where "w' = start_rate now job w"
  have sl: "w_slots w' = map (map_option f) (w_slots w)" and ph: "\<exists>p. w_phase w' = PRate p"
    and eq: "w_free w' = w_free w" "w_retries w' = w_retries w" "w_ready w' = w_ready w" "w_cfg w' = w_cfg w"
      "w_results w' = w_results w"
    by (simp_all add: w'_def start_rate_def f_def)
  have slot: "slot w' i = map_option f (slot w i)" for i by (simp add: slot_def sl slot_get_map)
  have g: "is_ready (f c) = is_ready c" "jobs Q (f c) = jobs Q c" "echo_load (f c) = echo_load c"
      "busy_conn (f c) = busy_conn c" "conn_inv nxt i (f c) = conn_inv nxt i c" for c Q i
    by (simp_all add: f_def is_ready_def jobs_def echo_load_def busy_conn_def)
  have "table_ok (w_slots w') (w_free w')"
    using inv by (auto simp: winv_def base_inv_def table_ok_def sl eq)
  moreover have "slots_all (conn_inv nxt) (w_slots w')"
    using inv by (auto simp: winv_def base_inv_def slots_all_def sl slot_get_map g)
  moreover have "job_ok w' = job_ok w" by (rule job_ok_cong) (simp_all add: sl eq)
  ultimately have "base_inv nxt w'"
    using inv by (simp add: winv_def base_inv_def eq sl slot_sum_map g)
  moreover have "acct_inv (rn\<lparr>run_kind := TRate\<rparr>) 0 w' 0 {#} {#}"
    using inv p ph
    by (auto simp: winv_def acct_inv_def new_work_def echo_work_def rate_work_def eq sl slot_sum_map g)
  moreover have "busy w' i = busy w i" for i
    by (cases "slot w i") (simp_all add: busy_def slot eq g)
  then have "excl_inv w' {#} {#}"
    using add_leD1 [OF winv_busy [OF inv, simplified]] ph by (auto simp: excl_inv_def)
  ultimately show ?thesis by (simp add: winv_def w'_def)
qed

end
