(* ===== verification/Loopback.thy ===== *)
theory Loopback
  imports Quiche_Api
begin

text \<open>
  A small environment the models can run in: a clock that ticks, sockets that carry
  nothing, and an HTTP/3 peer inside the connection that answers every request
  with status 200 and its own body. It satisfies what the theorems assume of
  quiche, and the examples of the development evaluate in it.
\<close>

record loop_h3 =
  lh_next :: nat
  lh_events :: "(nat \<times> h3_event) list"
  lh_bodies :: "(nat \<times> bytes) list"

definition loop_os :: "(nat, unit) os_ops" where
  "loop_os = \<lparr>
     os_now = (\<lambda>w. (w, w + 1)),
     os_rand = (\<lambda>n w. (replicate n 7, w)),
     os_bind = (\<lambda>a w. (Inr (), w)),
     os_connect = (\<lambda>s a. (None, s)),
     os_local_addr = (\<lambda>s. Inr \<lparr>sa_ip = V4 0, sa_port = 4433\<rparr>),
     os_set_buffers = (\<lambda>s. s),
     os_register = (\<lambda>s i w. (None, w)),
     os_deregister = (\<lambda>s w. w),
     os_recv = (\<lambda>s. (Inl \<lparr>ioe_kind = WouldBlock, ioe_raw_os_error = None, ioe_text = []\<rparr>, s)),
     os_send = (\<lambda>s d. (None, s)),
     os_enobufs = 105,
     os_show_addr = (\<lambda>a. ''peer'')\<rparr>"

text \<open>A connection is a flag: whether it was closed.\<close>

definition loop_quic :: "bool quic_ops" where
  "loop_quic = \<lparr>
     q_connect = (\<lambda>n s l p. Inr False),
     q_recv = (\<lambda>q d a b. q),
     q_send = (\<lambda>q. (SendDone, q)),
     q_close = (\<lambda>q app code r. True),
     q_is_closed = (\<lambda>q. q),
     q_is_established = (\<lambda>q. True),
     q_is_in_early_data = (\<lambda>q. False),
     q_is_timed_out = (\<lambda>q. False),
     q_peer_error = (\<lambda>q. None),
     q_local_error = (\<lambda>q. None),
     q_timeout_instant = (\<lambda>q. None),
     q_on_timeout = (\<lambda>q. q),
     q_send_ack_eliciting = (\<lambda>q. q),
     q_peer_streams_left_bidi = (\<lambda>q. 100),
     q_max_conn_id_len = 2\<rparr>"

definition loop_answer :: "nat \<Rightarrow> h3_event list" where
  "loop_answer n = (if n = 0 then [EvFinished] else [EvData, EvFinished])"

definition loop_h3api :: "(bool, loop_h3) h3_ops" where
  "loop_h3api = \<lparr>
     h3_with_transport = (\<lambda>q. (Inr \<lparr>lh_next = 0, lh_events = [], lh_bodies = []\<rparr>, q)),
     h3_poll = (\<lambda>h q. case lh_events h of
         [] \<Rightarrow> (Inl H3Done, h, q)
       | e # es \<Rightarrow> (Inr e, h\<lparr>lh_events := es\<rparr>, q)),
     h3_recv_body = (\<lambda>h q sid. case map_of (lh_bodies h) sid of
         None \<Rightarrow> (Inl H3Done, h, q)
       | Some b \<Rightarrow> (Inr b, h\<lparr>lh_bodies := AList.delete sid (lh_bodies h)\<rparr>, q)),
     h3_send_request = (\<lambda>h q hs fin.
       (Inr (lh_next h), h\<lparr>lh_next := lh_next h + 4,
          lh_events := lh_events h @
            ((lh_next h, EvHeaders [header '':status'' ''200'']) # (if fin then [(lh_next h, EvFinished)] else []))\<rparr>, q)),
     h3_send_response = (\<lambda>h q sid hs fin. (Inr (), h, q)),
     h3_send_body = (\<lambda>h q sid b fin.
       (Inr (length b), h\<lparr>lh_events := lh_events h @ map (Pair sid) (loop_answer (length b)),
                          lh_bodies := (sid, b) # lh_bodies h\<rparr>, q)),
     h3_display = (\<lambda>e. ''error'')\<rparr>"

definition loop_deps :: "(nat, unit, bool, loop_h3) deps" where
  "loop_deps = \<lparr>os = loop_os, quic = loop_quic, h3api = loop_h3api, fuel = 20\<rparr>"

text \<open>The same with an operating system that has no more ports.\<close>

definition no_ports :: "(nat, unit, bool, loop_h3) deps" where
  "no_ports = loop_deps\<lparr>os := loop_os\<lparr>os_bind := (\<lambda>a w. (Inl ''no ports'', w))\<rparr>\<rparr>"

end
