(* ===== verification/Engine_Reach.thy ===== *)
theory Engine_Reach
  imports Engine_Steps Loopback
begin

text \<open>
  The states a worker of the client can reach: commands, iterations of its event
  loop, and the properties of every benchmark it runs.
\<close>

subsection \<open>Starting a benchmark\<close>

text \<open>When a worker is idle nothing is under way, so every connection is free.\<close>

lemma sum_zero: "slot_sum f xs = 0 \<Longrightarrow> slot_get xs i = Some c \<Longrightarrow> f c = 0"
  using slot_sum_ge [of xs i c f] by simp

lemma retries_none:
  assumes "retry_count p_new rs = 0" "retry_count p_echo rs = 0" "retry_count p_rate rs = 0"
  shows "rs = []"
proof (cases rs)
  case (Cons r rest)
  with assms show ?thesis by (cases "dj_purpose (snd r)") auto
qed simp

lemma idle_worker:
  assumes inv: "winv nxt rn 0 w 0 {#} {#}" and "w_phase w = Idle"
  shows "w_retries w = []" and "slot w i = Some c \<Longrightarrow> c_dial c = None \<and> reqs is_echo c = 0" and "busy w i = 0"
proof -
  have z: "new_work w = 0" "echo_work w = 0" "rate_work w = 0"
    using winv_acct [OF inv] assms(2) by (auto simp: acct_inv_def)
  then show r: "w_retries w = []"
    by (intro retries_none) (simp_all add: new_work_def echo_work_def rate_work_def)
  have q: "c_dial c = None \<and> reqs is_echo c = 0" if "slot w i = Some c" for i c
  proof -
    have "jobs p_new c = 0" "echo_load c = 0" "jobs p_rate c = 0"
      using z that sum_zero [of _ "w_slots w" i c]
      by (simp_all add: new_work_def echo_work_def rate_work_def slot_def)
    then show ?thesis using jobs_sum [of c] by (auto simp: echo_load_def split: if_splits)
  qed
  then show "slot w i = Some c \<Longrightarrow> c_dial c = None \<and> reqs is_echo c = 0" by blast
  show "busy w i = 0"
    using q [of i] r by (cases "slot w i") (auto simp: busy_def busy_conn_0)
qed

lemma slots_where_props:
  "distinct (slots_where P w)"
  "i \<in> set (slots_where P w) \<longleftrightarrow> (\<exists>c. slot w i = Some c \<and> P c)"
  by (auto simp: slots_where_def split: option.splits dest: slot_bound)

lemma count_slots_where: "count_list (slots_where P w) i \<le> 1"
proof -
  have "distinct xs \<Longrightarrow> count_list xs i \<le> 1" for xs :: "nat list"
    by (induction xs) (auto simp: count_notin)
  then show ?thesis using slots_where_props(1) by blast
qed

lemma winv_set_post_len [simp]: "winv nxt rn lost (set_post_len k w) n E R = winv nxt rn lost w n E R"
  by (simp add: set_post_len_def)

lemma set_post_len_frame [simp]:
  "w_phase (set_post_len k w) = w_phase w" "w_results (set_post_len k w) = w_results w"
  "w_cfg (set_post_len k w) = w_cfg w" "slot (set_post_len k w) = slot w"
  by (simp_all add: set_post_len_def slot_def fun_eq_iff)

lemma slots_where_post_len [simp]: "slots_where P (set_post_len k w) = slots_where P w"
  by (simp add: slots_where_def set_post_len_def slot_def)

text \<open>From an idle worker, any phase with nothing under way but what is in hand.\<close>

lemma winv_begin:
  assumes inv: "winv nxt rn 0 w 0 {#} {#}" and idle: "w_phase w = Idle"
    and ph: "ph_new ph = 0" "ph_echo ph = 0" "ph_rate lost (size R) ph"
    and rn': "ph_total rn' ph" "run_results rn' = w_results w" "run_kind rn' = phase_kind ph"
    and one: "\<And>i. count_list (ph_idle ph) i + count R i \<le> 1"
    and valid: "\<And>i. i \<in> set (ph_idle ph) \<or> i \<in># R \<Longrightarrow> valid_slot w i"
  shows "winv nxt rn' lost (w\<lparr>w_phase := ph\<rparr>) 0 {#} R"
proof -
  let ?w = "w\<lparr>w_phase := ph\<rparr>"
  have z: "new_work w = 0" "echo_work w = 0" "rate_work w = 0"
    using winv_acct [OF inv] idle by (auto simp: acct_inv_def)
  have "base_inv nxt ?w" using inv by (simp add: winv_def base_inv_def)
  moreover have "acct_inv rn' lost ?w 0 {#} R"
    using z ph rn' by (simp add: acct_inv_def new_work_def echo_work_def rate_work_def)
  moreover have "busy ?w i = 0" for i
    using idle_worker(3) [OF inv idle, of i] by (simp add: busy_def)
  then have "excl_inv ?w {#} R"
    using one valid by (auto simp: excl_inv_def valid_slot_def)
  ultimately show ?thesis by (simp add: winv_def)
qed

definition dial_run :: "nat \<Rightarrow> nat \<Rightarrow> ('w, 's, 'q, 'h) worker \<Rightarrow> run" where
  "dial_run num conc w = \<lparr>run_total = int num, run_results = w_results w, run_kind = TDial,
     run_conc = conc, run_times = 0, run_numbers = id, run_issued = 0, run_measure = True\<rparr>"

definition echo_run :: "echo_job \<Rightarrow> nat \<Rightarrow> ('w, 's, 'q, 'h) worker \<Rightarrow> run" where
  "echo_run job conc w = \<lparr>run_total = - int (handed (ej_numbers job) (ej_times job) (ej_issued job)), run_results = w_results w,
     run_kind = TEcho, run_conc = min conc (length (slots_where (\<lambda>_. True) w)),
     run_times = ej_times job, run_numbers = ej_numbers job, run_issued = ej_issued job, run_measure = ej_measure job\<rparr>"

definition rate_run :: "('w, 's, 'q, 'h) worker \<Rightarrow> run" where
  "rate_run w = \<lparr>run_total = 0, run_results = w_results w, run_kind = TPrep,
     run_conc = 0, run_times = 0, run_numbers = id, run_issued = 0, run_measure = True\<rparr>"

lemma start_dial_winv:
  assumes "winv nxt rn 0 w 0 {#} {#}" and "w_phase w = Idle"
  shows "winv nxt (dial_run num conc w) 0 (start D (CDial num conc) w) 0 {#} {#}"
  unfolding start.simps
  by (rule winv_begin [OF assms]) (simp_all add: dial_run_def lat_wf_default)

lemma start_echo_winv:
  assumes inv: "winv nxt rn 0 w 0 {#} {#}" and "w_phase w = Idle" and "ej_payloads job \<noteq> []"
  shows "winv nxt (echo_run job conc w) 0 (start D (CEcho job conc) w) 0 {#} {#}"
proof -
  define w1 where "w1 = set_post_len (case ej_payloads job of [] \<Rightarrow> 0 | p # _ \<Rightarrow> length p) w"
  have inv1: "winv nxt rn 0 w1 0 {#} {#}" and idle1: "w_phase w1 = Idle"
    using assms by (simp_all add: w1_def)
  show ?thesis
    unfolding start.simps Let_def w1_def [symmetric]
    by (rule winv_begin [OF inv1 idle1])
      (use assms(3) count_slots_where valid_slotI [OF inv1] in
        \<open>auto simp: echo_run_def lat_wf_default w1_def slots_where_props(2)\<close>)
qed

lemma worker_phase_same: "w_phase w = ph \<Longrightarrow> w\<lparr>w_phase := ph\<rparr> = w"
  by (cases w) simp

lemma winv_redials:
  assumes fresh: "fresh_streams D nxt" and "winv nxt rn lost w 0 {#} (mset xs)"
  shows "winv nxt rn lost (fold (\<lambda>idx. dial D \<lparr>dj_start = t, dj_attempt = 1, dj_purpose = RedialRate,
           dj_slot = Some idx\<rparr>) xs w) 0 {#} {#}"
  using assms(2)
proof (induction xs arbitrary: w)
  case Nil
  then show ?case by simp
next
  case (Cons x xs)
  have "valid_slot w x" using Cons.prems by (auto simp: winv_def excl_inv_def)
  then have "winv_job nxt rn lost w 0 {#} (mset xs)
      \<lparr>dj_start = t, dj_attempt = 1, dj_purpose = RedialRate, dj_slot = Some x\<rparr>"
    using Cons.prems by (simp add: winv_job_def hold_n_def hold_E_def hold_R_def slot_set_def job_ok_def)
  from Cons.IH [OF winv_dial [OF fresh this]] show ?case by simp
qed

lemma winv_prep:
  assumes inv: "winv nxt rn lost w 0 {#} {#}" and idle: "w_phase w = Idle" and "lost = k"
  shows "winv nxt (rn\<lparr>run_kind := TPrep\<rparr>) (k - rate_work w) (w\<lparr>w_phase := PRatePrep job k\<rparr>) 0 {#} {#}"
proof -
  let ?w = "w\<lparr>w_phase := PRatePrep job k\<rparr>"
  have "base_inv nxt ?w" using inv by (simp add: winv_def base_inv_def)
  moreover have "acct_inv (rn\<lparr>run_kind := TPrep\<rparr>) (k - rate_work w) ?w 0 {#} {#}"
    using winv_acct [OF inv] idle assms(3)
    by (simp add: acct_inv_def new_work_def echo_work_def rate_work_def)
  moreover have "busy ?w i = busy w i" for i by (simp add: busy_def)
  then have "excl_inv ?w {#} {#}"
    using add_leD1 [OF winv_busy [OF inv, simplified]] by (simp add: excl_inv_def)
  ultimately show ?thesis by (simp add: winv_def)
qed

lemma start_rate_winv:
  assumes fresh: "fresh_streams D nxt" and inv: "winv nxt rn 0 w 0 {#} {#}" and "w_phase w = Idle"
  shows "\<exists>lost. winv nxt (rate_run w) lost (start D (CRate job) w) 0 {#} {#}"
proof -
  define w1 where "w1 = set_post_len (length (rj_payload job)) w"
  define broken where "broken = slots_where (\<lambda>c. c_state c = Broken) w1"
  obtain t wd where gn: "get_now D w1 = (t, w1\<lparr>w_world := wd\<rparr>)" using get_now_eq by (metis surj_pair)
  let ?w = "w1\<lparr>w_world := wd\<rparr>" and ?rn = "(rate_run w)\<lparr>run_kind := TIdle\<rparr>"
  have inv1: "winv nxt rn 0 ?w 0 {#} {#}" and idle1: "w_phase ?w = Idle"
    using assms by (simp_all add: w1_def)
  have m: "count (mset broken) i \<le> 1" for i
    using slots_where_props(1) [of "\<lambda>c. c_state c = Broken" w1]
    by (simp add: broken_def distinct_count_atmost_1)
  have "winv nxt ?rn (length broken) (?w\<lparr>w_phase := Idle\<rparr>) 0 {#} (mset broken)"
    using m valid_slotI [OF inv1]
    by (intro winv_begin [OF inv1 idle1])
      (auto simp: rate_run_def w1_def broken_def slots_where_props(2))
  then have inv2: "winv nxt ?rn (length broken) ?w 0 {#} (mset broken)"
    using idle1 by (metis worker_phase_same)
  define w3 where "w3 = fold (\<lambda>idx. dial D \<lparr>dj_start = t, dj_attempt = 1, dj_purpose = RedialRate,
      dj_slot = Some idx\<rparr>) broken ?w"
  have inv3: "winv nxt ?rn (length broken) w3 0 {#} {#}"
    unfolding w3_def by (rule winv_redials [OF fresh inv2])
  moreover have "w_phase w3 = Idle"
    using winv_acct [OF inv3] by (cases "w_phase w3") (simp_all add: acct_inv_def)
  ultimately have "winv nxt (?rn\<lparr>run_kind := TPrep\<rparr>) (length broken - rate_work w3)
      (w3\<lparr>w_phase := PRatePrep job (length broken)\<rparr>) 0 {#} {#}"
    by (rule winv_prep) simp
  moreover have "start D (CRate job) w = w3\<lparr>w_phase := PRatePrep job (length broken)\<rparr>"
    using gn by (simp add: w1_def w3_def broken_def Let_def)
  moreover have "?rn\<lparr>run_kind := TPrep\<rparr> = rate_run w" by (simp add: rate_run_def)
  ultimately show ?thesis by metis
qed

subsection \<open>One iteration\<close>

text \<open>What a benchmark may end with, and how a run goes on from one iteration to the next.\<close>

definition outcome_ok :: "run \<Rightarrow> outcome \<Rightarrow> bool" where
  "outcome_ok rn o1 =
     (case run_kind rn of
        TIdle \<Rightarrow> False
      | TDial \<Rightarrow> \<exists>l. o1 = ODial l \<and> lat_wf l \<and> success l + failed l = run_total rn
      | TEcho \<Rightarrow> \<exists>l. o1 = OEcho l \<and> lat_wf l \<and>
                 (run_measure rn \<longrightarrow> echo_total rn l)
      | _ \<Rightarrow> \<exists>rc. o1 = ORate rc)"

definition progress :: "run \<Rightarrow> run \<Rightarrow> bool" where
  "progress rn rn' \<longleftrightarrow>
     rn' = rn \<or> (run_kind rn = TPrep \<and> rn' = rn\<lparr>run_kind := TRate\<rparr>) \<or>
     (\<exists>o1. rn' = run_done o1 rn \<and> outcome_ok rn o1)"

lemma progress_refl [simp]: "progress rn rn"
  by (simp add: progress_def)

lemma progress_trans:
  assumes "progress r1 r2" "progress r2 r3"
  shows "progress r1 r3"
proof -
  consider "r2 = r1" | "run_kind r1 = TPrep" "r2 = r1\<lparr>run_kind := TRate\<rparr>"
    | o1 where "r2 = run_done o1 r1" "outcome_ok r1 o1"
    using assms(1) by (auto simp: progress_def)
  then show ?thesis
  proof cases
    case 1
    with assms show ?thesis by simp
  next
    case 2
    with assms(2) show ?thesis
      by (auto simp: progress_def outcome_ok_def run_done_def)
  next
    case 3
    then have "r3 = r2" using assms(2) by (auto simp: progress_def outcome_ok_def run_done_def)
    with 3 show ?thesis by (auto simp: progress_def)
  qed
qed

definition live :: "('h \<Rightarrow> nat) \<Rightarrow> run \<Rightarrow> ('w, 's, 'q, 'h) worker \<Rightarrow> bool" where
  "live nxt rn w \<longleftrightarrow> (\<exists>lost. winv nxt rn lost w 0 {#} {#} \<and> (lost = 0 \<or> run_kind rn = TPrep))"

lemma liveE:
  assumes "live nxt rn w"
  obtains lost where "winv nxt rn lost w 0 {#} {#}" "lost = 0 \<or> run_kind rn = TPrep"
    "phase_kind (w_phase w) = run_kind rn" "w_results w = run_results rn" "ph_total rn (w_phase w)"
  using assms by (auto simp: live_def winv_def acct_inv_def)

lemma liveI: "winv nxt rn lost w 0 {#} {#} \<Longrightarrow> lost = 0 \<or> run_kind rn = TPrep \<Longrightarrow> live nxt rn w"
  by (auto simp: live_def)

lemma drive_live:
  assumes fresh: "fresh_streams D nxt" and live: "live nxt rn w" and nf: "w_fault (drive D now w) = None"
  shows "\<exists>rn'. live nxt rn' (drive D now w) \<and> progress rn rn'"
proof -
  from live obtain lost where inv: "winv nxt rn lost w 0 {#} {#}" and l: "lost = 0 \<or> run_kind rn = TPrep"
    and kind: "phase_kind (w_phase w) = run_kind rn" and tot: "ph_total rn (w_phase w)" by (rule liveE)
  show ?thesis
  proof (cases "w_phase w")
    case Idle
    then show ?thesis using live by (auto simp: drive_def)
  next
    case (PDial p)
    note D = winv_drive_dial [OF fresh inv PDial]
    show ?thesis
    proof (cases "dp_remaining p = 0 \<and> dp_active p = 0")
      case True
      have "outcome_ok rn (ODial (dp_lat p))"
        using tot PDial kind True by (simp add: outcome_ok_def)
      then show ?thesis
        using D(1) [OF True, of now] PDial kind l
        by (intro exI [of _ "run_done (ODial (dp_lat p)) rn"])
          (auto simp: drive_def live_def progress_def)
    next
      case False
      then show ?thesis using liveI [OF D(2) [OF False, of now] l] PDial by (auto simp: drive_def)
    qed
  next
    case (PEcho p)
    let ?w = "drive_echo D (ej_times (ep_job p) - ej_issued (ep_job p) + 2) now w"
    have "echo_post nxt rn lost ?w" by (rule drive_echo_post [OF fresh inv])
    then consider "winv nxt rn lost ?w 0 {#} {#}"
      | lat where "winv nxt (run_done (OEcho lat) rn) lost ?w 0 {#} {#}" "outcome_ok rn (OEcho lat)"
      using nf PEcho kind [symmetric] by (auto simp: echo_post_def drive_def outcome_ok_def)
    then show ?thesis
      using PEcho kind l by cases (auto simp: drive_def live_def progress_def)
  next
    case (PRatePrep job r)
    show ?thesis
    proof (cases "r = 0")
      case True
      then have "lost = 0" using winv_acct [OF inv] PRatePrep by (simp add: acct_inv_def)
      then show ?thesis
        using winv_start_rate [of nxt rn w job now] inv PRatePrep True kind
        by (auto simp: drive_def live_def progress_def)
    next
      case False
      then show ?thesis using live PRatePrep by (auto simp: drive_def)
    qed
  next
    case (PRate p)
    from drive_rate_post [OF fresh inv PRate, of now] show ?thesis
      using PRate kind l by (force simp: drive_def live_def rate_post_def progress_def outcome_ok_def)
  qed
qed

lemma live_winv:
  assumes "live nxt rn w" and "\<And>lost. winv nxt rn lost w 0 {#} {#} \<Longrightarrow> winv nxt rn lost w' 0 {#} {#}"
  shows "live nxt rn w'"
  using assms by (auto simp: live_def)

lemma winv_on_readables:
  "fresh_streams D nxt \<Longrightarrow> winv nxt rn lost w n E R \<Longrightarrow> winv nxt rn lost (fold (on_readable D) xs w) n E R"
  by (simp add: winv_fold winv_on_readable)

text \<open>The part of an iteration after its commands.\<close>

lemma iteration_live:
  assumes fresh: "fresh_streams D nxt" and oe: "on_events D evs (w, False) = (w1, stop)"
    and live: "live nxt rn w1" and it: "iteration D evs w = (w', False)"
  shows "\<exists>rn'. live nxt rn' w' \<and> progress rn rn'"
proof -
  define w2 where "w2 = fold (on_readable D) (readable_of evs) w1"
  obtain t wd where gn: "get_now D w2 = (t, w2\<lparr>w_world := wd\<rparr>)" using get_now_eq by (metis surj_pair)
  define w5 where "w5 = fire_retries D (fuel D) t (fire_timers D (fuel D) t (w2\<lparr>w_world := wd\<rparr>))"
  have w': "w_fault (drive D t w5) = None \<and> w' = flush_dirty D (fuel D) (keepalive D t (drive D t w5))"
    using it oe gn by (auto simp: iteration_def w2_def w5_def Let_def split: if_splits)
  have "live nxt rn w5"
    unfolding w5_def w2_def using live
    by (rule live_winv)
      (simp add: winv_fire_retries [OF fresh] winv_fire_timers [OF fresh] winv_on_readables [OF fresh])
  from drive_live [OF fresh this] w' obtain rn' where rn': "live nxt rn' (drive D t w5)" "progress rn rn'"
    by blast
  have "live nxt rn' w'"
    using rn'(1) by (rule live_winv) (simp add: w' winv_flush_dirty [OF fresh] winv_keepalive)
  with rn'(2) show ?thesis by blast
qed

subsection \<open>Reachable states\<close>

fun commands_of :: "poll_ev list \<Rightarrow> command list" where
  "commands_of [] = []"
| "commands_of (Wake cmds # evs) = filter (\<lambda>c. c \<noteq> CStop) cmds @ commands_of evs"
| "commands_of (Readable i # evs) = commands_of evs"

lemma on_wake_fst: "fst (on_wake D cmds st) = fold (start D) (filter (\<lambda>c. c \<noteq> CStop) cmds) (fst st)"
  by (induction D cmds st rule: on_wake.induct) (auto split: command.split)

lemma on_events_fst: "fst (on_events D evs st) = fold (start D) (commands_of evs) (fst st)"
  by (induction D evs st rule: on_events.induct) (auto simp: on_wake_fst)

text \<open>
  What \<^verbatim>\<open>Engine::run\<close> sends a worker: a command only when its last benchmark has
  ended, and an echo job with a payload.
\<close>

definition command_ok :: "command \<Rightarrow> bool" where
  "command_ok c = (case c of CEcho job k \<Rightarrow> ej_payloads job \<noteq> [] | _ \<Rightarrow> True)"

definition legal :: "('w, 's, 'q, 'h) worker \<Rightarrow> poll_ev list \<Rightarrow> bool" where
  "legal w evs \<longleftrightarrow>
     commands_of evs = [] \<or>
     (w_phase w = Idle \<and> length (commands_of evs) = 1 \<and> list_all command_ok (commands_of evs))"

inductive reachable :: "('w, 's, 'q, 'h) deps \<Rightarrow> ('w, 's, 'q, 'h) worker \<Rightarrow> bool" for D where
  init: "cfg_addrs cfg \<noteq> [] \<Longrightarrow> reachable D (worker_new is_ip_addr wid cfg numbers now wd)"
| step: "reachable D w \<Longrightarrow> legal w evs \<Longrightarrow> iteration D evs w = (w', False) \<Longrightarrow> reachable D w'"

lemma start_live:
  assumes fresh: "fresh_streams D nxt" and live: "live nxt rn w" and idle: "w_phase w = Idle"
    and "command_ok c"
  shows "\<exists>rn'. live nxt rn' (start D c w)"
proof -
  from live idle have inv: "winv nxt rn 0 w 0 {#} {#}" by (auto elim!: liveE)
  show ?thesis
  proof (cases c)
    case (CDial num conc)
    then show ?thesis using start_dial_winv [OF inv idle, of num conc D] by (auto simp: live_def)
  next
    case (CEcho job conc)
    then show ?thesis
      using start_echo_winv [OF inv idle, of job conc D] assms(4) by (auto simp: live_def command_ok_def)
  next
    case (CRate job)
    from start_rate_winv [OF fresh inv idle, of job] show ?thesis
      unfolding CRate live_def by (intro exI [of _ "rate_run w"]) (auto simp: rate_run_def simp del: start.simps)
  next
    case CStop
    then show ?thesis using live by auto
  qed
qed

lemma winv_worker_new:
  "cfg_addrs cfg \<noteq> [] \<Longrightarrow>
     winv nxt \<lparr>run_total = 0, run_results = [], run_kind = TIdle, run_conc = 0, run_times = 0, run_numbers = id, run_issued = 0, run_measure = True\<rparr>
       0 (worker_new is_ip_addr wid cfg numbers now wd) 0 {#} {#}"
  by (simp add: winv_defs worker_new_def conn_table.ok_empty slot_get_def)

lemma reachable_live:
  assumes fresh: "fresh_streams D nxt" and "reachable D w"
  shows "\<exists>rn. live nxt rn w"
  using assms(2)
proof induction
  case (init cfg is_ip_addr wid numbers now wd)
  then show ?case using winv_worker_new by (fastforce simp: live_def)
next
  case (step w evs w')
  then obtain rn where rn: "live nxt rn w" by blast
  obtain w1 stop where oe: "on_events D evs (w, False) = (w1, stop)" by fastforce
  then have w1: "w1 = fold (start D) (commands_of evs) w"
    using on_events_fst [of D evs "(w, False)"] by simp
  have "\<exists>rn. live nxt rn w1"
  proof (cases "commands_of evs")
    case Nil
    then show ?thesis using rn w1 by auto
  next
    case (Cons c cs)
    then have "cs = []" "command_ok c" "w_phase w = Idle" using step(2) by (auto simp: legal_def)
    then show ?thesis using start_live [OF fresh rn] Cons w1 by simp
  qed
  then show ?case using iteration_live [OF fresh oe _ step(3)] by blast
qed

subsection \<open>The properties\<close>

text \<open>Iterations of the event loop, as long as the worker runs.\<close>

fun iterate :: "('w, 's, 'q, 'h) deps \<Rightarrow> poll_ev list list \<Rightarrow>
    ('w, 's, 'q, 'h) worker \<Rightarrow> ('w, 's, 'q, 'h) worker option" where
  "iterate D [] w = Some w"
| "iterate D (evs # rest) w =
     (case iteration D evs w of (w', stop) \<Rightarrow> if stop then None else iterate D rest w')"

lemma iterate_live:
  assumes fresh: "fresh_streams D nxt" and "live nxt rn w" and "\<forall>evs \<in> set evss. commands_of evs = []"
    and "iterate D evss w = Some w'"
  shows "\<exists>rn'. live nxt rn' w' \<and> progress rn rn'"
  using assms(2-)
proof (induction evss arbitrary: rn w)
  case Nil
  then show ?case by (auto intro: progress_refl)
next
  case (Cons evs evss)
  obtain w1 where it: "iteration D evs w = (w1, False)" "iterate D evss w1 = Some w'"
    using Cons.prems(3) by (auto split: prod.splits if_splits)
  obtain w0 stop where oe: "on_events D evs (w, False) = (w0, stop)" by fastforce
  then have "w0 = w" using on_events_fst [of D evs "(w, False)"] Cons.prems(2) by simp
  then obtain rn1 where "live nxt rn1 w1" "progress rn rn1"
    using iteration_live [OF fresh oe _ it(1)] Cons.prems(1) by blast
  moreover from Cons.IH [OF this(1) _ it(2)] Cons.prems(2)
  obtain rn2 where "live nxt rn2 w'" "progress rn1 rn2" by auto
  ultimately show ?case using progress_trans by blast
qed

text \<open>A benchmark that an idle worker is told to run.\<close>

lemma iterate_start:
  assumes fresh: "fresh_streams D nxt" and cmd: "commands_of evs = [c]"
    and started: "live nxt rn (start D c w)" and quiet: "\<forall>evs \<in> set evss. commands_of evs = []"
    and it: "iterate D (evs # evss) w = Some w'"
  shows "\<exists>rn'. live nxt rn' w' \<and> progress rn rn'"
proof -
  obtain w1 where it1: "iteration D evs w = (w1, False)" "iterate D evss w1 = Some w'"
    using it by (auto split: prod.splits if_splits)
  obtain w0 stop where oe: "on_events D evs (w, False) = (w0, stop)" by fastforce
  then have "w0 = start D c w" using on_events_fst [of D evs "(w, False)"] cmd by simp
  then obtain rn1 where "live nxt rn1 w1" "progress rn rn1"
    using iteration_live [OF fresh oe _ it1(1)] started by blast
  then show ?thesis using iterate_live [OF fresh _ quiet it1(2)] progress_trans by blast
qed

lemma reachable_idle:
  assumes "fresh_streams D nxt" and "reachable D w" and "w_phase w = Idle"
  shows "\<exists>rn. winv nxt rn 0 w 0 {#} {#}"
proof -
  from reachable_live [OF assms(1,2)] obtain rn where "live nxt rn w" by blast
  then show ?thesis using assms(3) by (auto elim!: liveE)
qed

text \<open>The one result of a benchmark that has ended, for what the workers' results add up to.\<close>

lemma dial_finished:
  assumes "fresh_streams D nxt" and "reachable D w" and "w_phase w = Idle"
    and "commands_of evs = [CDial num conc]" and "\<forall>evs \<in> set evss. commands_of evs = []"
    and "iterate D (evs # evss) w = Some w'" and "w_phase w' = Idle"
  shows "\<exists>l. w_results w' = w_results w @ [ODial l] \<and> success l + failed l = int num"
proof -
  from reachable_idle [OF assms(1-3)] obtain rn0 where inv: "winv nxt rn0 0 w 0 {#} {#}" by blast
  have "live nxt (dial_run num conc w) (start D (CDial num conc) w)"
    using liveI [OF start_dial_winv [OF inv assms(3)]] by blast
  from iterate_start [OF assms(1,4) this assms(5,6)] obtain rn where
    rn: "live nxt rn w'" "progress (dial_run num conc w) rn" by blast
  then show ?thesis
    using assms(7) by (auto simp: progress_def dial_run_def run_done_def outcome_ok_def elim!: liveE)
qed

lemma echo_finished:
  assumes "fresh_streams D nxt" and "reachable D w" and "w_phase w = Idle"
    and "commands_of evs = [CEcho job conc]" and "ej_payloads job \<noteq> []" and "strict_mono (ej_numbers job)"
    and "ej_measure job" and "ej_issued job = 0"
    and "\<forall>evs \<in> set evss. commands_of evs = []"
    and "iterate D (evs # evss) w = Some w'" and "w_phase w' = Idle"
  shows "\<exists>l. w_results w' = w_results w @ [OEcho l] \<and>
     success l + failed l = (if conc = 0 \<or> slots_where (\<lambda>_. True) w = [] then 0
                             else int (card {j. ej_numbers job j < ej_times job}))"
proof -
  from reachable_idle [OF assms(1-3)] obtain rn0 where inv: "winv nxt rn0 0 w 0 {#} {#}" by blast
  have "live nxt (echo_run job conc w) (start D (CEcho job conc) w)"
    using liveI [OF start_echo_winv [OF inv assms(3,5)]] by blast
  from iterate_start [OF assms(1,4) this assms(9,10)] obtain rn where
    rn: "live nxt rn w'" "progress (echo_run job conc w) rn" by blast
  then show ?thesis
    using assms(7,8,11) handed_all [OF assms(6)]
    by (auto simp: progress_def echo_run_def run_done_def outcome_ok_def echo_total_def
        elim!: liveE split: if_splits)
qed

text \<open>
  C3. \<^verbatim>\<open>Connections\<close> accounts for every dial. An idle worker told to dial \<open>num\<close>
  connections, \<open>conc\<close> at a time, is either still at it (then the dials not
  started, the ones under way and the ones counted come to \<open>num\<close>, the ones under
  way are exactly those on a connection or waiting to be retried, and there are at
  most \<open>conc\<close> of them) or it has reported exactly one result, whose successes and
  failures come to \<open>num\<close>. This holds whatever sockets, timers and the server do.
\<close>

theorem dial_accounted:
  assumes "fresh_streams D nxt" and "reachable D w" and "w_phase w = Idle"
    and "commands_of evs = [CDial num conc]" and "\<forall>evs \<in> set evss. commands_of evs = []"
    and "iterate D (evs # evss) w = Some w'"
  shows "(\<exists>p. w_phase w' = PDial p \<and> w_results w' = w_results w \<and>
            int (dp_remaining p) + int (dp_active p) + success (dp_lat p) + failed (dp_lat p) = int num \<and>
            dp_active p = new_work w' \<and> dp_active p \<le> conc) \<or>
         (w_phase w' = Idle \<and>
          (\<exists>l. w_results w' = w_results w @ [ODial l] \<and> success l + failed l = int num))"
proof -
  from reachable_idle [OF assms(1-3)] obtain rn0 where inv: "winv nxt rn0 0 w 0 {#} {#}" by blast
  let ?rn = "dial_run num conc w"
  have "live nxt ?rn (start D (CDial num conc) w)"
    using liveI [OF start_dial_winv [OF inv assms(3)]] by blast
  from iterate_start [OF assms(1,4) this assms(5,6)]
  obtain rn where live: "live nxt rn w'" and pr: "progress ?rn rn" by blast
  from live obtain lost where W: "winv nxt rn lost w' 0 {#} {#}" "phase_kind (w_phase w') = run_kind rn"
    "w_results w' = run_results rn" "ph_total rn (w_phase w')" by (rule liveE)
  consider "rn = ?rn" | o1 where "rn = run_done o1 ?rn" "outcome_ok ?rn o1"
    using pr by (auto simp: progress_def dial_run_def)
  then show ?thesis
  proof cases
    case 1
    then obtain p where p: "w_phase w' = PDial p"
      using W(2) by (cases "w_phase w'") (simp_all add: dial_run_def)
    then show ?thesis
      using W(3,4) winv_acct [OF W(1)] 1 by (auto simp: dial_run_def acct_inv_def)
  next
    case 2
    then have "w_phase w' = Idle" using W(2) by (cases "w_phase w'") (simp_all add: run_done_def)
    then show ?thesis
      using 2 W(3) by (auto simp: run_done_def dial_run_def outcome_ok_def)
  qed
qed

text \<open>
  C4. \<^verbatim>\<open>BenchEcho\<close> accounts for every round trip. An idle worker told to run an echo
  job is either still at it (then the numbers below \<^verbatim>\<open>times\<close> the shared counter handed
  it are the round trips under way and the ones counted, and at most \<open>conc\<close> are under
  way) or it has reported exactly one result; if the job is measured, that result counts
  every number below \<^verbatim>\<open>times\<close> the counter has for this worker and that it had not
  drawn before, whatever the other workers draw in between, and nothing if the worker
  had no connection to use.
\<close>

theorem echo_accounted:
  assumes "fresh_streams D nxt" and "reachable D w" and "w_phase w = Idle"
    and "commands_of evs = [CEcho job conc]" and "ej_payloads job \<noteq> []" and "strict_mono (ej_numbers job)"
    and "\<forall>evs \<in> set evss. commands_of evs = []"
    and "iterate D (evs # evss) w = Some w'"
  shows "(\<exists>p. w_phase w' = PEcho p \<and> w_results w' = w_results w \<and>
            ep_in_flight p = echo_work w' \<and> ep_in_flight p \<le> conc \<and>
            (ej_measure job \<longrightarrow>
               int (ep_in_flight p) + success (ep_lat p) + failed (ep_lat p) +
                 int (handed (ej_numbers job) (ej_times job) (ej_issued job)) =
               int (handed (ej_numbers job) (ej_times job) (ej_issued (ep_job p))))) \<or>
         (w_phase w' = Idle \<and>
          (\<exists>l. w_results w' = w_results w @ [OEcho l] \<and>
             (ej_measure job \<longrightarrow>
                success l + failed l =
                (if conc = 0 \<or> slots_where (\<lambda>_. True) w = [] then 0
                 else int (card {j. ej_numbers job j < ej_times job}) -
                   int (handed (ej_numbers job) (ej_times job) (ej_issued job))))))"
proof -
  from reachable_idle [OF assms(1-3)] obtain rn0 where inv: "winv nxt rn0 0 w 0 {#} {#}" by blast
  let ?rn = "echo_run job conc w"
  have "live nxt ?rn (start D (CEcho job conc) w)"
    using liveI [OF start_echo_winv [OF inv assms(3,5)]] by blast
  from iterate_start [OF assms(1,4) this assms(7,8)]
  obtain rn where live: "live nxt rn w'" and pr: "progress ?rn rn" by blast
  from live obtain lost where W: "winv nxt rn lost w' 0 {#} {#}" "phase_kind (w_phase w') = run_kind rn"
    "w_results w' = run_results rn" "ph_total rn (w_phase w')" by (rule liveE)
  consider "rn = ?rn" | o1 where "rn = run_done o1 ?rn" "outcome_ok ?rn o1"
    using pr by (auto simp: progress_def echo_run_def)
  then show ?thesis
  proof cases
    case 1
    then obtain p where p: "w_phase w' = PEcho p"
      using W(2) by (cases "w_phase w'") (simp_all add: echo_run_def)
    then show ?thesis
      using W(3,4) winv_acct [OF W(1)] 1 by (auto simp: echo_run_def acct_inv_def)
  next
    case 2
    then have "w_phase w' = Idle" using W(2) by (cases "w_phase w'") (simp_all add: run_done_def)
    then show ?thesis
      using 2 W(3) handed_all [OF assms(6)]
      by (auto simp: run_done_def echo_run_def outcome_ok_def echo_total_def split: if_splits)
  qed
qed

text \<open>
  C5. A connection is used for one thing at a time. In every reachable state a slot
  has at most one of: a round trip queued or on a stream, a dial under way, a dial
  waiting to be retried, a place in the list of idle connections. So no connection
  is redialed under a round trip, and \<^verbatim>\<open>BenchEcho\<close> never has two of them on one.
\<close>

theorem one_operation_per_connection:
  assumes "fresh_streams D nxt" and "reachable D w"
  shows "(case slot w i of None \<Rightarrow> 0
          | Some c \<Rightarrow> reqs is_echo c + (if c_dial c = None then 0 else 1)) +
         length (filter (\<lambda>r. dj_slot (snd r) = Some i) (w_retries w)) +
         (case w_phase w of PEcho p \<Rightarrow> count_list (ep_idle p) i | _ \<Rightarrow> 0) \<le> 1"
proof -
  from reachable_live [OF assms] obtain rn where "live nxt rn w" by blast
  then obtain lost where inv: "winv nxt rn lost w 0 {#} {#}" by (auto simp: live_def)
  have "ph_idle (w_phase w) = (case w_phase w of PEcho p \<Rightarrow> ep_idle p | _ \<Rightarrow> [])"
    by (cases "w_phase w") simp_all
  then show ?thesis
    using winv_busy [OF inv, of i]
    by (auto simp: busy_def busy_conn_def retries_at_def slot_val_def split: option.splits phase.splits)
qed

text \<open>
  C6. The number of ready connections a worker keeps is the number of connections
  in state \<^verbatim>\<open>Ready\<close>; a connection is in state \<^verbatim>\<open>Connecting\<close> exactly while it has a
  dial; and the free list holds distinct slots, all of them empty.
\<close>

theorem worker_tables:
  assumes "fresh_streams D nxt" and "reachable D w"
  shows "w_ready w = length (slots_where (\<lambda>c. c_state c = Ready) w) \<and>
         (\<forall>i c. slot w i = Some c \<longrightarrow> (c_state c = Connecting \<longleftrightarrow> c_dial c \<noteq> None)) \<and>
         distinct (w_free w) \<and> (\<forall>i \<in> set (w_free w). i < length (w_slots w) \<and> slot w i = None)"
proof -
  from reachable_live [OF assms] obtain rn where "live nxt rn w" by blast
  then obtain lost where inv: "winv nxt rn lost w 0 {#} {#}" by (auto simp: live_def)
  then have b: "w_ready w = slot_sum is_ready (w_slots w)" "table_ok (w_slots w) (w_free w)"
    by (simp_all add: winv_def base_inv_def)
  have "slot_sum is_ready xs = length (filter (\<lambda>i. case slot_get xs i of None \<Rightarrow> False
      | Some c \<Rightarrow> c_state c = Ready) [0..<length xs])" for xs :: "('b, 'c, 'd) conn option list"
  proof (induction xs rule: rev_induct)
    case (snoc x xs)
    have "filter (\<lambda>i. case slot_get (xs @ [x]) i of None \<Rightarrow> False | Some c \<Rightarrow> c_state c = Ready) [0..<length xs] =
        filter (\<lambda>i. case slot_get xs i of None \<Rightarrow> False | Some c \<Rightarrow> c_state c = Ready) [0..<length xs]"
      by (rule filter_cong) (auto simp: slot_get_def nth_append)
    with snoc show ?case
      by (simp add: slot_get_def is_ready_def split: option.split)
  qed simp
  then have "w_ready w = length (slots_where (\<lambda>c. c_state c = Ready) w)"
    by (simp add: b(1) slots_where_def slot_def)
  then show ?thesis
    using b(2) winv_conn [OF inv] by (auto simp: table_ok_def slot_def slot_get_def conn_inv_def)
qed

end
