(* ===== verification/Engine.thy ===== *)
theory Engine
  imports Engine_Reach
begin

text \<open>
  \<^verbatim>\<open>struct Engine\<close> of \<^verbatim>\<open>benchcli-rust/src/engine.rs\<close>: the main thread's side of the
  workers. A worker is a thread that \<^theory_text>\<open>Engine_Worker\<close> models; here are how the workers
  are made, how each is sent a command, and how \<^verbatim>\<open>Engine::run\<close> waits for the outcomes,
  which arrive over one channel in any order.
\<close>

subsection \<open>Operations\<close>

text \<open>
  \<^verbatim>\<open>Engine::new\<close>: a worker for each thread, or the error of the first one whose poller,
  waker or thread cannot be made. \<open>setup i\<close> is that error; the workers' clocks and
  worlds are their own, and the shared address counter hands worker \<open>i\<close> the \<open>numbers i\<close>.
\<close>

fun engine_new :: "(nat \<Rightarrow> string option) \<Rightarrow> (string \<Rightarrow> bool) \<Rightarrow> (nat \<Rightarrow> nat \<Rightarrow> nat) \<Rightarrow> (nat \<Rightarrow> instant \<times> 'w) \<Rightarrow>
    engine_config \<Rightarrow> nat \<Rightarrow> string + ('w, 's, 'q, 'h) worker list" where
  "engine_new setup is_ip_addr numbers env cfg 0 = Inr []"
| "engine_new setup is_ip_addr numbers env cfg (Suc n) =
     (case engine_new setup is_ip_addr numbers env cfg n of
        Inl e \<Rightarrow> Inl e
      | Inr ws \<Rightarrow>
          (case setup n of
             Some e \<Rightarrow> Inl e
           | None \<Rightarrow> Inr (ws @ [worker_new is_ip_addr n cfg (numbers n) (fst (env n)) (snd (env n))])))"

definition ready_counts :: "('w, 's, 'q, 'h) worker list \<Rightarrow> nat list" where
  "ready_counts ws = map w_ready ws"

text \<open>What \<^verbatim>\<open>recv_timeout\<close> on the channel of outcomes returns.\<close>

datatype recv = Got nat outcome | RecvTimeout | Disconnected

text \<open>
  How \<^verbatim>\<open>run\<close> ends: with the outcomes, in \<^verbatim>\<open>fatalf!\<close>, in a panic; or it is still waiting
  when the messages end.
\<close>

datatype run_end = Collected "outcome list" | Fatal string | RunPanic | Waiting

text \<open>The loop of \<^verbatim>\<open>run\<close>; the calls of \<^verbatim>\<open>tick\<close> are listed with the second each is given.\<close>

fun collect :: "recv list \<Rightarrow> outcome option list \<Rightarrow> nat \<Rightarrow> nat \<Rightarrow> run_end \<times> nat list" where
  "collect evs outs 0 seconds =
     (case those outs of None \<Rightarrow> (RunPanic, []) | Some results \<Rightarrow> (Collected results, []))"
| "collect [] outs (Suc pending) seconds = (Waiting, [])"
| "collect (Got i o1 # evs) outs (Suc pending) seconds =
     (if i < length outs then collect evs (outs[i := Some o1]) pending seconds else (RunPanic, []))"
| "collect (RecvTimeout # evs) outs (Suc pending) seconds =
     (let (r, ticks) = collect evs outs (Suc pending) (seconds + 1) in (r, (seconds + 1) # ticks))"
| "collect (Disconnected # evs) outs (Suc pending) seconds = (Fatal ''a worker exited'', [])"

text \<open>
  \<^verbatim>\<open>Engine::run\<close> on \<open>n\<close> workers: the commands sent, each with the worker it goes to, and
  how the wait ends.
\<close>

definition engine_run :: "nat \<Rightarrow> command list \<Rightarrow> recv list \<Rightarrow> (nat \<times> command) list \<times> run_end \<times> nat list" where
  "engine_run n commands evs =
     (if length commands \<noteq> n then ([], RunPanic, [])
      else (zip [0..<n] commands, collect evs (replicate n None) n 0))"

text \<open>\<^verbatim>\<open>Engine::stop\<close> sends every worker \<^verbatim>\<open>Stop\<close> and joins it.\<close>

definition engine_stop :: "nat \<Rightarrow> (nat \<times> command) list" where
  "engine_stop n = map (\<lambda>i. (i, CStop)) [0..<n]"

subsection \<open>The outcomes of all workers\<close>

text \<open>The outcomes among the messages, with their workers.\<close>

fun gots :: "recv list \<Rightarrow> (nat \<times> outcome) list" where
  "gots [] = []"
| "gots (Got i o1 # evs) = (i, o1) # gots evs"
| "gots (_ # evs) = gots evs"

lemma those_map_Some: "(\<And>x. x \<in> set xs \<Longrightarrow> x \<noteq> None) \<Longrightarrow> those xs = Some (map the xs)"
  by (induction xs) (auto split: option.split)

lemma collect_all:
  assumes "Disconnected \<notin> set evs" and "distinct (map fst (gots evs))"
    and "fst ` set (gots evs) = {i. i < length outs \<and> outs ! i = None}" and "pending = length (gots evs)"
  shows "\<exists>results ticks. collect evs outs pending seconds = (Collected results, ticks) \<and> length results = length outs \<and>
    (\<forall>i < length outs. results ! i = (case outs ! i of Some o1 \<Rightarrow> o1 | None \<Rightarrow> the (map_of (gots evs) i)))"
  using assms
proof (induction evs outs pending seconds rule: collect.induct)
  case (1 evs outs seconds)
  then have "gots evs = []" by simp
  then have none: "outs ! i \<noteq> None" if "i < length outs" for i using "1.prems"(3) that by auto
  then have "those outs = Some (map the outs)" by (intro those_map_Some) (auto simp: in_set_conv_nth)
  then show ?case using none by (auto split: option.split) (metis not_None_eq)
next
  case (3 i o1 evs outs pending seconds)
  have i: "i < length outs" "outs ! i = None" using "3.prems"(3) by auto
  have "fst ` set (gots evs) = {j. j < length (outs[i := Some o1]) \<and> outs[i := Some o1] ! j = None}"
    using "3.prems"(2,3) i by (auto simp: nth_list_update)
  from "3.IH" [OF i(1) _ _ this] "3.prems" i obtain results ticks where
    C: "collect evs (outs[i := Some o1]) pending seconds = (Collected results, ticks)" "length results = length outs"
      "\<forall>j < length outs. results ! j = (case outs[i := Some o1] ! j of Some o1 \<Rightarrow> o1 | None \<Rightarrow> the (map_of (gots evs) j))"
    by auto
  then show ?case using i by (auto simp: nth_list_update split: option.splits)
next
  case (4 evs outs pending seconds)
  from "4.IH" "4.prems" obtain results ticks where
    C: "collect evs outs (Suc pending) (seconds + 1) = (Collected results, ticks)" "length results = length outs"
      "\<forall>i < length outs. results ! i = (case outs ! i of Some o1 \<Rightarrow> o1 | None \<Rightarrow> the (map_of (gots evs) i))"
    by auto
  then show ?case by (intro exI [of _ results] exI [of _ "(seconds + 1) # ticks"]) (simp split: option.split)
qed auto

lemma collect_returns:
  assumes "Disconnected \<notin> set evs" and "distinct (map fst (gots evs))" and "fst ` set (gots evs) = {..<n}"
  shows "\<exists>results ticks. collect evs (replicate n None) n 0 = (Collected results, ticks) \<and> length results = n \<and>
    (\<forall>i o1. (i, o1) \<in> set (gots evs) \<longrightarrow> results ! i = o1)"
proof -
  have "n = length (gots evs)"
    using assms(2,3) by (metis card_lessThan distinct_card length_map list.set_map)
  moreover have "fst ` set (gots evs) =
      {i. i < length (replicate n (None :: outcome option)) \<and> replicate n None ! i = (None :: outcome option)}"
    using assms(3) by auto
  ultimately obtain results ticks where "collect evs (replicate n None) n 0 = (Collected results, ticks)"
    "length results = n" "\<forall>i < n. results ! i = the (map_of (gots evs) i)"
    using collect_all [OF assms(1,2), of "replicate n None" n 0] by auto
  moreover have "i < n" if "(i, o1) \<in> set (gots evs)" for i o1 using that assms(3) by force
  ultimately show ?thesis using assms(2) by auto
qed

text \<open>
  C17. \<^verbatim>\<open>Engine::run\<close> returns every worker's outcome. Whatever the order in which the
  workers finish, and however many seconds pass in between: once each of the \<open>n\<close> workers
  has sent its outcome, \<^verbatim>\<open>run\<close> returns, with one outcome for each worker, in worker order;
  and the command for worker \<open>i\<close> went to worker \<open>i\<close>.
\<close>

theorem engine_run_returns:
  assumes "length commands = n" and "Disconnected \<notin> set evs"
    and "distinct (map fst (gots evs))" and "fst ` set (gots evs) = {..<n}"
  shows "\<exists>results ticks. engine_run n commands evs = (zip [0..<n] commands, Collected results, ticks) \<and> length results = n \<and>
    (\<forall>i o1. (i, o1) \<in> set (gots evs) \<longrightarrow> results ! i = o1)"
  using collect_returns [OF assms(2-4)] assms(1) by (auto simp: engine_run_def)

lemma engine_run_returns_witness:
  "\<exists>results ticks. engine_run 2 [CStop, CStop] [RecvTimeout, Got 1 (ODial lat_default), Got 0 (OEcho lat_default)] =
     ([(0, CStop), (1, CStop)], Collected results, ticks) \<and> results ! 0 = OEcho lat_default \<and> results ! 1 = ODial lat_default"
  using engine_run_returns [of "[CStop, CStop]" 2 "[RecvTimeout, Got 1 (ODial lat_default), Got 0 (OEcho lat_default)]"]
  by (auto simp: upt_rec lessThan_Suc numeral_2_eq_2)

end
