(* ===== verification/Plan.thy ===== *)
theory Plan
  imports Prelude
begin

text \<open>
  How \<^verbatim>\<open>benchcli-rust/src/main.rs\<close> shares the work out: \<^verbatim>\<open>rate_batch\<close>, the batch and
  the tick rate of \<^verbatim>\<open>BenchMultiplex\<close>; \<^verbatim>\<open>split\<close> and \<^verbatim>\<open>split_by\<close>, the parts of a total
  that go to the workers. The arithmetic on totals is that of a release build, which
  wraps at 64 bits.
\<close>

definition mul64 :: "nat \<Rightarrow> nat \<Rightarrow> nat" where
  "mul64 a b = a * b mod 2 ^ 64"

lemma mul64_exact: "a * b < 2 ^ 64 \<Longrightarrow> mul64 a b = a * b"
  by (simp add: mul64_def)

definition sub64 :: "nat \<Rightarrow> nat \<Rightarrow> nat" where
  "sub64 a b = (if b \<le> a then a - b else a + 2 ^ 64 - b)"

definition sum64 :: "nat list \<Rightarrow> nat" where
  "sum64 xs = sum_list xs mod 2 ^ 64"

lemma sub64_exact: "b \<le> a \<Longrightarrow> sub64 a b = a - b"
  by (simp add: sub64_def)

lemma sum64_exact: "sum_list xs < 2 ^ 64 \<Longrightarrow> sum64 xs = sum_list xs"
  by (simp add: sum64_def)

subsection \<open>The batch\<close>

text \<open>\<^verbatim>\<open>while batch > 1 && rate % batch != 0 { batch -= 1; }\<close>\<close>

fun fit_batch :: "nat \<Rightarrow> nat \<Rightarrow> nat" where
  "fit_batch rate batch =
     (if 1 < batch \<and> rate mod batch \<noteq> 0 then fit_batch rate (batch - 1) else batch)"

declare fit_batch.simps [simp del]

definition rate_batch :: "nat \<Rightarrow> nat \<Rightarrow> nat \<Rightarrow> nat \<Rightarrow> string + nat \<times> nat" where
  "rate_batch rb rate rbs payload =
     (if 0 < rb then
        if rate mod rb \<noteq> 0 then
          Inl (''batch '' @ show_nat rb @ '' does not divide the send rate '' @ show_nat rate @
               '', so no whole number of bursts a second sends it; pick a divisor of '' @ show_nat rate)
        else Inr (rb, rate div rb)
      else
        (let batch = fit_batch rate (max (rbs div max payload 1) 1)
         in Inr (batch, rate div batch)))"

lemma fit_batch_spec:
  "1 \<le> b \<Longrightarrow> fit_batch rate b dvd rate \<and> 1 \<le> fit_batch rate b \<and> fit_batch rate b \<le> b \<and>
     (\<forall>d. d dvd rate \<and> d \<le> b \<longrightarrow> d \<le> fit_batch rate b)"
proof (induction rate b rule: fit_batch.induct)
  case (1 rate b)
  show ?case
  proof (cases "1 < b \<and> rate mod b \<noteq> 0")
    case True
    then have "1 \<le> b - 1" by linarith
    with True have IH: "fit_batch rate (b - 1) dvd rate \<and> 1 \<le> fit_batch rate (b - 1) \<and> fit_batch rate (b - 1) \<le> b - 1 \<and>
       (\<forall>d. d dvd rate \<and> d \<le> b - 1 \<longrightarrow> d \<le> fit_batch rate (b - 1))" using "1.IH" by blast
    have "d \<le> b - 1" if "d dvd rate" "d \<le> b" for d
      using that True by (cases "d = b") (auto simp: dvd_eq_mod_eq_0)
    moreover have "fit_batch rate b = fit_batch rate (b - 1)" by (subst fit_batch.simps) (use True in simp)
    ultimately show ?thesis using IH True by auto
  next
    case False
    then have "b dvd rate" using "1.prems" by (cases "b = 1") (auto simp: dvd_eq_mod_eq_0)
    moreover have "fit_batch rate b = b" by (subst fit_batch.simps) (use False in auto)
    ultimately show ?thesis using "1.prems" by auto
  qed
qed

text \<open>
  C14. The batch of \<^verbatim>\<open>BenchMultiplex\<close> sends the rate asked for. When \<^verbatim>\<open>rate_batch\<close>
  gives a batch and a number of bursts a second, their product is the send rate, so
  no request is lost to rounding. It refuses exactly a \<^verbatim>\<open>-rb\<close> that does not divide the
  rate. With \<^verbatim>\<open>-rb=0\<close> it takes the largest divisor of the rate that fits into \<^verbatim>\<open>-rbs\<close>
  bytes of request bodies, or one.
\<close>

theorem rate_batch_exact:
  "case rate_batch rb rate rbs payload of
     Inl e \<Rightarrow> 0 < rb \<and> \<not> rb dvd rate
   | Inr (batch, bursts) \<Rightarrow>
       batch * bursts = rate \<and> 1 \<le> batch \<and>
       (if 0 < rb then batch = rb
        else batch \<le> max (rbs div max payload 1) 1 \<and>
             (\<forall>d. d dvd rate \<and> d \<le> max (rbs div max payload 1) 1 \<longrightarrow> d \<le> batch))"
proof (cases "0 < rb")
  case True
  then show ?thesis by (auto simp: rate_batch_def dvd_eq_mod_eq_0)
next
  case False
  define m where "m = max (rbs div max payload 1) 1"
  then have "1 \<le> m" by simp
  from fit_batch_spec [OF this, of rate] False show ?thesis
    unfolding rate_batch_def Let_def m_def by (simp add: dvd_mult_div_cancel)
qed

lemma rate_batch_exact_witness:
  "rate_batch 0 200 16384 1024 = Inr (10, 20) \<and> 10 * 20 = (200 :: nat)"
proof -
  have "rate_batch 0 200 16384 1024 = Inr (10, 20)"
    by (simp add: rate_batch_def Let_def fit_batch.simps)
  then show ?thesis using rate_batch_exact [of 0 200 16384 1024] by simp
qed

subsection \<open>The parts of a total\<close>

definition split_parts :: "nat \<Rightarrow> nat \<Rightarrow> nat list" where
  "split_parts tot n = map (\<lambda>i. sub64 (mul64 tot (i + 1) div n) (mul64 tot i div n)) [0..<n]"

fun spread :: "nat \<Rightarrow> nat list \<Rightarrow> nat list \<Rightarrow> nat list" where
  "spread left (p # ps) (h # hs) =
     (if left = 0 then p # ps
      else if p < h then (p + 1) # spread (left - 1) ps hs
      else p # spread left ps hs)"
| "spread left ps hs = ps"

definition split_by :: "nat \<Rightarrow> nat list \<Rightarrow> nat list" where
  "split_by tot holds =
     (let sum = sum64 holds in
      if sum = 0 then replicate (length holds) 0
      else
        (let tot = min tot sum;
             parts = map (\<lambda>h. mul64 tot h div sum) holds
         in spread (sub64 tot (sum64 parts)) parts holds))"

lemma sum_telescope:
  fixes f :: "nat \<Rightarrow> nat"
  assumes "\<And>i. i < n \<Longrightarrow> f i \<le> f (Suc i)"
  shows "sum_list (map (\<lambda>i. f (i + 1) - f i) [0..<n]) + f 0 = f n"
  using assms
proof (induction n)
  case (Suc n)
  then have "sum_list (map (\<lambda>i. f (i + 1) - f i) [0..<n]) + f 0 = f n" "f n \<le> f (Suc n)" by simp_all
  then show ?case by simp
qed simp

lemma div_step:
  fixes a b n :: nat
  assumes "0 < n"
  shows "a div n \<le> (b + a) div n - b div n" and "(b + a) div n - b div n \<le> a div n + 1"
proof -
  have "(b + a) div n = b div n + a div n + (b mod n + a mod n) div n" by (rule div_add1_eq)
  moreover have "(b mod n + a mod n) div n \<le> 1"
  proof -
    have "b mod n < n" "a mod n < n" using assms by simp_all
    then have "b mod n + a mod n < 2 * n" by linarith
    then have "(b mod n + a mod n) div n < 2" by (simp only: div_less_iff_less_mult [OF assms])
    then show ?thesis by simp
  qed
  ultimately show "a div n \<le> (b + a) div n - b div n" "(b + a) div n - b div n \<le> a div n + 1" by simp_all
qed

lemma split_parts_eq:
  assumes "0 < n" and "tot * n < 2 ^ 64"
  shows "split_parts tot n = map (\<lambda>i. tot * (i + 1) div n - tot * i div n) [0..<n]"
  unfolding split_parts_def
proof (rule map_cong [OF refl])
  fix i assume "i \<in> set [0..<n]"
  then have "tot * i \<le> tot * n" "tot * (i + 1) \<le> tot * n" by (auto intro!: mult_le_mono2 simp del: mult_Suc_right)
  then have le: "tot * i < 2 ^ 64" "tot * (i + 1) < 2 ^ 64" using assms(2) by linarith+
  moreover have "tot * i div n \<le> tot * (i + 1) div n" by (intro div_le_mono) simp
  ultimately show "sub64 (mul64 tot (i + 1) div n) (mul64 tot i div n) = tot * (i + 1) div n - tot * i div n"
    using mul64_exact [OF le(1)] mul64_exact [OF le(2)] by (simp add: sub64_exact)
qed

lemma split_parts_sum:
  assumes "0 < n" and "tot * n < 2 ^ 64"
  shows "sum_list (split_parts tot n) = tot"
proof -
  have "tot * i div n \<le> tot * (i + 1) div n" for i by (intro div_le_mono) simp
  then have "sum_list (split_parts tot n) + tot * 0 div n = tot * n div n"
    unfolding split_parts_eq [OF assms] by (intro sum_telescope) simp
  then show ?thesis using assms(1) by simp
qed

lemma split_parts_share:
  assumes "0 < n" and "tot * n < 2 ^ 64" and "p \<in> set (split_parts tot n)"
  shows "tot div n \<le> p \<and> p \<le> tot div n + 1"
proof -
  obtain i where p: "p = tot * (i + 1) div n - tot * i div n"
    using assms(3) split_parts_eq [OF assms(1,2)] by auto
  have "tot * (i + 1) = tot * i + tot" by simp
  then show ?thesis unfolding p using div_step [OF assms(1), where a = tot and b = "tot * i"] by (simp only:)
qed

text \<open>The products of \<^verbatim>\<open>split\<close> do not wrap.\<close>

definition split_fits :: "nat \<Rightarrow> nat \<Rightarrow> bool" where
  "split_fits tot n \<longleftrightarrow> 0 < n \<and> tot * n < 2 ^ 64"

interpretation worker_split: even_split split_fits split_parts
proof unfold_locales
  show "tot div n \<le> p \<and> p \<le> tot div n + 1" if "split_fits tot n" "p \<in> set (split_parts tot n)" for tot n p
    using that by (intro split_parts_share) (simp_all add: split_fits_def)
qed (simp add: split_parts_def, simp add: split_fits_def split_parts_sum)

text \<open>
  C15. \<^verbatim>\<open>split\<close> shares a total out evenly: the parts come to the total, there is one
  for each worker, and every part is the rounded-down share or one more, so that no
  worker has two more than another, and none goes without when there is one for each.
  The total times the number of workers has to fit into 64 bits.
\<close>

theorem split_even:
  assumes "0 < n" and "tot * n < 2 ^ 64"
  shows "sum_list (split_parts tot n) = tot \<and> length (split_parts tot n) = n \<and>
         (\<forall>p \<in> set (split_parts tot n). tot div n \<le> p \<and> p \<le> tot div n + 1 \<and>
            (\<forall>q \<in> set (split_parts tot n). p \<le> q + 1) \<and> (n \<le> tot \<longrightarrow> 1 \<le> p))"
proof -
  have fits: "split_fits tot n" using assms by (simp add: split_fits_def)
  show ?thesis
    using worker_split.parts_sum [OF fits] worker_split.parts_length [of tot n] worker_split.parts_share [OF fits]
      worker_split.balanced [OF fits] worker_split.everyone [OF fits] by blast
qed

lemma split_even_witness: "sum_list (split_parts 10 3) = 10 \<and> split_parts 10 3 = [3, 3, 4]"
  using split_even [of 3 10] by (simp add: split_parts_def mul64_def sub64_def upt_rec)

text \<open>Spreading what is left over: one more for each part that is below what its worker holds.\<close>

lemma spread_spec:
  "length ps = length hs \<Longrightarrow> list_all2 (\<le>) ps hs \<Longrightarrow> left \<le> sum_list (map2 (\<lambda>p h. if p < h then 1 else 0) ps hs) \<Longrightarrow>
     sum_list (spread left ps hs) = sum_list ps + left \<and>
     list_all2 (\<le>) (spread left ps hs) hs \<and>
     list_all2 (\<lambda>p q. p \<le> q \<and> q \<le> p + 1) ps (spread left ps hs)"
proof (induction left ps hs rule: spread.induct)
  case (1 left p ps h hs)
  show ?case
  proof (cases "left = 0")
    case True
    then show ?thesis using "1.prems" by (auto simp: list.rel_refl)
  next
    case nz: False
    show ?thesis
    proof (cases "p < h")
      case True
      with "1.IH"(1) [OF nz True] "1.prems" nz show ?thesis by auto
    next
      case False
      with "1.IH"(2) [OF nz False] "1.prems" nz show ?thesis by auto
    qed
  qed
qed auto

lemma sum_list_div_le:
  fixes f :: "'a \<Rightarrow> nat"
  shows "sum_list (map (\<lambda>x. f x div n) xs) \<le> sum_list (map f xs) div n"
proof (induction xs)
  case (Cons x xs)
  have "f x div n + sum_list (map f xs) div n \<le> (f x + sum_list (map f xs)) div n"
    by (subst div_add1_eq) (rule le_add1)
  with Cons.IH show ?case unfolding list.map sum_list.Cons by linarith
qed simp

text \<open>What is lost to rounding down is less than the number of parts that are not whole.\<close>

lemma sum_list_div_ge:
  fixes f :: "'a \<Rightarrow> nat"
  assumes "0 < n"
  shows "sum_list (map f xs) \<le> n * sum_list (map (\<lambda>x. f x div n) xs) +
           n * sum_list (map (\<lambda>x. if f x mod n \<noteq> 0 then 1 else 0) xs)"
proof (induction xs)
  case (Cons x xs)
  have "f x \<le> n * (f x div n) + n * (if f x mod n \<noteq> 0 then 1 else 0)"
  proof (cases "f x mod n = 0")
    case True
    then show ?thesis using mult_div_mod_eq [of n "f x"] by linarith
  next
    case False
    then show ?thesis using mod_less_divisor [OF assms, of "f x"] mult_div_mod_eq [of n "f x"] by (simp only: not_False_eq_True if_True)
  qed
  with Cons show ?case by (simp add: algebra_simps)
qed simp

lemma shares_sum_le:
  fixes holds :: "nat list"
  assumes "sum_list holds \<noteq> 0"
  shows "sum_list (map (\<lambda>h. t * h div sum_list holds) holds) \<le> t"
proof -
  have "sum_list (map (\<lambda>h. t * h div sum_list holds) holds) \<le> t * sum_list holds div sum_list holds"
    using sum_list_div_le [of "\<lambda>h. t * h" "sum_list holds" holds] by (simp add: sum_list_const_mult)
  then show ?thesis using assms by simp
qed

text \<open>Where the square of what is held fits into 64 bits, nothing wraps.\<close>

lemma split_by_exact:
  assumes "sum_list holds * sum_list holds < 2 ^ 64" and "t = min tot (sum_list holds)" and "sum_list holds \<noteq> 0"
  shows "split_by tot holds =
    (let ps = map (\<lambda>h. t * h div sum_list holds) holds in spread (t - sum_list ps) ps holds)"
proof -
  let ?sm = "sum_list holds" and ?ps = "map (\<lambda>h. t * h div sum_list holds) holds"
  have "?sm * 1 \<le> ?sm * ?sm" using assms(3) by (intro mult_le_mono2) linarith
  then have sm: "?sm < 2 ^ 64" using assms(1) by linarith
  have "mul64 t h = t * h" if "h \<in> set holds" for h
  proof (rule mul64_exact)
    have "h \<le> ?sm" using that by (rule member_le_sum_list) simp
    then have "t * h \<le> ?sm * ?sm" using assms(2) by (intro mult_le_mono) simp_all
    then show "t * h < 2 ^ 64" using assms(1) by linarith
  qed
  then have ps: "map (\<lambda>h. mul64 t h div ?sm) holds = ?ps" by simp
  have "sum_list ?ps \<le> t" by (rule shares_sum_le [OF assms(3)])
  moreover have "t \<le> ?sm" using assms(2) by simp
  ultimately have "sub64 t (sum64 ?ps) = t - sum_list ?ps" using sm by (simp add: sum64_exact sub64_exact)
  then show ?thesis
    unfolding split_by_def Let_def sum64_exact [OF sm] assms(2) [symmetric] ps using assms(3) by (simp only: if_False)
qed

text \<open>
  C16. \<^verbatim>\<open>split_by\<close> shares a total out in proportion. The parts come to the total, or to
  all the workers hold when that is less; no worker gets more than it holds; and each
  part is its proportional share \<open>total * holds / sum\<close> rounded down, or one more. The
  code's wrapping product has to fit into 64 bits.
\<close>

theorem split_by_proportional:
  assumes "sum_list holds * sum_list holds < 2 ^ 64" and "t = min tot (sum_list holds)"
  shows "sum_list (split_by tot holds) = t \<and> list_all2 (\<le>) (split_by tot holds) holds \<and>
         list_all2 (\<lambda>h p. t * h div sum_list holds \<le> p \<and> p \<le> t * h div sum_list holds + 1)
           holds (split_by tot holds)"
proof (cases "sum_list holds = 0")
  case True
  then have "\<forall>h \<in> set holds. h = 0" by simp
  moreover have "t = 0" "split_by tot holds = replicate (length holds) 0"
    using True assms(2) unfolding split_by_def sum64_def by (simp_all only: min_0R Let_def simp_thms if_True mod_0)
  ultimately show ?thesis by (simp add: list_all2_conv_all_nth sum_list_replicate)
next
  case False
  define sm where "sm = sum_list holds"
  define ps where "ps = map (\<lambda>h. t * h div sm) holds"
  have sm: "0 < sm" "t \<le> sm" using False assms(2) unfolding sm_def by linarith+
  have eq: "split_by tot holds = spread (t - sum_list ps) ps holds"
    unfolding ps_def sm_def using split_by_exact [OF assms False] by (simp only: Let_def)
  have le: "t * h div sm \<le> h" for h
  proof -
    have "t * h div sm \<le> sm * h div sm" using sm by (intro div_le_mono mult_le_mono1)
    then show ?thesis using sm by simp
  qed
  then have le2: "list_all2 (\<le>) ps holds" by (simp add: ps_def list_all2_conv_all_nth)
  have lt: "t * h div sm < h" if "t * h mod sm \<noteq> 0" for h
  proof (rule ccontr)
    assume "\<not> t * h div sm < h"
    then have "h * sm \<le> t * h" using le [of h] sm(1) by (simp add: less_eq_div_iff_mult_less_eq [symmetric])
    moreover have "t * h \<le> sm * h" using sm(2) by (rule mult_le_mono1)
    ultimately have "t * h = sm * h" by (simp only: mult.commute [of h sm])
    then have "t * h mod sm = 0" by (simp only: mod_mult_self1_is_0)
    then show False using that by contradiction
  qed
  have "t * sm \<le> sm * sum_list ps + sm * sum_list (map (\<lambda>h. if t * h mod sm \<noteq> 0 then 1 else 0) holds)"
    using sum_list_div_ge [OF sm(1), of "\<lambda>h. t * h" holds] by (simp add: ps_def sum_list_const_mult sm_def)
  then have "sm * t \<le> sm * (sum_list ps + sum_list (map (\<lambda>h. if t * h mod sm \<noteq> 0 then 1 else 0) holds))"
    by (simp add: algebra_simps)
  then have "t \<le> sum_list ps + sum_list (map (\<lambda>h. if t * h mod sm \<noteq> 0 then 1 else 0) holds)" using sm(1) by simp
  also have "sum_list (map (\<lambda>h. if t * h mod sm \<noteq> 0 then 1 else 0) holds) \<le>
      (sum_list (map2 (\<lambda>p h. if p < h then 1 else 0) ps holds) :: nat)"
    using lt unfolding ps_def by (induction holds) auto
  finally have left: "t - sum_list ps \<le> sum_list (map2 (\<lambda>p h. if p < h then 1 else 0) ps holds)" by simp
  have "sum_list ps \<le> t" unfolding ps_def sm_def by (rule shares_sum_le [OF False])
  with spread_spec [OF _ le2 left] show ?thesis
    by (simp add: eq ps_def sm_def list_all2_map1)
qed

lemma split_by_proportional_witness:
  "split_by 3 [1, 10] = [1, 2] \<and> sum_list (split_by 3 [1, 10]) = 3 \<and> list_all2 (\<le>) (split_by 3 [1, 10]) [1, 10]"
proof -
  have "split_by 3 [1, 10] = [1, 2]" by (simp add: split_by_def Let_def mul64_def sum64_def sub64_def)
  then show ?thesis using split_by_proportional [of "[1, 10]" 3 3] by simp
qed

end
