(* ===== verification/Stats.thy ===== *)
theory Stats
  imports Latencies Float64 "HOL-Library.Signed_Division"
begin

text \<open>
  The summary of a benchmark, the rest of \<^verbatim>\<open>benchcli-rust/src/stats.rs\<close>:
  \<^verbatim>\<open>summarize\<close> with its percentiles computed in \<^verbatim>\<open>f64\<close>, and the two functions that
  print a time and an amount of memory.
\<close>

subsection \<open>The summary\<close>

record summary =
  s_tps :: int
  s_min :: int
  s_avg :: int
  s_max :: int
  s_tp50 :: int
  s_tp75 :: int
  s_tp90 :: int
  s_tp95 :: int
  s_tp99 :: int

text \<open>The closure \<^verbatim>\<open>tpn\<close>, on the sorted costs.\<close>

definition tpn_index :: "nat \<Rightarrow> nat \<Rightarrow> nat" where
  "tpn_index p n = f64_as_usize (fmul (fdiv (f64_of_nat p) 100) (f64_of_nat n))"

definition tpn :: "int list \<Rightarrow> nat \<Rightarrow> int" where
  "tpn cs p =
     (if cs = [] then 0 else cs ! min (tpn_index p (length cs)) (length cs - 1))"

text \<open>The sum is taken in \<^verbatim>\<open>i128\<close>, which holds any sum of fewer than \<open>2 ^ 64\<close> costs.\<close>

definition average :: "int list \<Rightarrow> int" where
  "average cs =
     (if cs = [] then 0 else as_i64 (sum_list cs sdiv int (length cs)))"

definition summarize :: "latencies \<Rightarrow> duration \<Rightarrow> latencies \<times> summary" where
  "summarize l used =
     (let cs = sort (costs l); l' = l\<lparr>costs := cs\<rparr>; used_s = as_secs_f64 used
      in (l', \<lparr>s_tps = (if 0 < used_s then f64_as_i64 (fdiv (f64_of_int (success l)) used_s) else 0),
               s_min = (case cs of [] \<Rightarrow> 0 | c # _ \<Rightarrow> c),
               s_avg = average cs,
               s_max = (if cs = [] then 0 else last cs),
               s_tp50 = tpn cs 50, s_tp75 = tpn cs 75, s_tp90 = tpn cs 90,
               s_tp95 = tpn cs 95, s_tp99 = tpn cs 99\<rparr>))"

subsection \<open>Printing\<close>

text \<open>
  \<^verbatim>\<open>{:.2}\<close> of a non-negative \<^verbatim>\<open>f64\<close>: the exact value rounded to hundredths, ties to even.
\<close>

definition show_hundredths :: "nat \<Rightarrow> string" where
  "show_hundredths k = show_nat (k div 100) @ ''.'' @ [digit_char (k mod 100 div 10), digit_char (k mod 10)]"

definition show_fixed2 :: "f64 \<Rightarrow> string" where
  "show_fixed2 x = show_hundredths (nat (round_half_even (x * 100)))"

definition time_string :: "int \<Rightarrow> string" where
  "time_string ns =
     (if 1 \<le> ns sdiv 1000000000 then show_fixed2 (fdiv (f64_of_int ns) 1000000000) @ ''s''
      else if 1 \<le> ns sdiv 1000000 then show_fixed2 (fdiv (f64_of_int ns) 1000000) @ ''ms''
      else if 1 \<le> ns sdiv 1000 then show_fixed2 (fdiv (f64_of_int ns) 1000) @ ''us''
      else show_int ns @ ''ns'')"

definition mem_string :: "nat \<Rightarrow> string" where
  "mem_string bytes =
     (let b = f64_of_nat bytes in
      if 1 \<le> fdiv b (2 ^ 30) then show_fixed2 (fdiv b (2 ^ 30)) @ ''G''
      else if 1 \<le> fdiv b (2 ^ 20) then show_fixed2 (fdiv b (2 ^ 20)) @ ''M''
      else show_fixed2 (fdiv b (2 ^ 10)) @ ''K'')"

subsection \<open>The percentiles\<close>

text \<open>
  \<^verbatim>\<open>p as f64 / 100.0\<close> is close enough to \<open>p / 100\<close> for the percentiles the summary has.
\<close>

definition percents :: "nat list" where
  "percents = [50, 75, 90, 95, 99]"

lemma percent_near:
  assumes "p \<in> set percents"
  shows "\<bar>fdiv (f64_of_nat p) 100 - of_nat p / 100\<bar> * 2 ^ 54 < of_nat p / 100"
proof -
  have rnd: "fdiv (f64_of_nat p) 100 = of_int m * 2 powi (- 53)"
    if "p < 2 ^ 53" "1 / 2 \<le> (of_nat p / 100 :: rat)" "of_nat p / 100 < (1 :: rat)"
      "\<bar>of_nat p / 100 - of_int m * 2 powi (- 53)\<bar> < (2 powi (- 53) / 2 :: rat)" for m
  proof -
    have "f64_exp (of_nat p / 100) = - 53"
      using f64_exp_eq [of "- 1" "of_nat p / 100"] that(2,3) by (simp add: power_int_minus)
    then show ?thesis
      unfolding fdiv_def f64_of_nat_exact [OF that(1)]
      using that(2,4) by (intro f64_rnd_eqI) auto
  qed
  consider "p = 50" | "p = 75" | "p = 90" | "p = 95" | "p = 99" using assms by (auto simp: percents_def)
  then show ?thesis
  proof cases
    case 1
    then show ?thesis using rnd [of 4503599627370496] by (simp add: power_int_minus abs_if)
  next
    case 2
    then show ?thesis using rnd [of 6755399441055744] by (simp add: power_int_minus abs_if)
  next
    case 3
    then show ?thesis using rnd [of 8106479329266893] by (simp add: power_int_minus abs_if)
  next
    case 4
    then show ?thesis using rnd [of 8556839292003942] by (simp add: power_int_minus abs_if)
  next
    case 5
    then show ?thesis using rnd [of 8917127262193582] by (simp add: power_int_minus abs_if)
  qed
qed

text \<open>The index is the one the comment at the top of the file promises: rounding never moves it.\<close>

lemma tpn_index_exact:
  assumes p: "p \<in> set percents" and n: "0 < n" "n < 2 ^ 44"
  shows "tpn_index p n = p * n div 100"
proof -
  define c where "c = fdiv (f64_of_nat p) 100"
  define x where "x = c * of_nat n"
  define y where "y = (of_nat (p * n) / 100 :: rat)"
  have pn: "0 < p" "p < 100" using p by (auto simp: percents_def)
  have nn: "(0 :: rat) < of_nat n" using n(1) by simp
  have "n < 2 ^ 53" using n(2) by simp
  then have idx: "tpn_index p n = f64_as_usize (f64_rnd x)"
    by (simp add: tpn_index_def fmul_def c_def x_def f64_of_nat_exact)
  have "x - y = (c - of_nat p / 100) * of_nat n" by (simp add: x_def y_def algebra_simps)
  then have "\<bar>x - y\<bar> * 2 ^ 54 = \<bar>c - of_nat p / 100\<bar> * 2 ^ 54 * of_nat n" using nn by (simp add: abs_mult)
  also have "\<dots> < of_nat p / 100 * of_nat n"
    using percent_near [OF p] nn unfolding c_def by (rule mult_strict_right_mono)
  finally have near: "\<bar>x - y\<bar> * 2 ^ 54 < y" by (simp add: y_def)
  have "p * n < 100 * 2 ^ 44" using pn(2) n(2) by (intro mult_strict_mono) simp_all
  then have "(of_nat (p * n) :: rat) < of_nat (100 * 2 ^ 44)" by (simp only: of_nat_less_iff)
  then have y2: "y < 2 ^ 44" by (simp add: y_def)
  have "1 \<le> p * n" using pn(1) n(1) by (simp add: Suc_le_eq)
  then have "(of_nat 1 :: rat) \<le> of_nat (p * n)" by (simp only: of_nat_le_iff)
  then have y1: "1 / 100 \<le> y" by (simp add: y_def)
  have "\<lfloor>f64_rnd x\<rfloor> = int (p * n div 100)"
  proof (cases "100 dvd p * n")
    case True
    then obtain m where m: "p * n = 100 * m" by (elim dvdE)
    then have ym: "y = of_int (int m)" by (simp add: y_def del: of_nat_mult)
    have "m < 2 ^ 44" using y2 ym by (metis of_int_of_nat_eq of_nat_less_numeral_power_cancel_iff)
    moreover have "0 < m" using m pn n by (cases m) auto
    ultimately have "f64_rnd x = of_int (int m)"
      using near ym by (intro f64_rnd_near_int) auto
    then show ?thesis using m by simp
  next
    case False
    define q r where "q = p * n div 100" and "r = p * n mod 100"
    have r: "1 \<le> r" "r \<le> 99" using False by (auto simp: r_def dvd_eq_mod_eq_0 Suc_le_eq)
    have "p * n = 100 * q + r" by (simp add: q_def r_def)
    then have yq: "y = of_nat q + of_nat r / 100" by (simp add: y_def del: of_nat_mult)
    have rr: "1 / 100 \<le> (of_nat r / 100 :: rat)" "(of_nat r / 100 :: rat) \<le> 99 / 100" using r by simp_all
    have x2: "\<bar>x - y\<bar> < 1 / 1000" and xb: "1 / 200 \<le> x" "x \<le> 2 ^ 45" using near y1 y2 by (auto simp: abs_if split: if_splits)
    have "(2 :: rat) powi (- 1022) \<le> 2 powi (- 8)" by (rule power_int_increasing) simp_all
    then have "(2 :: rat) powi (- 1022) \<le> \<bar>x\<bar>" using xb(1) by (simp add: power_int_minus)
    from f64_rnd_rel [OF this] have "\<bar>f64_rnd x - x\<bar> \<le> 1 / 200" using xb by simp
    then have "of_nat q \<le> f64_rnd x" "f64_rnd x < of_nat q + 1" using x2 yq rr by (auto simp: abs_if split: if_splits)
    then show ?thesis by (simp add: floor_eq_iff q_def)
  qed
  moreover have "p * n div 100 < 2 ^ 64" using pn n by (auto simp: div_less_iff_less_mult intro: mult_strict_mono less_trans)
  ultimately show ?thesis by (simp add: idx f64_as_usize_def)
qed

lemma sorted_rank:
  fixes xs :: "'a::linorder list"
  assumes "sorted xs" and "i < length xs"
  shows "length (filter (\<lambda>c. c < xs ! i) xs) \<le> i" and "i < length (filter (\<lambda>c. c \<le> xs ! i) xs)"
proof -
  have "{j. j < length xs \<and> xs ! j < xs ! i} \<subseteq> {..<i}"
    using assms by (auto simp: sorted_iff_nth_mono not_less [symmetric])
  then have "card {j. j < length xs \<and> xs ! j < xs ! i} \<le> i"
    using card_mono [of "{..<i}"] by simp
  then show "length (filter (\<lambda>c. c < xs ! i) xs) \<le> i" by (simp add: length_filter_conv_card)
  have "{..i} \<subseteq> {j. j < length xs \<and> xs ! j \<le> xs ! i}"
    using assms by (auto simp: sorted_iff_nth_mono)
  then have "Suc i \<le> card {j. j < length xs \<and> xs ! j \<le> xs ! i}"
    using card_mono [of "{j. j < length xs \<and> xs ! j \<le> xs ! i}" "{..i}"] by simp
  then show "i < length (filter (\<lambda>c. c \<le> xs ! i) xs)" by (simp add: length_filter_conv_card)
qed

lemma length_filter_sort: "length (filter P (sort xs)) = length (filter P xs)"
  by (metis mset_filter mset_sort size_mset)

lemma tpn_sorted:
  assumes "p \<in> set percents" and "cs \<noteq> []" and "length cs < 2 ^ 44"
  shows "tpn cs p = cs ! (p * length cs div 100)" and "p * length cs div 100 < length cs"
proof -
  have n: "0 < length cs" using assms(2) by simp
  have "p < 100" using assms(1) by (auto simp: percents_def)
  then have "p * length cs < length cs * 100" using n by simp
  then show lt: "p * length cs div 100 < length cs" by (simp only: div_less_iff_less_mult)
  show "tpn cs p = cs ! (p * length cs div 100)"
    using assms lt by (simp add: tpn_def tpn_index_exact [OF assms(1) n assms(3)] min_def)
qed

text \<open>The percentiles of a summary, each with its percentage.\<close>

definition percentiles :: "summary \<Rightarrow> (nat \<times> int) list" where
  "percentiles s = zip percents [s_tp50 s, s_tp75 s, s_tp90 s, s_tp95 s, s_tp99 s]"

lemma percentiles_summarize:
  "(p, t) \<in> set (percentiles (snd (summarize l used))) \<Longrightarrow> p \<in> set percents \<and> t = tpn (sort (costs l)) p"
  by (auto simp: percentiles_def percents_def summarize_def Let_def)

text \<open>
  C11. The percentiles are percentiles. The value reported as TP\<open>p\<close>, worked out in
  \<^verbatim>\<open>f64\<close>, is the latency at index \<open>\<lfloor>p * n / 100\<rfloor>\<close> of the sorted ones, for any number
  \<open>n\<close> of successes a run can have: it is a latency that occurred, at most \<open>p\<close> percent of
  the latencies are smaller than it, and more than \<open>p\<close> percent are not larger.
\<close>

theorem percentile_rank:
  assumes "costs l \<noteq> []" and "length (costs l) < 2 ^ 44"
    and "(p, t) \<in> set (percentiles (snd (summarize l used)))"
  shows "t = sort (costs l) ! (p * length (costs l) div 100) \<and> t \<in> set (costs l) \<and>
    100 * length (filter (\<lambda>c. c < t) (costs l)) \<le> p * length (costs l) \<and>
    p * length (costs l) < 100 * length (filter (\<lambda>c. c \<le> t) (costs l))"
proof -
  let ?s = "sort (costs l)" and ?n = "length (costs l)"
  have ne: "?s \<noteq> []" using assms(1) by (metis set_empty set_sort)
  have p: "p \<in> set percents" and t: "t = tpn ?s p" using percentiles_summarize [OF assms(3)] by auto
  have ti: "t = ?s ! (p * ?n div 100)" and i: "p * ?n div 100 < length ?s"
    using tpn_sorted [OF p ne] assms(2) t by simp_all
  have "t \<in> set ?s" unfolding ti using i by (rule nth_mem)
  moreover have "length (filter (\<lambda>c. c < t) (costs l)) \<le> p * ?n div 100"
    "p * ?n div 100 < length (filter (\<lambda>c. c \<le> t) (costs l))"
    using sorted_rank [OF sorted_sort i] by (simp_all add: ti length_filter_sort)
  then have "length (filter (\<lambda>c. c < t) (costs l)) * 100 \<le> p * ?n"
    "p * ?n < length (filter (\<lambda>c. c \<le> t) (costs l)) * 100"
    by (simp_all only: less_eq_div_iff_mult_less_eq div_less_iff_less_mult)
  ultimately show ?thesis using ti by simp
qed

lemma percentile_rank_witness:
  "51 \<in> set [1..100 :: int] \<and> 100 * length (filter (\<lambda>c. c < 51) [1..100 :: int]) \<le> 50 * 100"
proof -
  let ?l = "lat_default\<lparr>costs := [1..100]\<rparr>"
  have "tpn (sort (costs ?l)) 50 = 51"
    using tpn_sorted(1) [of 50 "[1..100]"] by (simp add: percents_def sorted_sort_id nth_upto)
  then have "(50, 51) \<in> set (percentiles (snd (summarize ?l 2000000000)))"
    by (simp add: percentiles_def percents_def summarize_def Let_def)
  then show ?thesis using percentile_rank [of ?l 50 51] by simp
qed

lemma sorted_average:
  fixes cs :: "int list"
  assumes "cs \<noteq> []" and "\<And>c. c \<in> set cs \<Longrightarrow> lo \<le> c \<and> c \<le> hi"
  shows "lo \<le> sum_list cs sdiv int (length cs)" and "sum_list cs sdiv int (length cs) \<le> hi"
proof -
  have b: "lo * int (length cs) \<le> sum_list cs \<and> sum_list cs \<le> hi * int (length cs)"
    using assms(2)
  proof (induction cs)
    case (Cons c cs)
    then have "lo * int (length cs) \<le> sum_list cs \<and> sum_list cs \<le> hi * int (length cs)" "lo \<le> c \<and> c \<le> hi" by auto
    then show ?case by (simp add: algebra_simps)
  qed simp
  have n: "0 < int (length cs)" using assms(1) by simp
  define q where "q = sum_list cs sdiv int (length cs)"
  have "lo \<le> q \<and> q \<le> hi"
  proof (cases "0 \<le> sum_list cs")
    case True
    then have q: "q = sum_list cs div int (length cs)" using n by (simp add: q_def signed_divide_int_def sgn_if)
    then have "q * int (length cs) \<le> sum_list cs" using n by (simp add: div_times_less_eq_dividend minus_mod_eq_div_mult [symmetric])
    then have "q * int (length cs) \<le> hi * int (length cs)" using b by linarith
    then have "q \<le> hi" using n mult_le_cancel_right by auto
    moreover have "lo \<le> q" unfolding q using b n by (metis nonzero_mult_div_cancel_right not_less_iff_gr_or_eq zdiv_mono1)
    ultimately show ?thesis by simp
  next
    case False
    then have q: "q = - ((- sum_list cs) div int (length cs))" using n by (simp add: q_def signed_divide_int_def sgn_if)
    have c: "(- k) * int (length cs) div int (length cs) = - k" for k
      using n by (intro nonzero_mult_div_cancel_right) simp
    have "- sum_list cs \<le> (- lo) * int (length cs)" "(- hi) * int (length cs) \<le> - sum_list cs" using b by simp_all
    then have "(- sum_list cs) div int (length cs) \<le> - lo" "- hi \<le> (- sum_list cs) div int (length cs)"
      using zdiv_mono1 [OF _ n] c by metis+
    then show ?thesis by (simp add: q)
  qed
  then show "lo \<le> sum_list cs sdiv int (length cs)" "sum_list cs sdiv int (length cs) \<le> hi" by (simp_all add: q_def)
qed

text \<open>
  C12. A summary is consistent. The minimum and maximum are those of the latencies,
  the average is their exact mean, rounded towards zero, and lies between them, and
  the percentiles go up from the minimum to the maximum; with no success everything
  but the throughput is zero.
\<close>

theorem summary_ordered:
  assumes "s = snd (summarize l used)" and "length (costs l) < 2 ^ 44"
    and "list_all (\<lambda>c. - (2 ^ 63) \<le> c \<and> c < 2 ^ 63) (costs l)"
  shows "if costs l = [] then s\<lparr>s_tps := 0\<rparr> = \<lparr>s_tps = 0, s_min = 0, s_avg = 0, s_max = 0, s_tp50 = 0,
             s_tp75 = 0, s_tp90 = 0, s_tp95 = 0, s_tp99 = 0\<rparr>
         else s_min s = Min (set (costs l)) \<and> s_max s = Max (set (costs l)) \<and>
           s_avg s = sum_list (costs l) sdiv int (length (costs l)) \<and> s_min s \<le> s_avg s \<and> s_avg s \<le> s_max s \<and>
           sorted [s_min s, s_tp50 s, s_tp75 s, s_tp90 s, s_tp95 s, s_tp99 s, s_max s]"
proof (cases "costs l = []")
  case True
  then show ?thesis using assms(1) by (simp add: summarize_def average_def tpn_def Let_def)
next
  case False
  let ?s = "sort (costs l)" and ?n = "length (costs l)"
  have ne: "?s \<noteq> []" using False by (metis set_empty set_sort)
  have n: "0 < ?n" "length ?s = ?n" using False by simp_all
  have tp: "tpn ?s p = ?s ! (p * ?n div 100)" "p * ?n div 100 \<le> ?n - 1" if "p \<in> set percents" for p
    using tpn_sorted [OF that ne] assms(2) n by simp_all
  have mono: "?s ! i \<le> ?s ! j" if "i \<le> j" "j \<le> ?n - 1" for i j
  proof (rule sorted_nth_mono [OF sorted_sort that(1)])
    show "j < length ?s" using that(2) n by linarith
  qed
  have min: "s_min s = ?s ! 0" using assms(1) ne by (auto simp: summarize_def Let_def neq_Nil_conv)
  have max: "s_max s = ?s ! (?n - 1)" using assms(1) ne n by (simp add: summarize_def Let_def last_conv_nth)
  have mem: "?s ! 0 \<in> set (costs l)" "?s ! (?n - 1) \<in> set (costs l)"
    using n nth_mem [of 0 ?s] nth_mem [of "?n - 1" ?s] by simp_all
  have ends: "?s ! 0 \<le> c \<and> c \<le> ?s ! (?n - 1)" if "c \<in> set (costs l)" for c
  proof -
    obtain i where i: "i < ?n" "?s ! i = c" using \<open>c \<in> set (costs l)\<close> n(2) by (metis in_set_conv_nth set_sort)
    then have "i \<le> ?n - 1" by simp
    then show ?thesis using mono [of 0 i] mono [of i "?n - 1"] i by auto
  qed
  have "sum_list ?s = sum_list (costs l)" by (metis mset_sort sum_mset_sum_list)
  then have avg: "s_avg s = as_i64 (sum_list (costs l) sdiv int ?n)"
    using assms(1) ne by (simp add: summarize_def Let_def average_def)
  note A = sorted_average [OF False ends]
  have r: "- (2 ^ 63) \<le> c \<and> c < 2 ^ 63" if "c \<in> set (costs l)" for c using assms(3) that by (simp add: list_all_iff)
  have "- (2 ^ 63) \<le> sum_list (costs l) sdiv int ?n" "sum_list (costs l) sdiv int ?n < 2 ^ 63"
    using A r [OF mem(1)] r [OF mem(2)] by linarith+
  then have avg': "s_avg s = sum_list (costs l) sdiv int ?n" by (simp add: avg as_i64_id)
  have "sorted [?s ! 0, tpn ?s 50, tpn ?s 75, tpn ?s 90, tpn ?s 95, tpn ?s 99, ?s ! (?n - 1)]"
    using tp mono by (simp add: percents_def div_le_mono)
  then have "sorted [s_min s, s_tp50 s, s_tp75 s, s_tp90 s, s_tp95 s, s_tp99 s, s_max s]"
    unfolding min max using assms(1) by (simp add: summarize_def Let_def)
  moreover have "s_min s = Min (set (costs l))" unfolding min using mem ends by (intro Min_eqI [symmetric]) auto
  moreover have "s_max s = Max (set (costs l))" unfolding max using mem ends by (intro Max_eqI [symmetric]) auto
  ultimately show ?thesis using False A avg' by (simp add: min max)
qed

lemma summary_ordered_witness:
  "let s = snd (summarize (lat_default\<lparr>costs := [5, 2, 9]\<rparr>) 1000000000) in s_min s = 2 \<and> s_max s = 9 \<and> s_avg s = 5"
  using summary_ordered [OF refl, of "lat_default\<lparr>costs := [5, 2, 9]\<rparr>" 1000000000]
  by (simp add: Let_def signed_divide_int_def)

subsection \<open>What is printed\<close>

lemma fdiv_near:
  assumes "0 < n" and "0 < u" and "1 / 2 ^ 20 \<le> of_int n / u"
  shows "\<bar>fdiv (f64_of_int n) u - of_int n / u\<bar> \<le> of_int n / u / 2 ^ 51"
proof -
  let ?n = "of_int n :: rat"
  have tiny: "(2 :: rat) powi (- 1022) \<le> 2 powi (- 21)" by (rule power_int_increasing) simp_all
  then have t: "(2 :: rat) powi (- 1022) \<le> 1 / 2 ^ 21" by (simp add: power_int_minus)
  have n1: "1 \<le> ?n" using assms(1) by simp
  then have "(2 :: rat) powi (- 1022) \<le> \<bar>?n\<bar>" using t by simp
  from f64_rnd_rel [OF this] have a: "\<bar>f64_of_int n - ?n\<bar> \<le> ?n / 2 ^ 53" using n1 by (simp add: f64_of_int_def)
  define y where "y = ?n / u"
  define x where "x = f64_of_int n / u"
  have "x - y = (f64_of_int n - ?n) / u" by (simp add: x_def y_def diff_divide_distrib)
  then have "\<bar>x - y\<bar> = \<bar>f64_of_int n - ?n\<bar> / u" using assms(2) by simp
  also have "\<dots> \<le> ?n / 2 ^ 53 / u" using divide_right_mono [OF a, of u] assms(2) by simp
  finally have xy: "\<bar>x - y\<bar> \<le> y / 2 ^ 53" by (simp add: y_def)
  have y: "1 / 2 ^ 20 \<le> y" using assms(3) by (simp add: y_def)
  have xb: "1 / 2 ^ 21 \<le> x" "x \<le> 2 * y" using xy y by (auto simp: abs_if split: if_splits)
  then have "(2 :: rat) powi (- 1022) \<le> \<bar>x\<bar>" using t by simp
  from f64_rnd_rel [OF this] have "\<bar>f64_rnd x - x\<bar> \<le> 2 * y / 2 ^ 53" using xb by simp
  then have "\<bar>f64_rnd x - y\<bar> \<le> y / 2 ^ 51" using xy y by (auto simp: abs_if split: if_splits)
  then show ?thesis by (simp add: fdiv_def x_def y_def)
qed

text \<open>The hundredths of a unit \<open>u\<close> that are printed for \<open>n\<close>.\<close>

definition hundredths :: "int \<Rightarrow> rat \<Rightarrow> nat" where
  "hundredths n u = nat (round_half_even (fdiv (f64_of_int n) u * 100))"

lemma hundredths_near:
  assumes "0 < n" and "0 < u" and "1 / 2 ^ 20 \<le> of_int n / u" and "of_int n / u \<le> 2 ^ 36"
  shows "\<bar>of_nat (hundredths n u) * u / 100 - of_int n\<bar> \<le> (1 / 200 + 1 / 20000) * u"
proof -
  let ?y = "of_int n / u" and ?z = "fdiv (f64_of_int n) u"
  have z: "\<bar>?z - ?y\<bar> \<le> 1 / 32768" using fdiv_near [OF assms(1-3)] assms(4) by simp
  have "\<bar>?z - ?y\<bar> \<le> ?y" using fdiv_near [OF assms(1-3)] assms(3) by simp
  then have "0 \<le> ?z" by linarith
  then have "0 \<le> round_half_even (?z * 100)" by (simp add: round_half_even_nonneg)
  then have "of_nat (hundredths n u) = (of_int (round_half_even (?z * 100)) :: rat)" by (simp add: hundredths_def)
  then have "\<bar>of_nat (hundredths n u) - ?z * 100\<bar> \<le> 1 / 2" using round_half_even_near [of "?z * 100"] by simp
  then have "\<bar>of_nat (hundredths n u) / 100 - ?y\<bar> \<le> 1 / 200 + 1 / 20000"
    using z by linarith
  then have "\<bar>of_nat (hundredths n u) / 100 - ?y\<bar> * u \<le> (1 / 200 + 1 / 20000) * u"
    using assms(2) by (intro mult_right_mono) simp_all
  moreover have "of_nat (hundredths n u) * u / 100 - of_int n = (of_nat (hundredths n u) / 100 - ?y) * u"
    using assms(2) by (simp add: left_diff_distrib)
  ultimately show ?thesis using assms(2) by (simp add: abs_mult)
qed

lemma sdiv_pos: "0 < u \<Longrightarrow> 1 \<le> n sdiv u \<longleftrightarrow> u \<le> n" for n u :: int
proof (cases "0 < n")
  case True
  assume "0 < u"
  with True show ?thesis by (simp add: signed_divide_int_def sgn_if) (metis pos_imp_zdiv_pos_iff zero_less_iff_neq_zero int_one_le_iff_zero_less)
next
  case False
  assume "0 < u"
  moreover have "0 \<le> (- n) div u" using False \<open>0 < u\<close> by (simp add: pos_imp_zdiv_nonneg_iff)
  ultimately show ?thesis using False by (auto simp: signed_divide_int_def sgn_if)
qed

text \<open>The units of a time, with the suffix each prints.\<close>

definition time_units :: "(int \<times> string) list" where
  "time_units = [(1000000000, ''s''), (1000000, ''ms''), (1000, ''us'')]"

text \<open>
  C13. A printed time is the time. Below a microsecond it is the exact number of
  nanoseconds; from there on it is a decimal in the largest of the units s, ms and
  us that is not larger than the time, and it differs from the time by less than
  0.00505 of that unit, half of the last digit printed and the rounding of \<^verbatim>\<open>f64\<close>.
\<close>

theorem time_string_accurate:
  assumes "ns < 2 ^ 63"
  shows "if ns < 1000 then time_string ns = show_int ns @ ''ns''
         else \<exists>u suffix k. (u, suffix) \<in> set time_units \<and> time_string ns = show_hundredths k @ suffix \<and>
           u \<le> ns \<and> (u = 1000000000 \<or> ns < 1000 * u) \<and>
           \<bar>of_nat k * of_int u / 100 - of_int ns\<bar> \<le> 101 / 20000 * (of_int u :: rat)"
proof (cases "ns < 1000")
  case True
  then show ?thesis by (simp add: time_string_def sdiv_pos)
next
  case False
  have near: "\<bar>of_nat (hundredths ns (of_int u)) * of_int u / 100 - of_int ns\<bar> \<le> 101 / 20000 * (of_int u :: rat)"
    if "0 < u" "u \<le> ns" "ns \<le> 10 ^ 10 * u" for u
  proof -
    have u: "0 < (of_int u :: rat)" using that by simp
    have "of_int u \<le> (of_int ns :: rat)" using that by simp
    then have "1 \<le> of_int ns / (of_int u :: rat)" using u by simp
    moreover have "(of_int ns :: rat) \<le> of_int (10 ^ 10 * u)" using that(3) by (simp only: of_int_le_iff)
    then have "of_int ns / (of_int u :: rat) \<le> 10 ^ 10" using u by (simp add: divide_le_eq)
    ultimately show ?thesis using hundredths_near [of ns "of_int u"] that u by simp
  qed
  have "ns \<le> 10 ^ 10 * 1000000000" using assms by simp
  then consider "1000000000 \<le> ns" | "1000000 \<le> ns" "ns < 1000000000" | "1000 \<le> ns" "ns < 1000000"
    using False by linarith
  then have "\<exists>u suffix. (u, suffix) \<in> set time_units \<and>
      time_string ns = show_hundredths (hundredths ns (of_int u)) @ suffix \<and> u \<le> ns \<and> (u = 1000000000 \<or> ns < 1000 * u)"
  proof cases
    case 1
    then show ?thesis
      by (intro exI [of _ 1000000000] exI [of _ "''s''"])
        (simp add: time_units_def time_string_def sdiv_pos show_fixed2_def hundredths_def)
  next
    case 2
    then show ?thesis
      by (intro exI [of _ 1000000] exI [of _ "''ms''"])
        (simp add: time_units_def time_string_def sdiv_pos show_fixed2_def hundredths_def)
  next
    case 3
    then show ?thesis
      by (intro exI [of _ 1000] exI [of _ "''us''"])
        (simp add: time_units_def time_string_def sdiv_pos show_fixed2_def hundredths_def)
  qed
  then obtain u suffix where U: "(u, suffix) \<in> set time_units"
      "time_string ns = show_hundredths (hundredths ns (of_int u)) @ suffix" "u \<le> ns" "u = 1000000000 \<or> ns < 1000 * u"
    by blast
  have "0 < u" using U(1) by (auto simp: time_units_def)
  moreover have "ns \<le> 10 ^ 10 * u" using U(4) \<open>0 < u\<close> \<open>ns \<le> 10 ^ 10 * 1000000000\<close> by auto
  ultimately show ?thesis using False U near [of u] by (simp only: if_False) blast
qed

lemma time_string_accurate_witness:
  "time_string 12 = ''12ns'' \<and> (\<exists>u suffix k. (u, suffix) \<in> set time_units \<and> time_string 2500000 = show_hundredths k @ suffix)"
proof
  have "show_int 12 @ ''ns'' = ''12ns''" by code_simp
  then show "time_string 12 = ''12ns''" using time_string_accurate [of 12] by simp
  show "\<exists>u suffix k. (u, suffix) \<in> set time_units \<and> time_string 2500000 = show_hundredths k @ suffix"
    using time_string_accurate [of 2500000] by auto
qed

end
