(* ===== verification/Bench.thy ===== *)
theory Bench
  imports Engine Plan Stats
begin

text \<open>
  The benchmarks as \<^verbatim>\<open>main\<close> of \<^verbatim>\<open>benchcli-rust/src/main.rs\<close> runs them over the engine: the
  commands each worker gets, and what is made of the outcomes. The theorems put the
  parts together: what the reports of \<^verbatim>\<open>Connections\<close> and \<^verbatim>\<open>BenchEcho\<close> count, over all
  workers, is what was asked for.
\<close>

subsection \<open>Commands and outcomes\<close>

definition dial_commands :: "nat \<Rightarrow> nat \<Rightarrow> nat \<Rightarrow> command list" where
  "dial_commands num_conns dial_conc threads =
     map (\<lambda>(num, conc). CDial num (if 0 < num then max conc 1 else 0))
       (zip (split_parts num_conns threads) (split_parts dial_conc threads))"

definition merge_dials :: "outcome list \<Rightarrow> latencies" where
  "merge_dials outcomes =
     foldl (\<lambda>lat o1. case o1 of ODial l \<Rightarrow> lat_merge lat l | _ \<Rightarrow> lat) lat_default outcomes"

text \<open>
  Each worker gets the job and its share of the concurrency; the job's counter is one
  for all of them and hands worker \<open>i\<close> the \<open>numbers i\<close>.
\<close>

definition echo_commands :: "echo_job \<Rightarrow> (nat \<Rightarrow> nat \<Rightarrow> nat) \<Rightarrow> nat list \<Rightarrow> command list" where
  "echo_commands job numbers concs =
     map (\<lambda>(i, c). CEcho (job\<lparr>ej_numbers := numbers i\<rparr>) c) (zip [0..<length concs] concs)"

definition merge_echoes :: "outcome list \<Rightarrow> latencies" where
  "merge_echoes outcomes =
     foldl (\<lambda>lat o1. case o1 of OEcho l \<Rightarrow> lat_merge lat l | _ \<Rightarrow> lat) lat_default outcomes"

definition rate_add :: "rate_counts \<Rightarrow> rate_counts \<Rightarrow> rate_counts" where
  "rate_add a c =
     a\<lparr>send_times := send_times a + send_times c, send_bytes := send_bytes a + send_bytes c,
       recv_times := recv_times a + recv_times c, recv_bytes := recv_bytes a + recv_bytes c\<rparr>"

definition merge_rates :: "outcome list \<Rightarrow> rate_counts" where
  "merge_rates outcomes =
     foldl (\<lambda>a o1. case o1 of ORate c \<Rightarrow> rate_add a c | _ \<Rightarrow> a) rate_counts_default outcomes"

subsection \<open>A benchmark on all workers\<close>

text \<open>A worker that runs a command to its end.\<close>

definition runs_command :: "('w, 's, 'q, 'h) deps \<Rightarrow> command \<Rightarrow> ('w, 's, 'q, 'h) worker \<Rightarrow>
    poll_ev list list \<Rightarrow> ('w, 's, 'q, 'h) worker \<Rightarrow> bool" where
  "runs_command D c w evss w' \<longleftrightarrow>
     reachable D w \<and> w_phase w = Idle \<and> w_phase w' = Idle \<and> iterate D evss w = Some w' \<and>
     (case evss of [] \<Rightarrow> False | evs # rest \<Rightarrow> commands_of evs = [c] \<and> list_all (\<lambda>e. commands_of e = []) rest)"

text \<open>All of them do, and each sends the outcome it ends with.\<close>

definition all_run :: "('w, 's, 'q, 'h) deps \<Rightarrow> command list \<Rightarrow> ('w, 's, 'q, 'h) worker list \<Rightarrow>
    poll_ev list list list \<Rightarrow> ('w, 's, 'q, 'h) worker list \<Rightarrow> recv list \<Rightarrow> bool" where
  "all_run D commands ws runs ws' msgs \<longleftrightarrow>
     length ws = length commands \<and> length runs = length commands \<and> length ws' = length commands \<and>
     (\<forall>i < length commands. runs_command D (commands ! i) (ws ! i) (runs ! i) (ws' ! i)) \<and>
     Disconnected \<notin> set msgs \<and> distinct (map fst (gots msgs)) \<and>
     set (gots msgs) = (\<lambda>i. (i, last (w_results (ws' ! i)))) ` {..<length commands}"

lemma all_run_collects:
  assumes "all_run D commands ws runs ws' msgs"
  shows "\<exists>results ticks. engine_run (length commands) commands msgs =
           (zip [0..<length commands] commands, Collected results, ticks) \<and> length results = length commands \<and>
           (\<forall>i < length commands. results ! i = last (w_results (ws' ! i)))"
proof -
  let ?n = "length commands"
  have g: "set (gots msgs) = (\<lambda>i. (i, last (w_results (ws' ! i)))) ` {..<?n}" "Disconnected \<notin> set msgs"
    "distinct (map fst (gots msgs))" using assms by (auto simp: all_run_def)
  have fst: "fst ` set (gots msgs) = {..<?n}" unfolding g(1) by force
  obtain results ticks where "collect msgs (replicate ?n None) ?n 0 = (Collected results, ticks)"
    "length results = ?n" "\<forall>i o1. (i, o1) \<in> set (gots msgs) \<longrightarrow> results ! i = o1"
    using collect_returns [OF g(2,3) fst] by blast
  moreover have "(i, last (w_results (ws' ! i))) \<in> set (gots msgs)" if "i < ?n" for i using that g(1) by simp
  ultimately show ?thesis by (auto simp: engine_run_def)
qed

lemma merge_counts:
  "success (foldl (\<lambda>lat o1. case sel o1 of Some l \<Rightarrow> lat_merge lat l | None \<Rightarrow> lat) l0 outcomes) +
     failed (foldl (\<lambda>lat o1. case sel o1 of Some l \<Rightarrow> lat_merge lat l | None \<Rightarrow> lat) l0 outcomes) =
   success l0 + failed l0 +
     sum_list (map (\<lambda>o1. case sel o1 of Some l \<Rightarrow> success l + failed l | None \<Rightarrow> 0) outcomes)"
  by (induction outcomes arbitrary: l0) (auto simp: lat_merge_def split: option.split)

fun dial_of :: "outcome \<Rightarrow> latencies option" where
  "dial_of (ODial l) = Some l" | "dial_of _ = None"

fun echo_of :: "outcome \<Rightarrow> latencies option" where
  "echo_of (OEcho l) = Some l" | "echo_of _ = None"

lemma merge_dials_counts:
  "success (merge_dials outcomes) + failed (merge_dials outcomes) =
     sum_list (map (\<lambda>o1. case dial_of o1 of Some l \<Rightarrow> success l + failed l | None \<Rightarrow> 0) outcomes)"
proof -
  have "(\<lambda>lat o1. case o1 of ODial l \<Rightarrow> lat_merge lat l | _ \<Rightarrow> lat) =
      (\<lambda>lat o1. case dial_of o1 of Some l \<Rightarrow> lat_merge lat l | None \<Rightarrow> lat)"
    by (intro ext) (simp split: outcome.split)
  then show ?thesis using merge_counts [of dial_of lat_default outcomes] by (simp add: merge_dials_def lat_default_def)
qed

lemma merge_echoes_counts:
  "success (merge_echoes outcomes) + failed (merge_echoes outcomes) =
     sum_list (map (\<lambda>o1. case echo_of o1 of Some l \<Rightarrow> success l + failed l | None \<Rightarrow> 0) outcomes)"
proof -
  have "(\<lambda>lat o1. case o1 of OEcho l \<Rightarrow> lat_merge lat l | _ \<Rightarrow> lat) =
      (\<lambda>lat o1. case echo_of o1 of Some l \<Rightarrow> lat_merge lat l | None \<Rightarrow> lat)"
    by (intro ext) (simp split: outcome.split)
  then show ?thesis using merge_counts [of echo_of lat_default outcomes] by (simp add: merge_echoes_def lat_default_def)
qed

lemma sum_outcomes:
  assumes "length results = n" and "\<And>i. i < n \<Longrightarrow> f (results ! i) = (g i :: int)"
  shows "sum_list (map f results) = (\<Sum>i<n. g i)"
  using assms by (simp add: sum_list_sum_nth atLeast0LessThan)

text \<open>
  C18. \<^verbatim>\<open>Connections\<close> reports every connection asked for. Whatever happens to the
  workers' sockets, in whatever order they finish: when each of them has run the
  command \<^verbatim>\<open>main\<close> sends it, the successes and failures of the merged outcomes, the
  numbers the report has, come to the number of connections.
\<close>

theorem connections_complete:
  assumes "fresh_streams D nxt" and "0 < threads" and "num_conns * threads < 2 ^ 64"
    and "dial_conc * threads < 2 ^ 64"
    and "all_run D (dial_commands num_conns dial_conc threads) ws runs ws' msgs"
  shows "\<exists>results ticks. engine_run threads (dial_commands num_conns dial_conc threads) msgs =
           (zip [0..<threads] (dial_commands num_conns dial_conc threads), Collected results, ticks) \<and>
         success (merge_dials results) + failed (merge_dials results) = int num_conns"
proof -
  let ?cmds = "dial_commands num_conns dial_conc threads" and ?counts = "split_parts num_conns threads"
  have len: "length ?counts = threads" "length (split_parts dial_conc threads) = threads"
    by (rule worker_split.parts_length)+
  then have n: "length ?cmds = threads" by (simp add: dial_commands_def)
  have cmd: "\<exists>conc. ?cmds ! i = CDial (?counts ! i) conc" if "i < threads" for i
    using that len by (simp add: dial_commands_def)
  obtain results ticks where R: "engine_run threads ?cmds msgs = (zip [0..<threads] ?cmds, Collected results, ticks)"
    "length results = threads" "\<forall>i < threads. results ! i = last (w_results (ws' ! i))"
    using all_run_collects [OF assms(5)] n by auto
  have "(case dial_of (results ! i) of Some l \<Rightarrow> success l + failed l | None \<Rightarrow> 0) = int (?counts ! i)"
    if i: "i < threads" for i
  proof -
    obtain conc where c: "?cmds ! i = CDial (?counts ! i) conc" using cmd [OF i] by blast
    have "runs_command D (?cmds ! i) (ws ! i) (runs ! i) (ws' ! i)" using assms(5) i n by (simp add: all_run_def)
    then obtain evs rest where "runs ! i = evs # rest" "commands_of evs = [CDial (?counts ! i) conc]"
      "\<forall>e \<in> set rest. commands_of e = []" "reachable D (ws ! i)" "w_phase (ws ! i) = Idle"
      "w_phase (ws' ! i) = Idle" "iterate D (evs # rest) (ws ! i) = Some (ws' ! i)"
      using c by (auto simp: runs_command_def list_all_iff split: list.splits)
    from dial_finished [OF assms(1) this(4,5,2,3,7,6)] R(3) i show ?thesis by auto
  qed
  then have "success (merge_dials results) + failed (merge_dials results) = (\<Sum>i<threads. int (?counts ! i))"
    unfolding merge_dials_counts by (intro sum_outcomes R(2))
  also have "\<dots> = int num_conns" using assms(2,3) by (intro worker_split.sum_parts) (simp add: split_fits_def)
  finally show ?thesis using R(1) by blast
qed

text \<open>How many round trips the workers that have a connection are handed: the counter's numbers, all of them.\<close>

lemma shared_numbers:
  fixes numbers :: "nat \<Rightarrow> nat \<Rightarrow> nat"
  assumes "finite P" and "\<And>i. i \<in> P \<Longrightarrow> strict_mono (numbers i)"
    and "\<And>n. n < limit \<Longrightarrow> \<exists>!p. fst p \<in> P \<and> numbers (fst p) (snd p) = n"
  shows "(\<Sum>i\<in>P. card {j. numbers i j < limit}) = limit"
proof -
  let ?A = "\<lambda>i. {j. numbers i j < limit}"
  have fin: "finite (?A i)" if "i \<in> P" for i
    using finite_subset [of "?A i" "{..<limit}"] strict_mono_imp_increasing [OF assms(2) [OF that]]
    by (auto intro: le_less_trans)
  have "bij_betw (\<lambda>(i, j). numbers i j) (SIGMA i:P. ?A i) {..<limit}"
  proof (rule bij_betwI')
    fix x y assume x: "x \<in> (SIGMA i:P. ?A i)" and y: "y \<in> (SIGMA i:P. ?A i)"
    then have "fst x \<in> P" "fst y \<in> P" "numbers (fst x) (snd x) < limit" by auto
    then have "numbers (fst x) (snd x) = numbers (fst y) (snd y) \<longleftrightarrow> x = y" using assms(3) by metis
    then show "(case x of (i, j) \<Rightarrow> numbers i j) = (case y of (i, j) \<Rightarrow> numbers i j) \<longleftrightarrow> x = y"
      by (simp only: split_def)
  next
    fix x assume "x \<in> (SIGMA i:P. ?A i)"
    then show "(case x of (i, j) \<Rightarrow> numbers i j) \<in> {..<limit}" by auto
  next
    fix n assume "n \<in> {..<limit}"
    then obtain p where "fst p \<in> P" "numbers (fst p) (snd p) = n" using assms(3) [of n] by auto
    then show "\<exists>x \<in> SIGMA i:P. ?A i. n = (case x of (i, j) \<Rightarrow> numbers i j)"
      using \<open>n \<in> {..<limit}\<close> by (cases p) (auto intro!: bexI [of _ p])
  qed
  then have "card (SIGMA i:P. ?A i) = limit" using bij_betw_same_card by fastforce
  then show ?thesis using assms(1) fin by (simp add: card_SigmaI)
qed

text \<open>
  C19. \<^verbatim>\<open>BenchEcho\<close> reports every round trip asked for, over all workers. The workers
  draw their round trips from one atomic counter, which hands out each number below
  \<^verbatim>\<open>times\<close> once, to one of the workers that have a connection to use, and goes up. Then,
  whatever the interleaving of the draws, the network and the order in which the workers
  finish, the successes and failures of the merged outcomes come to \<^verbatim>\<open>times\<close>.
\<close>

theorem echo_complete:
  assumes "fresh_streams D nxt" and "ej_payloads job \<noteq> []" and "ej_measure job" and "ej_issued job = 0"
    and "all_run D (echo_commands job numbers concs) ws runs ws' msgs"
    and "P = {i. i < length concs \<and> concs ! i \<noteq> 0 \<and> slots_where (\<lambda>_. True) (ws ! i) \<noteq> []}"
    and "\<forall>i < length concs. strict_mono (numbers i)"
    and "\<forall>n < ej_times job. \<exists>!p. fst p \<in> P \<and> numbers (fst p) (snd p) = n"
  shows "\<exists>results ticks. engine_run (length concs) (echo_commands job numbers concs) msgs =
           (zip [0..<length concs] (echo_commands job numbers concs), Collected results, ticks) \<and>
         success (merge_echoes results) + failed (merge_echoes results) = int (ej_times job)"
proof -
  let ?cmds = "echo_commands job numbers concs" and ?n = "length concs"
  have n: "length ?cmds = ?n" by (simp add: echo_commands_def)
  have cmd: "?cmds ! i = CEcho (job\<lparr>ej_numbers := numbers i\<rparr>) (concs ! i)" if "i < ?n" for i
    using that by (simp add: echo_commands_def)
  obtain results ticks where R: "engine_run ?n ?cmds msgs = (zip [0..<?n] ?cmds, Collected results, ticks)"
    "length results = ?n" "\<forall>i < ?n. results ! i = last (w_results (ws' ! i))"
    using all_run_collects [OF assms(5)] n by auto
  have "(case echo_of (results ! i) of Some l \<Rightarrow> success l + failed l | None \<Rightarrow> 0) =
      (if i \<in> P then int (card {j. numbers i j < ej_times job}) else 0)" if i: "i < ?n" for i
  proof -
    have "runs_command D (?cmds ! i) (ws ! i) (runs ! i) (ws' ! i)" using assms(5) i n by (simp add: all_run_def)
    then obtain evs rest where "runs ! i = evs # rest" "commands_of evs = [CEcho (job\<lparr>ej_numbers := numbers i\<rparr>) (concs ! i)]"
      "\<forall>e \<in> set rest. commands_of e = []" "reachable D (ws ! i)" "w_phase (ws ! i) = Idle"
      "w_phase (ws' ! i) = Idle" "iterate D (evs # rest) (ws ! i) = Some (ws' ! i)"
      using cmd [OF i] by (auto simp: runs_command_def list_all_iff split: list.splits)
    from echo_finished [OF assms(1) this(4,5,2) _ _ _ _ this(3,7,6)] assms(2-4,7) R(3) i
    show ?thesis by (auto simp: assms(6))
  qed
  then have "success (merge_echoes results) + failed (merge_echoes results) =
      (\<Sum>i<?n. if i \<in> P then int (card {j. numbers i j < ej_times job}) else 0)"
    unfolding merge_echoes_counts by (intro sum_outcomes R(2))
  also have "\<dots> = (\<Sum>i\<in>P. int (card {j. numbers i j < ej_times job}))"
    by (subst sum.inter_restrict [symmetric]) (auto simp: assms(6) intro: sum.cong)
  also have "\<dots> = int (ej_times job)"
    using shared_numbers [of P numbers "ej_times job"] assms(6-8) by (simp flip: of_nat_sum)
  finally show ?thesis using R(1) by blast
qed

end
