(* ===== verification/Engine_Runs.thy ===== *)
theory Engine_Runs
  imports Engine_Reach "HOL-Library.Code_Target_Nat"
begin

text \<open>
  Runs of the client's worker in the loopback environment, evaluated: a worker
  dials a connection and echoes on it. They instantiate the properties of
  \<^theory_text>\<open>Engine_Reach\<close> on concrete event sequences.
\<close>

lemma loop_fresh: "fresh_streams loop_deps lh_next"
  by (auto simp: fresh_streams_def loop_deps_def loop_h3api_def split: list.splits option.splits)

definition loop_config :: engine_config where
  "loop_config = \<lparr>cfg_addrs = [\<lparr>sa_ip = V4 0, sa_port = 443\<rparr>], cfg_authority = ''h'', cfg_dial_timeout = 1000,
     cfg_dial_retries = 2, cfg_dial_retry_interval = 5, cfg_idle_timeout = 1000, cfg_check = True\<rparr>"

definition loop_worker :: "(nat, unit, bool, loop_h3) worker" where
  "loop_worker = worker_new (\<lambda>_. False) 0 loop_config id 0 0"

lemma loop_reachable: "reachable loop_deps loop_worker"
  unfolding loop_worker_def by (rule reachable.init) (simp add: loop_config_def)

lemma loop_idle: "w_phase loop_worker = Idle" "w_results loop_worker = []"
  by (simp_all add: loop_worker_def worker_new_def)

text \<open>One connection: the command, the handshake, the answer to the first request.\<close>

definition loop_dial :: "poll_ev list list" where
  "loop_dial = [[Readable 0], [Readable 0]]"

definition dial_one :: "poll_ev list" where
  "dial_one = [Wake [CDial 1 1]]"

definition loop_job :: echo_job where
  "loop_job = \<lparr>ej_times = 2, ej_numbers = id, ej_issued = 0, ej_payloads = [[1, 2], [3]], ej_measure = True, ej_limiter = None\<rparr>"

definition echo_two :: "poll_ev list" where
  "echo_two = [Wake [CEcho loop_job 1]]"

lemma loop_commands:
  "commands_of dial_one = [CDial 1 1]" "commands_of echo_two = [CEcho loop_job 1]"
  "\<forall>evs \<in> set loop_dial. commands_of evs = []"
  by (simp_all add: dial_one_def echo_two_def loop_dial_def)

definition is_idle :: "('w, 's, 'q, 'h) worker \<Rightarrow> bool" where
  "is_idle w = (case w_phase w of Idle \<Rightarrow> True | _ \<Rightarrow> False)"

lemma is_idle: "is_idle w \<longleftrightarrow> w_phase w = Idle"
  by (simp add: is_idle_def split: phase.split)

lemma reachable_iterate:
  assumes "reachable D w" and "\<forall>evs \<in> set evss. commands_of evs = []" and "iterate D evss w = Some w'"
  shows "reachable D w'"
  using assms
proof (induction evss arbitrary: w)
  case (Cons evs evss)
  obtain w1 where it: "iteration D evs w = (w1, False)" "iterate D evss w1 = Some w'"
    using Cons.prems(3) by (auto split: prod.splits if_splits)
  have "legal w evs" using Cons.prems(2) by (simp add: legal_def)
  from Cons.IH [OF reachable.step [OF Cons.prems(1) this it(1)] _ it(2)] show ?case
    using Cons.prems(2) by simp
qed simp

lemma reachable_command:
  assumes "reachable D w" and "w_phase w = Idle" and "commands_of evs = [c]" "command_ok c"
    and "\<forall>evs \<in> set evss. commands_of evs = []" and "iterate D (evs # evss) w = Some w'"
  shows "reachable D w'"
proof -
  obtain w1 where it: "iteration D evs w = (w1, False)" "iterate D evss w1 = Some w'"
    using assms(6) by (auto split: prod.splits if_splits)
  have "legal w evs" using assms(2-4) by (simp add: legal_def)
  from reachable_iterate [OF reachable.step [OF assms(1) this it(1)] assms(5) it(2)] show ?thesis .
qed

text \<open>The worker while it dials, with its connection, and after a run of \<^verbatim>\<open>BenchEcho\<close>.\<close>

lemma loop_dialing:
  "case iterate loop_deps [dial_one] loop_worker of None \<Rightarrow> False
   | Some w \<Rightarrow> (case slot w 0 of None \<Rightarrow> False | Some c \<Rightarrow> c_dial c \<noteq> None)"
  by code_simp

lemma loop_dialed:
  "case iterate loop_deps (dial_one # loop_dial) loop_worker of None \<Rightarrow> False
   | Some w \<Rightarrow> is_idle w \<and> slots_where (\<lambda>_. True) w = [0] \<and>
      (case iterate loop_deps (echo_two # loop_dial) w of None \<Rightarrow> False | Some w' \<Rightarrow> is_idle w')"
  by code_simp

theorem dial_accounted_witness:
  "\<exists>w' l. iterate loop_deps (dial_one # loop_dial) loop_worker = Some w' \<and>
     w_results w' = [ODial l] \<and> success l + failed l = 1"
proof -
  obtain w' where w': "iterate loop_deps (dial_one # loop_dial) loop_worker = Some w'" "w_phase w' = Idle"
    using loop_dialed by (auto simp: is_idle split: option.splits)
  from dial_accounted [OF loop_fresh loop_reachable loop_idle(1) loop_commands(1,3) w'(1)] w'
  show ?thesis by (auto simp: loop_idle)
qed

theorem echo_accounted_witness:
  "\<exists>w w' l. iterate loop_deps (dial_one # loop_dial) loop_worker = Some w \<and>
     iterate loop_deps (echo_two # loop_dial) w = Some w' \<and>
     w_results w' = w_results w @ [OEcho l] \<and> success l + failed l = 2"
proof -
  obtain w w' where w: "iterate loop_deps (dial_one # loop_dial) loop_worker = Some w" "w_phase w = Idle"
      "slots_where (\<lambda>_. True) w = [0]"
    and w': "iterate loop_deps (echo_two # loop_dial) w = Some w'" "w_phase w' = Idle"
    using loop_dialed by (auto simp: is_idle split: option.splits)
  have r: "reachable loop_deps w"
    using reachable_command [OF loop_reachable loop_idle(1) loop_commands(1) _ loop_commands(3) w(1)]
    by (simp add: command_ok_def)
  have "ej_payloads loop_job \<noteq> []" "strict_mono (ej_numbers loop_job)"
    by (simp_all add: loop_job_def strict_mono_def)
  moreover have "card {j. j < (2 :: nat)} = 2" by (simp flip: lessThan_def)
  ultimately show ?thesis
    using echo_accounted [OF loop_fresh r w(2) loop_commands(2) _ _ loop_commands(3) w'(1)] w w'
    by (auto simp: loop_job_def)
qed


lemma loop_dialing_reachable:
  assumes "iterate loop_deps [dial_one] loop_worker = Some w"
  shows "reachable loop_deps w"
  using reachable_command [OF loop_reachable loop_idle(1) loop_commands(1) _ _ assms]
  by (simp add: command_ok_def)

theorem one_operation_per_connection_witness:
  "\<exists>w c. iterate loop_deps [dial_one] loop_worker = Some w \<and> slot w 0 = Some c \<and>
     c_dial c \<noteq> None \<and> reqs is_echo c = 0"
proof -
  obtain w c where w: "iterate loop_deps [dial_one] loop_worker = Some w" "slot w 0 = Some c" "c_dial c \<noteq> None"
    using loop_dialing by (auto split: option.splits)
  from one_operation_per_connection [OF loop_fresh loop_dialing_reachable [OF w(1)], of 0] w
  show ?thesis by auto
qed

theorem worker_tables_witness:
  "\<exists>w c. iterate loop_deps [dial_one] loop_worker = Some w \<and> slot w 0 = Some c \<and>
     c_state c = Connecting \<and> 0 \<notin> set (w_free w)"
proof -
  obtain w c where w: "iterate loop_deps [dial_one] loop_worker = Some w" "slot w 0 = Some c" "c_dial c \<noteq> None"
    using loop_dialing by (auto split: option.splits)
  from worker_tables [OF loop_fresh loop_dialing_reachable [OF w(1)]] w
  show ?thesis by fastforce
qed

end
