(* ===== verification/Bench_Runs.thy ===== *)
theory Bench_Runs
  imports Bench Engine_Runs
begin

text \<open>
  Whole benchmarks in the loopback environment: one worker dials a connection, and two
  workers share a \<^verbatim>\<open>BenchEcho\<close> of two round trips, the one drawing the even and the other
  the odd numbers of the counter. They instantiate the properties of \<^theory_text>\<open>Bench\<close>.
\<close>

definition dialed :: "(nat, unit, bool, loop_h3) worker" where
  "dialed = the (iterate loop_deps (dial_one # loop_dial) loop_worker)"

lemma dialed_run:
  "iterate loop_deps (dial_one # loop_dial) loop_worker = Some dialed" "w_phase dialed = Idle"
  "slots_where (\<lambda>_. True) dialed = [0]"
  using loop_dialed by (auto simp: dialed_def is_idle split: option.splits)

lemma dialed_reachable: "reachable loop_deps dialed"
  using reachable_command [OF loop_reachable loop_idle(1) loop_commands(1) _ loop_commands(3) dialed_run(1)]
  by (simp add: command_ok_def)

lemma one_dial_command: "dial_commands 1 1 1 = [CDial 1 1]"
  by (simp add: dial_commands_def split_parts_def mul64_def sub64_def)

lemma connections_complete_witness:
  "\<exists>results ticks. engine_run 1 [CDial 1 1] [Got 0 (last (w_results dialed))] =
       ([(0, CDial 1 1)], Collected results, ticks) \<and>
     success (merge_dials results) + failed (merge_dials results) = 1"
proof -
  have "all_run loop_deps (dial_commands 1 1 1) [loop_worker] [dial_one # loop_dial] [dialed]
      [Got 0 (last (w_results dialed))]"
    unfolding one_dial_command all_run_def runs_command_def
    using loop_reachable loop_idle dialed_run loop_commands
    by (simp add: list_all_iff lessThan_Suc del: iterate.simps)
  from connections_complete [OF loop_fresh _ _ _ this] show ?thesis
    unfolding one_dial_command by simp
qed

text \<open>The job the two share.\<close>

definition pair_numbers :: "nat \<Rightarrow> nat \<Rightarrow> nat" where
  "pair_numbers i j = 2 * j + i"

definition pair_run :: "nat \<Rightarrow> poll_ev list list" where
  "pair_run i = [Wake [CEcho (loop_job\<lparr>ej_numbers := pair_numbers i\<rparr>) 1]] # loop_dial"

definition pair_end :: "nat \<Rightarrow> (nat, unit, bool, loop_h3) worker" where
  "pair_end i = the (iterate loop_deps (pair_run i) dialed)"

lemma pair_ends:
  "case iterate loop_deps (pair_run 0) dialed of None \<Rightarrow> False | Some w \<Rightarrow> is_idle w"
  "case iterate loop_deps (pair_run 1) dialed of None \<Rightarrow> False | Some w \<Rightarrow> is_idle w"
  by code_simp+

lemma pair_run_end:
  assumes "i = 0 \<or> i = 1"
  shows "iterate loop_deps (pair_run i) dialed = Some (pair_end i)" "w_phase (pair_end i) = Idle"
  using assms pair_ends by (auto simp: pair_end_def is_idle split: option.splits)

lemma pair_commands:
  "echo_commands loop_job pair_numbers [1, 1] =
     [CEcho (loop_job\<lparr>ej_numbers := pair_numbers 0\<rparr>) 1, CEcho (loop_job\<lparr>ej_numbers := pair_numbers 1\<rparr>) 1]"
  by (simp add: echo_commands_def upt_rec)

lemma pair_unique: "\<exists>!p. fst p \<in> {0, 1} \<and> pair_numbers (fst p) (snd p) = n"
proof (rule ex1I [of _ "(n mod 2, n div 2)"])
  show "fst (n mod 2, n div 2) \<in> {0, 1} \<and> pair_numbers (fst (n mod 2, n div 2)) (snd (n mod 2, n div 2)) = n"
    by (auto simp: pair_numbers_def)
  show "p = (n mod 2, n div 2)" if "fst p \<in> {0, 1} \<and> pair_numbers (fst p) (snd p) = n" for p
    using that by (cases p) (auto simp: pair_numbers_def)
qed

lemma echo_complete_witness:
  "\<exists>msgs results ticks. engine_run 2 (echo_commands loop_job pair_numbers [1, 1]) msgs =
       (zip [0..<2] (echo_commands loop_job pair_numbers [1, 1]), Collected results, ticks) \<and>
     success (merge_echoes results) + failed (merge_echoes results) = 2"
proof -
  let ?msgs = "[Got 1 (last (w_results (pair_end 1))), Got 0 (last (w_results (pair_end 0)))]"
  have run: "all_run loop_deps (echo_commands loop_job pair_numbers [1, 1]) [dialed, dialed]
      [pair_run 0, pair_run 1] [pair_end 0, pair_end 1] ?msgs"
    unfolding pair_commands all_run_def runs_command_def
    using dialed_reachable dialed_run(2) pair_run_end [of 0] pair_run_end [of 1] loop_commands(3)
    by (auto simp: list_all_iff pair_run_def lessThan_Suc less_Suc_eq simp del: iterate.simps)
  have P: "{0, 1} = {i. i < length [1, 1 :: nat] \<and> [1, 1 :: nat] ! i \<noteq> 0 \<and>
      slots_where (\<lambda>_. True) ([dialed, dialed] ! i) \<noteq> []}"
    using dialed_run(3) by (auto simp: less_Suc_eq)
  have "\<forall>i < length [1, 1 :: nat]. strict_mono (pair_numbers i)"
    by (simp add: strict_mono_def pair_numbers_def)
  from echo_complete [OF loop_fresh _ _ _ run P this] show ?thesis
    using pair_unique by (intro exI [of _ ?msgs]) (simp add: loop_job_def numeral_2_eq_2)
qed

end
