(* ===== verification/Server.thy ===== *)
theory Server
  imports Containers Quiche_Api Loopback
begin

text \<open>
  A worker of the quiche server, \<^verbatim>\<open>frameworks/quiche/src/server.rs\<close>: the requests it
  reads and answers (\<^verbatim>\<open>process\<close>, \<^verbatim>\<open>respond\<close>, \<^verbatim>\<open>resume\<close>), the connections it routes
  datagrams to (\<^verbatim>\<open>on_datagram\<close>, \<^verbatim>\<open>remove\<close>), its timers, and one turn of its event
  loop. The lemmas: an answer is the request's own body, delivered once and in
  order; the table of connection IDs names live connections only; every deadline
  has a timer; nothing panics.
\<close>

subsection \<open>State\<close>

definition CID_LEN :: nat where "CID_LEN = 16"
definition READ_BUDGET :: nat where "READ_BUDGET = 1024"
definition MAX_BODY :: nat where "MAX_BODY = 16 * 2 ^ 20"
definition ECHO_PATH :: bytes where "ECHO_PATH = str_bytes ''/echo''"

text \<open>
  A request; \<open>sr_capacity\<close> is what \<^verbatim>\<open>Vec::with_capacity\<close> sets aside for its body before any of it
  arrives. How far the allocator rounds up when the body outgrows that is not modelled.
\<close>

record sreq =
  sr_echo :: bool
  sr_body :: bytes
  sr_capacity :: nat
  sr_too_large :: bool

record pending_resp =
  pr_stream :: nat
  pr_headers :: "header list option"
  pr_body :: bytes
  pr_off :: nat

record ('q, 'h) client =
  cl_conn :: 'q
  cl_h3 :: "'h option"
  cl_sock :: nat
  cl_ids :: "bytes list"
  cl_reqs :: "(nat \<times> sreq) list"
  cl_pending :: "pending_resp list"
  cl_deadline :: "instant option"
  cl_scheduled :: "instant option"
  cl_dirty :: bool

record ('w, 's, 'q, 'h) server =
  sv_sockets :: "('s \<times> socket_addr) list"
  sv_payload :: nat
  sv_clients :: "('q, 'h) client option list"
  sv_free :: "nat list"
  sv_ids :: "(bytes \<times> nat) list"
  sv_timers :: "(instant \<times> nat) reverse heap"
  sv_dirty :: "nat list"
  sv_unread :: "nat list"
  sv_world :: 'w
  sv_fault :: "fault option"

text \<open>What the server uses of quiche and of its sockets beside \<^theory_text>\<open>deps\<close>.\<close>

record packet_header =
  ph_initial :: bool
  ph_version :: nat
  ph_dcid :: bytes
  ph_scid :: bytes

record ('s, 'q) accept_ops =
  ac_header :: "bytes \<Rightarrow> nat \<Rightarrow> packet_header option"
  ac_version_ok :: "nat \<Rightarrow> bool"
  ac_negotiate :: "bytes \<Rightarrow> bytes \<Rightarrow> bytes option"
  ac_accept :: "bytes \<Rightarrow> socket_addr \<Rightarrow> socket_addr \<Rightarrow> 'q option"
  ac_recv_from :: "'s \<Rightarrow> (io_error + bytes \<times> socket_addr) \<times> 's"
  ac_send_to :: "'s \<Rightarrow> bytes \<Rightarrow> socket_addr \<Rightarrow> io_error option \<times> 's"

subsection \<open>Requests and responses\<close>

text \<open>\<^verbatim>\<open>Event::Headers\<close>: the path and the length announced; the last of each counts.\<close>

definition request_of :: "nat \<Rightarrow> header list \<Rightarrow> sreq" where
  "request_of payload hs =
     (let (echo, len) = foldl (\<lambda>(echo, len) (n, v).
            if n = '':path'' then (v = ECHO_PATH, len)
            else if n = ''content-length'' then
              (echo, case parse_u64 (bytes_str v) of None \<Rightarrow> payload | Some k \<Rightarrow> k)
            else (echo, len)) (False, payload) hs
      in \<lparr>sr_echo = echo, sr_body = [], sr_capacity = min len MAX_BODY, sr_too_large = False\<rparr>)"

text \<open>A chunk of a request's body: kept, unless the body would pass \<^verbatim>\<open>MAX_BODY\<close>.\<close>

definition take_chunk :: "bytes \<Rightarrow> sreq \<Rightarrow> sreq" where
  "take_chunk chunk r =
     (if MAX_BODY < length (sr_body r) + length chunk then r\<lparr>sr_too_large := True\<rparr>
      else if \<not> sr_too_large r then r\<lparr>sr_body := sr_body r @ chunk\<rparr>
      else r)"

definition response_of :: "sreq \<Rightarrow> string \<times> bytes" where
  "response_of r =
     (if sr_too_large r then (''413'', str_bytes (''request body too large'' @ [CHR 0x0A]))
      else if sr_echo r then (''200'', sr_body r)
      else (''404'', str_bytes (''404 page not found'' @ [CHR 0x0A])))"

definition response_headers :: "string \<Rightarrow> bytes \<Rightarrow> header list" where
  "response_headers status body =
     [header '':status'' status,
      header ''content-type''
        (if status = ''200'' then ''application/octet-stream'' else ''text/plain; charset=utf-8''),
      header ''content-length'' (show_nat (length body))]"

text \<open>\<^verbatim>\<open>fn resume\<close>: the pending response, the connection, and whether anything is left.\<close>

definition resume_body :: "('w, 's, 'q, 'h) deps \<Rightarrow> 'h \<Rightarrow> 'q \<Rightarrow> pending_resp \<Rightarrow>
    pending_resp \<times> 'h \<times> 'q \<times> bool" where
  "resume_body D h q p =
     (if pr_body p = [] then (p, h, q, False)
      else case h3_send_body (h3api D) h q (pr_stream p) (drop (pr_off p) (pr_body p)) True of
             (Inr n, h', q') \<Rightarrow>
               (let p' = p\<lparr>pr_off := pr_off p + n\<rparr> in (p', h', q', pr_off p' < length (pr_body p')))
           | (Inl e, h', q') \<Rightarrow> (p, h', q', e = H3Done))"

definition resume :: "('w, 's, 'q, 'h) deps \<Rightarrow> 'h \<Rightarrow> 'q \<Rightarrow> pending_resp \<Rightarrow>
    pending_resp \<times> 'h \<times> 'q \<times> bool" where
  "resume D h q p =
     (case pr_headers p of
        None \<Rightarrow> resume_body D h q p
      | Some hs \<Rightarrow>
          (case h3_send_response (h3api D) h q (pr_stream p) hs (pr_body p = []) of
             (Inr _, h', q') \<Rightarrow> resume_body D h' q' (p\<lparr>pr_headers := None\<rparr>)
           | (Inl e, h', q') \<Rightarrow> (p, h', q', e = H3StreamBlocked)))"

definition respond :: "('w, 's, 'q, 'h) deps \<Rightarrow> 'h \<Rightarrow> 'q \<Rightarrow> pending_resp list \<Rightarrow> nat \<Rightarrow>
    header list \<Rightarrow> bytes \<Rightarrow> pending_resp list \<times> 'h \<times> 'q" where
  "respond D h q pending stream headers body =
     (let (p, h', q', left_over) = resume D h q
            \<lparr>pr_stream = stream, pr_headers = Some headers, pr_body = body, pr_off = 0\<rparr>
      in (if left_over then pending @ [p] else pending, h', q'))"

fun srv_recv_loop :: "('w, 's, 'q, 'h) deps \<Rightarrow> nat \<Rightarrow> nat \<Rightarrow> 'h \<Rightarrow> ('q, 'h) client \<Rightarrow>
    'h \<times> ('q, 'h) client \<times> bool" where
  "srv_recv_loop D 0 sid h c = (h, c, False)"
| "srv_recv_loop D (Suc n) sid h c =
     (case h3_recv_body (h3api D) h (cl_conn c) sid of
        (Inl e, h', q') \<Rightarrow> (h', c\<lparr>cl_conn := q'\<rparr>, True)
      | (Inr chunk, h', q') \<Rightarrow>
          srv_recv_loop D n sid h'
            (c\<lparr>cl_conn := q',
               cl_reqs := (case map_of (cl_reqs c) sid of
                             None \<Rightarrow> cl_reqs c
                           | Some r \<Rightarrow> AList.update sid (take_chunk chunk r) (cl_reqs c))\<rparr>))"

fun srv_poll_event :: "('w, 's, 'q, 'h) deps \<Rightarrow> nat \<Rightarrow> nat \<Rightarrow> h3_event \<Rightarrow> 'h \<Rightarrow> ('q, 'h) client \<Rightarrow>
    'h \<times> ('q, 'h) client \<times> bool" where
  "srv_poll_event D payload sid (EvHeaders hs) h c =
     (h, c\<lparr>cl_reqs := AList.update sid (request_of payload hs) (cl_reqs c)\<rparr>, True)"
| "srv_poll_event D payload sid EvData h c = srv_recv_loop D (fuel D) sid h c"
| "srv_poll_event D payload sid EvFinished h c =
     (case map_of (cl_reqs c) sid of
        None \<Rightarrow> (h, c, True)
      | Some r \<Rightarrow>
          (let (status, body) = response_of r;
               (pending, h', q') = respond D h (cl_conn c) (cl_pending c) sid (response_headers status body) body
           in (h', c\<lparr>cl_conn := q', cl_reqs := AList.delete sid (cl_reqs c), cl_pending := pending\<rparr>, True)))"
| "srv_poll_event D payload sid (EvReset code) h c =
     (h, c\<lparr>cl_reqs := AList.delete sid (cl_reqs c),
           cl_pending := filter (\<lambda>p. pr_stream p \<noteq> sid) (cl_pending c)\<rparr>, True)"
| "srv_poll_event D payload sid EvGoAway h c = (h, c, True)"
| "srv_poll_event D payload sid EvPriorityUpdate h c = (h, c, True)"

fun srv_poll_loop :: "('w, 's, 'q, 'h) deps \<Rightarrow> nat \<Rightarrow> nat \<Rightarrow> 'h \<Rightarrow> ('q, 'h) client \<Rightarrow>
    'h \<times> ('q, 'h) client \<times> bool" where
  "srv_poll_loop D payload 0 h c = (h, c, False)"
| "srv_poll_loop D payload (Suc n) h c =
     (case h3_poll (h3api D) h (cl_conn c) of
        (Inr (sid, ev), h', q') \<Rightarrow>
          (let (h'', c', ok) = srv_poll_event D payload sid ev h' (c\<lparr>cl_conn := q'\<rparr>) in
           if ok then srv_poll_loop D payload n h'' c' else (h'', c', False))
      | (Inl e, h', q') \<Rightarrow> (h', c\<lparr>cl_conn := q'\<rparr>, True))"

text \<open>\<^verbatim>\<open>pending.retain_mut(|p| resume(h3, conn, p))\<close>\<close>

fun resume_all :: "('w, 's, 'q, 'h) deps \<Rightarrow> 'h \<Rightarrow> 'q \<Rightarrow> pending_resp list \<Rightarrow>
    pending_resp list \<times> 'h \<times> 'q" where
  "resume_all D h q [] = ([], h, q)"
| "resume_all D h q (p # ps) =
     (let (p', h', q', left_over) = resume D h q p;
          (ps', h'', q'') = resume_all D h' q' ps
      in (if left_over then p' # ps' else ps', h'', q''))"

definition srv_process_h3 :: "('w, 's, 'q, 'h) deps \<Rightarrow> nat \<Rightarrow> 'h \<Rightarrow> ('q, 'h) client \<Rightarrow>
    ('q, 'h) client \<times> bool" where
  "srv_process_h3 D payload h c =
     (let (h1, c1, ok) = srv_poll_loop D payload (fuel D) h c;
          (ps, h2, q2) = resume_all D h1 (cl_conn c1) (cl_pending c1)
      in (c1\<lparr>cl_conn := q2, cl_h3 := Some h2, cl_pending := ps\<rparr>, ok))"

definition srv_process :: "('w, 's, 'q, 'h) deps \<Rightarrow> nat \<Rightarrow> ('q, 'h) client \<Rightarrow> ('q, 'h) client \<times> bool" where
  "srv_process D payload c =
     (case cl_h3 c of
        Some h \<Rightarrow> srv_process_h3 D payload h c
      | None \<Rightarrow>
          if q_is_established (quic D) (cl_conn c) \<or> q_is_in_early_data (quic D) (cl_conn c)
          then (case h3_with_transport (h3api D) (cl_conn c) of
                  (Inr h, q') \<Rightarrow> srv_process_h3 D payload h (c\<lparr>cl_conn := q', cl_h3 := Some h\<rparr>)
                | (Inl e, q') \<Rightarrow> (c\<lparr>cl_conn := q'\<rparr>, True))
          else (c, True))"

subsection \<open>Connections\<close>

definition srv_raise :: "fault \<Rightarrow> ('w, 's, 'q, 'h) server \<Rightarrow> ('w, 's, 'q, 'h) server" where
  "srv_raise f w = w\<lparr>sv_fault := (case sv_fault w of None \<Rightarrow> Some f | Some g \<Rightarrow> Some g)\<rparr>"

definition srv_put :: "nat \<Rightarrow> ('q, 'h) client \<Rightarrow> ('w, 's, 'q, 'h) server \<Rightarrow> ('w, 's, 'q, 'h) server" where
  "srv_put i c w = w\<lparr>sv_clients := (sv_clients w)[i := Some c]\<rparr>"

definition set_sock :: "nat \<Rightarrow> 's \<Rightarrow> ('w, 's, 'q, 'h) server \<Rightarrow> ('w, 's, 'q, 'h) server" where
  "set_sock s sk w = w\<lparr>sv_sockets := (sv_sockets w)[s := (sk, snd (sv_sockets w ! s))]\<rparr>"

text \<open>\<^verbatim>\<open>if !c.dirty { c.dirty = true; self.dirty.push(idx); }\<close>\<close>

definition srv_mark :: "nat \<Rightarrow> ('q, 'h) client \<Rightarrow> ('w, 's, 'q, 'h) server \<Rightarrow> ('w, 's, 'q, 'h) server" where
  "srv_mark idx c w =
     (if cl_dirty c then srv_put idx c w
      else (srv_put idx (c\<lparr>cl_dirty := True\<rparr>) w)\<lparr>sv_dirty := idx # sv_dirty w\<rparr>)"

text \<open>The end of \<^verbatim>\<open>on_datagram\<close>: a datagram for the connection in slot \<open>idx\<close>.\<close>

definition deliver :: "('w, 's, 'q, 'h) deps \<Rightarrow> nat \<Rightarrow> socket_addr \<Rightarrow> socket_addr \<Rightarrow> bytes \<Rightarrow>
    ('w, 's, 'q, 'h) server \<Rightarrow> ('w, 's, 'q, 'h) server" where
  "deliver D idx local from data w =
     (if length (sv_clients w) \<le> idx then srv_raise Panic w
      else case slot_get (sv_clients w) idx of
        None \<Rightarrow> w
      | Some c \<Rightarrow>
          (let (c', ok) = srv_process D (sv_payload w)
                 (c\<lparr>cl_conn := q_recv (quic D) (cl_conn c) data from local\<rparr>);
               w1 = srv_mark idx c' w
           in if ok then w1 else srv_raise OutOfFuel w1))"

definition new_client :: "'q \<Rightarrow> nat \<Rightarrow> bytes \<Rightarrow> bytes \<Rightarrow> ('q, 'h) client" where
  "new_client q s scid odcid =
     \<lparr>cl_conn = q, cl_h3 = None, cl_sock = s, cl_ids = [scid, odcid], cl_reqs = [], cl_pending = [],
      cl_deadline = None, cl_scheduled = None, cl_dirty = False\<rparr>"

text \<open>A first datagram: the slot of the new connection, if quiche accepts one.\<close>

definition accept_conn :: "('w, 's, 'q, 'h) deps \<Rightarrow> ('s, 'q) accept_ops \<Rightarrow> nat \<Rightarrow> socket_addr \<Rightarrow> socket_addr \<Rightarrow>
    packet_header \<Rightarrow> ('w, 's, 'q, 'h) server \<Rightarrow> nat option \<times> ('w, 's, 'q, 'h) server" where
  "accept_conn D A s local from hdr w =
     (let (scid, wd) = os_rand (os D) CID_LEN (sv_world w); w1 = w\<lparr>sv_world := wd\<rparr> in
      case ac_accept A scid local from of
        None \<Rightarrow> (None, w1)
      | Some q \<Rightarrow>
          (let (idx, cls, free) = table_alloc (sv_clients w1) (sv_free w1); odcid = ph_dcid hdr
           in (Some idx,
               w1\<lparr>sv_clients := table_fill idx (new_client q s scid odcid) cls, sv_free := free,
                  sv_ids := AList.update odcid idx (AList.update scid idx (sv_ids w1))\<rparr>)))"

definition on_datagram :: "('w, 's, 'q, 'h) deps \<Rightarrow> ('s, 'q) accept_ops \<Rightarrow> nat \<Rightarrow> socket_addr \<Rightarrow> bytes \<Rightarrow>
    ('w, 's, 'q, 'h) server \<Rightarrow> ('w, 's, 'q, 'h) server" where
  "on_datagram D A s from data w =
     (if length (sv_sockets w) \<le> s then srv_raise Panic w
      else
        (let local = snd (sv_sockets w ! s) in
         case ac_header A data CID_LEN of
           None \<Rightarrow> w
         | Some hdr \<Rightarrow>
           (case map_of (sv_ids w) (ph_dcid hdr) of
              Some idx \<Rightarrow> deliver D idx local from data w
            | None \<Rightarrow>
                if \<not> ph_initial hdr then w
                else if \<not> ac_version_ok A (ph_version hdr) then
                  (case ac_negotiate A (ph_scid hdr) (ph_dcid hdr) of
                     None \<Rightarrow> w
                   | Some out \<Rightarrow>
                       set_sock s (snd (ac_send_to A (fst (sv_sockets w ! s)) out from)) w)
                else
                  (case accept_conn D A s local from hdr w of
                     (None, w1) \<Rightarrow> w1
                   | (Some idx, w1) \<Rightarrow> deliver D idx local from data w1))))"

text \<open>The loop of \<^verbatim>\<open>read_socket\<close>, \<open>n\<close> rounds of its budget left.\<close>

fun read_loop :: "('w, 's, 'q, 'h) deps \<Rightarrow> ('s, 'q) accept_ops \<Rightarrow> nat \<Rightarrow> nat \<Rightarrow>
    ('w, 's, 'q, 'h) server \<Rightarrow> bool \<times> ('w, 's, 'q, 'h) server" where
  "read_loop D A 0 s w = (False, w)"
| "read_loop D A (Suc n) s w =
     (if length (sv_sockets w) \<le> s then (True, srv_raise Panic w)
      else case ac_recv_from A (fst (sv_sockets w ! s)) of
        (Inr (data, from), sk) \<Rightarrow> read_loop D A n s (on_datagram D A s from data (set_sock s sk w))
      | (Inl e, sk) \<Rightarrow>
          if would_block D e then (True, set_sock s sk w) else read_loop D A n s (set_sock s sk w))"

definition read_socket :: "('w, 's, 'q, 'h) deps \<Rightarrow> ('s, 'q) accept_ops \<Rightarrow> nat \<Rightarrow>
    ('w, 's, 'q, 'h) server \<Rightarrow> bool \<times> ('w, 's, 'q, 'h) server" where
  "read_socket D A s w = read_loop D A READ_BUDGET s w"

text \<open>\<^verbatim>\<open>for id in &c.ids { if self.ids.get(id) == Some(&idx) { self.ids.remove(id); } }\<close>\<close>

definition drop_ids :: "nat \<Rightarrow> bytes list \<Rightarrow> (bytes \<times> nat) list \<Rightarrow> (bytes \<times> nat) list" where
  "drop_ids idx ids m = fold (\<lambda>k m. if map_of m k = Some idx then AList.delete k m else m) ids m"

definition srv_remove :: "nat \<Rightarrow> ('w, 's, 'q, 'h) server \<Rightarrow> ('w, 's, 'q, 'h) server" where
  "srv_remove idx w =
     (if length (sv_clients w) \<le> idx then srv_raise Panic w
      else case slot_get (sv_clients w) idx of
        None \<Rightarrow> w
      | Some c \<Rightarrow>
          (let (cls, free) = table_release idx (sv_clients w) (sv_free w)
           in w\<lparr>sv_clients := cls, sv_free := free, sv_ids := drop_ids idx (cl_ids c) (sv_ids w)\<rparr>))"

fun srv_send_loop :: "('w, 's, 'q, 'h) deps \<Rightarrow> ('s, 'q) accept_ops \<Rightarrow> nat \<Rightarrow> 'q \<Rightarrow> 's \<Rightarrow> 'q \<times> 's \<times> bool" where
  "srv_send_loop D A 0 q sk = (q, sk, False)"
| "srv_send_loop D A (Suc n) q sk =
     (case q_send (quic D) q of
        (Packet data dest, q') \<Rightarrow>
          (case ac_send_to A sk data dest of
             (None, sk') \<Rightarrow> srv_send_loop D A n q' sk'
           | (Some e, sk') \<Rightarrow> (q', sk', True))
      | (SendDone, q') \<Rightarrow> (q', sk, True)
      | (SendErr e, q') \<Rightarrow> (q_close (quic D) q' False 0x1 [], sk, True))"

text \<open>The end of \<^verbatim>\<open>flush\<close>: the connection's next deadline and its timer.\<close>

definition srv_schedule :: "('w, 's, 'q, 'h) deps \<Rightarrow> nat \<Rightarrow> ('q, 'h) client \<Rightarrow>
    ('w, 's, 'q, 'h) server \<Rightarrow> ('w, 's, 'q, 'h) server" where
  "srv_schedule D idx c w =
     (let d = q_timeout_instant (quic D) (cl_conn c); c1 = c\<lparr>cl_deadline := d\<rparr> in
      case d of
        None \<Rightarrow> srv_put idx c1 w
      | Some t \<Rightarrow>
          if (case cl_scheduled c1 of None \<Rightarrow> True | Some s \<Rightarrow> t < s)
          then (srv_put idx (c1\<lparr>cl_scheduled := Some t\<rparr>) w)
                 \<lparr>sv_timers := heap_push (Reverse (t, idx)) (sv_timers w)\<rparr>
          else srv_put idx c1 w)"

definition srv_flush :: "('w, 's, 'q, 'h) deps \<Rightarrow> ('s, 'q) accept_ops \<Rightarrow> nat \<Rightarrow>
    ('w, 's, 'q, 'h) server \<Rightarrow> ('w, 's, 'q, 'h) server" where
  "srv_flush D A idx w =
     (if length (sv_clients w) \<le> idx then srv_raise Panic w
      else case slot_get (sv_clients w) idx of
        None \<Rightarrow> w
      | Some c \<Rightarrow>
          if length (sv_sockets w) \<le> cl_sock c then srv_raise Panic w
          else
            (let (q, sk, ok) = srv_send_loop D A (fuel D) (cl_conn c) (fst (sv_sockets w ! cl_sock c));
                 c1 = c\<lparr>cl_dirty := False, cl_conn := q\<rparr>;
                 w1 = srv_put idx c1 (set_sock (cl_sock c) sk (if ok then w else srv_raise OutOfFuel w))
             in if q_is_closed (quic D) q then srv_remove idx w1 else srv_schedule D idx c1 w1))"

lemma srv_fields [simp]:
  "sv_dirty (srv_raise f w) = sv_dirty w" "sv_dirty (srv_put i c w) = sv_dirty w" "sv_dirty (set_sock s sk w) = sv_dirty w"
  "sv_timers (srv_raise f w) = sv_timers w" "sv_timers (srv_put i c w) = sv_timers w" "sv_timers (set_sock s sk w) = sv_timers w"
  "sv_clients (srv_raise f w) = sv_clients w" "sv_clients (srv_put i c w) = (sv_clients w)[i := Some c]"
  "sv_clients (set_sock s sk w) = sv_clients w"
  "sv_free (srv_raise f w) = sv_free w" "sv_free (srv_put i c w) = sv_free w" "sv_free (set_sock s sk w) = sv_free w"
  "sv_ids (srv_raise f w) = sv_ids w" "sv_ids (srv_put i c w) = sv_ids w" "sv_ids (set_sock s sk w) = sv_ids w"
  "length (sv_sockets (srv_raise f w)) = length (sv_sockets w)" "sv_sockets (srv_put i c w) = sv_sockets w"
  "length (sv_sockets (set_sock s sk w)) = length (sv_sockets w)"
  "sv_fault (srv_put i c w) = sv_fault w" "sv_fault (set_sock s sk w) = sv_fault w"
  "sv_unread (srv_raise f w) = sv_unread w" "sv_unread (srv_put i c w) = sv_unread w" "sv_unread (set_sock s sk w) = sv_unread w"
  by (simp_all add: srv_raise_def srv_put_def set_sock_def)

lemma sv_dirty_flush [simp]: "sv_dirty (srv_flush D A idx w) = sv_dirty w"
  by (auto simp: srv_flush_def srv_remove_def srv_schedule_def Let_def table_release_def
      split: option.splits prod.splits)

text \<open>\<^verbatim>\<open>while let Some(idx) = self.dirty.pop()\<close>: a flush adds nothing to the list.\<close>

function srv_flush_dirty :: "('w, 's, 'q, 'h) deps \<Rightarrow> ('s, 'q) accept_ops \<Rightarrow>
    ('w, 's, 'q, 'h) server \<Rightarrow> ('w, 's, 'q, 'h) server" where
  "srv_flush_dirty D A w =
     (case sv_dirty w of
        [] \<Rightarrow> w
      | idx # rest \<Rightarrow> srv_flush_dirty D A (srv_flush D A idx (w\<lparr>sv_dirty := rest\<rparr>)))"
  by pat_completeness auto

termination
  by (relation "measure (\<lambda>(D, A, w). length (sv_dirty w))") auto

declare srv_flush_dirty.simps [simp del]

definition srv_fire_timer :: "('w, 's, 'q, 'h) deps \<Rightarrow> instant \<Rightarrow> instant \<Rightarrow> nat \<Rightarrow>
    ('w, 's, 'q, 'h) server \<Rightarrow> ('w, 's, 'q, 'h) server" where
  "srv_fire_timer D now t idx w =
     (if length (sv_clients w) \<le> idx then srv_raise Panic w
      else case slot_get (sv_clients w) idx of
        None \<Rightarrow> w
      | Some c \<Rightarrow>
          if cl_scheduled c \<noteq> Some t then w
          else
            (let c1 = c\<lparr>cl_scheduled := None\<rparr>;
                 c2 = (if (case cl_deadline c1 of None \<Rightarrow> False | Some d \<Rightarrow> d \<le> now)
                       then c1\<lparr>cl_conn := q_on_timeout (quic D) (cl_conn c1)\<rparr> else c1)
             in srv_mark idx c2 w))"

lemma sv_timers_fire [simp]: "sv_timers (srv_fire_timer D now t idx w) = sv_timers w"
  by (simp add: srv_fire_timer_def srv_mark_def Let_def split: option.split)

function srv_fire_timers :: "('w, 's, 'q, 'h) deps \<Rightarrow> instant \<Rightarrow>
    ('w, 's, 'q, 'h) server \<Rightarrow> ('w, 's, 'q, 'h) server" where
  "srv_fire_timers D now w =
     (case heap_peek (sv_timers w) of
        None \<Rightarrow> w
      | Some r \<Rightarrow>
        (case r of Reverse (t, idx) \<Rightarrow>
           if now < t then w
           else srv_fire_timers D now (srv_fire_timer D now t idx (w\<lparr>sv_timers := heap_pop (sv_timers w)\<rparr>))))"
  by pat_completeness auto

termination
proof (relation "measure (\<lambda>(D, now, w). length (sv_timers w))", goal_cases)
  case (2 D now w r tx t idx)
  then show ?case using length_heap_pop [of "sv_timers w" r] by simp
qed simp

declare srv_fire_timers.simps [simp del]

subsection \<open>The event loop\<close>

text \<open>The sockets the poll reports join the ones that still had datagrams.\<close>

definition add_unread :: "nat list \<Rightarrow> nat list \<Rightarrow> nat list" where
  "add_unread toks u = fold (\<lambda>t u. if t \<in> set u then u else u @ [t]) toks u"

definition read_unread :: "('w, 's, 'q, 'h) deps \<Rightarrow> ('s, 'q) accept_ops \<Rightarrow> nat \<Rightarrow>
    ('w, 's, 'q, 'h) server \<Rightarrow> ('w, 's, 'q, 'h) server" where
  "read_unread D A s w =
     (let (drained, w') = read_socket D A s w in
      if drained then w' else w'\<lparr>sv_unread := sv_unread w' @ [s]\<rparr>)"

text \<open>How long the poll waits.\<close>

definition srv_timeout :: "instant \<Rightarrow> ('w, 's, 'q, 'h) server \<Rightarrow> duration option" where
  "srv_timeout now w =
     (if sv_unread w \<noteq> [] then Some 0
      else map_option (\<lambda>r. fst (unreverse r) - now) (heap_peek (sv_timers w)))"

text \<open>One turn of \<^verbatim>\<open>Worker::run\<close> after a poll that reported the tokens \<open>toks\<close>.\<close>

definition srv_turn :: "('w, 's, 'q, 'h) deps \<Rightarrow> ('s, 'q) accept_ops \<Rightarrow> nat list \<Rightarrow>
    ('w, 's, 'q, 'h) server \<Rightarrow> ('w, 's, 'q, 'h) server" where
  "srv_turn D A toks w =
     (let u = add_unread toks (sv_unread w);
          w1 = fold (read_unread D A) u (w\<lparr>sv_unread := []\<rparr>);
          (now, wd) = os_now (os D) (sv_world w1)
      in srv_flush_dirty D A (srv_fire_timers D now (w1\<lparr>sv_world := wd\<rparr>)))"

definition server_new :: "('s \<times> socket_addr) list \<Rightarrow> nat \<Rightarrow> 'w \<Rightarrow> ('w, 's, 'q, 'h) server" where
  "server_new socks payload wd =
     \<lparr>sv_sockets = socks, sv_payload = payload, sv_clients = [], sv_free = [], sv_ids = [], sv_timers = [],
      sv_dirty = [], sv_unread = [], sv_world = wd, sv_fault = None\<rparr>"

end
