(* ===== verification/Server_Inv.thy ===== *)
theory Server_Inv
  imports Server
begin

text \<open>
  The properties of the quiche server: what it answers, that a response is
  delivered once and in order however often it has to wait, and the invariant of
  its tables, which every turn of its event loop keeps.
\<close>

subsection \<open>What is answered\<close>

lemma fold_take_chunk:
  "\<not> sr_too_large r \<Longrightarrow> length (sr_body r) \<le> MAX_BODY \<Longrightarrow>
     sr_too_large (fold take_chunk chunks r) = (MAX_BODY < length (sr_body r) + length (concat chunks)) \<and>
     (\<not> sr_too_large (fold take_chunk chunks r) \<longrightarrow> sr_body (fold take_chunk chunks r) = sr_body r @ concat chunks)"
proof (induction chunks arbitrary: r)
  case Nil
  then show ?case by simp
next
  case (Cons chunk chunks)
  have sticky: "sr_too_large (fold take_chunk cs r)" if "sr_too_large r" for cs and r :: sreq
    using that by (induction cs arbitrary: r) (simp_all add: take_chunk_def)
  show ?case
  proof (cases "MAX_BODY < length (sr_body r) + length chunk")
    case True
    then have "sr_too_large (take_chunk chunk r)" by (simp add: take_chunk_def)
    from sticky [OF this] True show ?thesis by simp
  next
    case False
    then have "take_chunk chunk r = r\<lparr>sr_body := sr_body r @ chunk\<rparr>"
      using Cons.prems by (simp add: take_chunk_def)
    then show ?thesis using Cons.IH [of "take_chunk chunk r"] Cons.prems False by (simp add: add.assoc)
  qed
qed

lemma fold_take_chunk_frame:
  "sr_echo (fold take_chunk chunks r) = sr_echo r" "sr_capacity (fold take_chunk chunks r) = sr_capacity r"
  "length (sr_body r) \<le> MAX_BODY \<Longrightarrow> length (sr_body (fold take_chunk chunks r)) \<le> MAX_BODY"
  by (induction chunks arbitrary: r) (simp_all add: take_chunk_def)

definition paths_of :: "header list \<Rightarrow> bytes list" where
  "paths_of hs = map snd (filter (\<lambda>h. fst h = '':path'') hs)"

lemma request_of_props:
  "sr_echo (request_of payload hs) \<longleftrightarrow> paths_of hs \<noteq> [] \<and> last (paths_of hs) = ECHO_PATH"
  "sr_body (request_of payload hs) = []" "\<not> sr_too_large (request_of payload hs)"
  "sr_capacity (request_of payload hs) \<le> MAX_BODY"
proof -
  let ?f = "\<lambda>(echo, len) (n, v). if n = '':path'' then (v = ECHO_PATH, len)
     else if n = ''content-length'' then (echo, case parse_u64 (bytes_str v) of None \<Rightarrow> payload | Some k \<Rightarrow> k)
     else (echo, len)"
  have "fst (foldl ?f (False, payload) hs) \<longleftrightarrow> paths_of hs \<noteq> [] \<and> last (paths_of hs) = ECHO_PATH"
  proof (induction hs rule: rev_induct)
    case Nil
    then show ?case by (simp add: paths_of_def)
  next
    case (snoc x xs)
    then show ?case
      by (auto simp: paths_of_def split_def)
  qed
  then show "sr_echo (request_of payload hs) \<longleftrightarrow> paths_of hs \<noteq> [] \<and> last (paths_of hs) = ECHO_PATH"
    by (simp add: request_of_def split_def Let_def)
  show "sr_body (request_of payload hs) = []" "\<not> sr_too_large (request_of payload hs)"
    "sr_capacity (request_of payload hs) \<le> MAX_BODY"
    by (simp_all add: request_of_def split_def Let_def)
qed

text \<open>
  C7. The server echoes. A request with headers \<open>hs\<close> whose body arrived in any
  chunks is answered with 200 and exactly the bytes it sent when its path is
  \<^verbatim>\<open>/echo\<close>, with 404 when it is not, and with 413 when the body is longer than
  \<^verbatim>\<open>MAX_BODY\<close>; and whatever a client announces or sends, no more than \<^verbatim>\<open>MAX_BODY\<close>
  bytes are set aside up front for its body and no more of it are kept.
\<close>

theorem server_echoes:
  "response_of (fold take_chunk chunks (request_of payload hs)) =
     (if MAX_BODY < length (concat chunks)
      then (''413'', str_bytes (''request body too large'' @ [CHR 0x0A]))
      else if paths_of hs \<noteq> [] \<and> last (paths_of hs) = ECHO_PATH then (''200'', concat chunks)
      else (''404'', str_bytes (''404 page not found'' @ [CHR 0x0A]))) \<and>
   sr_capacity (fold take_chunk chunks (request_of payload hs)) \<le> MAX_BODY \<and>
   length (sr_body (fold take_chunk chunks (request_of payload hs))) \<le> MAX_BODY"
  using fold_take_chunk [of "request_of payload hs" chunks] request_of_props [of payload hs]
    fold_take_chunk_frame [where chunks = chunks and r = "request_of payload hs"]
  by (auto simp: response_of_def)

subsection \<open>How it is delivered\<close>

text \<open>
  What one call of \<^verbatim>\<open>resume\<close> hands to quiche that quiche takes: headers, bytes of the
  body, and whether quiche failed the stream.
\<close>

definition body_sent :: "('w, 's, 'q, 'h) deps \<Rightarrow> 'h \<Rightarrow> 'q \<Rightarrow> pending_resp \<Rightarrow> bytes \<times> bool" where
  "body_sent D h q p =
     (if pr_body p = [] then ([], False)
      else case h3_send_body (h3api D) h q (pr_stream p) (drop (pr_off p) (pr_body p)) True of
             (Inr n, h', q') \<Rightarrow> (take n (drop (pr_off p) (pr_body p)), False)
           | (Inl e, h', q') \<Rightarrow> ([], e \<noteq> H3Done))"

definition resume_sent :: "('w, 's, 'q, 'h) deps \<Rightarrow> 'h \<Rightarrow> 'q \<Rightarrow> pending_resp \<Rightarrow>
    header list list \<times> bytes \<times> bool" where
  "resume_sent D h q p =
     (case pr_headers p of
        None \<Rightarrow> ([], body_sent D h q p)
      | Some hs \<Rightarrow>
          (case h3_send_response (h3api D) h q (pr_stream p) hs (pr_body p = []) of
             (Inr _, h', q') \<Rightarrow> ([hs], body_sent D h' q' p)
           | (Inl e, h', q') \<Rightarrow> ([], [], e \<noteq> H3StreamBlocked)))"

text \<open>
  A response resumed again and again, on whatever state the connection is in each
  time, until nothing is left or quiche fails the stream: the headers and bytes
  quiche took, whether the response still waits, whether it failed.
\<close>

fun resume_seq :: "('w, 's, 'q, 'h) deps \<Rightarrow> ('h \<times> 'q) list \<Rightarrow> pending_resp \<Rightarrow>
    header list list \<times> bytes \<times> pending_resp \<times> bool \<times> bool" where
  "resume_seq D [] p = ([], [], p, True, False)"
| "resume_seq D ((h, q) # envs) p =
     (case resume_sent D h q p of (hs, bs, failed) \<Rightarrow>
      case resume D h q p of (p', h', q', left_over) \<Rightarrow>
        if left_over
        then (case resume_seq D envs p' of (hs', bs', p'', left_over', failed') \<Rightarrow>
                (hs @ hs', bs @ bs', p'', left_over', failed'))
        else (hs, bs, p', False, failed))"

text \<open>What \<^verbatim>\<open>send_body\<close> promises: it takes no more bytes than it was given.\<close>

definition body_bound :: "('w, 's, 'q, 'h) deps \<Rightarrow> bool" where
  "body_bound D \<longleftrightarrow>
     (\<forall>h q s b fin n h' q'. h3_send_body (h3api D) h q s b fin = (Inr n, h', q') \<longrightarrow> n \<le> length b)"

lemma resume_body_step:
  assumes "body_bound D" and "resume_body D h q p = (p', h', q', left_over)" and "body_sent D h q p = (bs, failed)"
    and "pr_off p \<le> length (pr_body p)"
  shows "p' = p\<lparr>pr_off := pr_off p + length bs\<rparr>" and "prefix bs (drop (pr_off p) (pr_body p))"
    and "pr_off p + length bs \<le> length (pr_body p)"
    and "\<not> left_over \<Longrightarrow> \<not> failed \<Longrightarrow> pr_off p + length bs = length (pr_body p) \<or> pr_body p = []"
    and "left_over \<Longrightarrow> \<not> failed"
proof -
  have b: "n \<le> length (drop (pr_off p) (pr_body p))"
    if "h3_send_body (h3api D) h q (pr_stream p) (drop (pr_off p) (pr_body p)) True = (Inr n, h1, q1)" for n h1 q1
    using assms(1) that unfolding body_bound_def by blast
  have all: "p' = p\<lparr>pr_off := pr_off p + length bs\<rparr> \<and> prefix bs (drop (pr_off p) (pr_body p)) \<and>
      pr_off p + length bs \<le> length (pr_body p) \<and>
      (\<not> left_over \<longrightarrow> \<not> failed \<longrightarrow> pr_off p + length bs = length (pr_body p) \<or> pr_body p = []) \<and> (left_over \<longrightarrow> \<not> failed)"
    using assms(2-) b
    by (auto simp: resume_body_def body_sent_def Let_def min_def take_is_prefix split: if_splits prod.splits sum.splits)
  then show "p' = p\<lparr>pr_off := pr_off p + length bs\<rparr>" "prefix bs (drop (pr_off p) (pr_body p))"
    "pr_off p + length bs \<le> length (pr_body p)"
    "\<not> left_over \<Longrightarrow> \<not> failed \<Longrightarrow> pr_off p + length bs = length (pr_body p) \<or> pr_body p = []" "left_over \<Longrightarrow> \<not> failed"
    by auto
qed

lemma body_sent_update [simp]: "body_sent D h q (p\<lparr>pr_headers := x\<rparr>) = body_sent D h q p"
  by (simp add: body_sent_def split: prod.split sum.split)

lemma prefix_length_eq: "prefix xs ys \<Longrightarrow> length xs = length ys \<Longrightarrow> xs = ys"
  by (auto simp: prefix_def)

lemma resume_step:
  assumes "body_bound D" and "resume D h q p = (p', h', q', left_over)" and "resume_sent D h q p = (hs, bs, failed)"
    and "pr_off p \<le> length (pr_body p)"
  shows "pr_off p' = pr_off p + length bs \<and> pr_body p' = pr_body p \<and>
    prefix bs (drop (pr_off p) (pr_body p)) \<and> pr_off p' \<le> length (pr_body p) \<and>
    (\<not> left_over \<longrightarrow> \<not> failed \<longrightarrow> pr_off p' = length (pr_body p) \<and> pr_headers p' = None) \<and>
    (left_over \<longrightarrow> \<not> failed) \<and>
    (case pr_headers p of
       None \<Rightarrow> hs = [] \<and> pr_headers p' = None
     | Some x \<Rightarrow> hs = [] \<and> bs = [] \<and> pr_headers p' = Some x \<or> hs = [x] \<and> pr_headers p' = None)"
proof (cases "pr_headers p")
  case None
  then have "resume_body D h q p = (p', h', q', left_over)" "body_sent D h q p = (bs, failed)" "hs = []"
    using assms(2,3) by (auto simp: resume_def resume_sent_def)
  from resume_body_step [OF assms(1) this(1,2) assms(4)] this(3) None show ?thesis
    by (cases "pr_body p = []") (auto simp: resume_body_def)
next
  case (Some x)
  obtain r h1 q1 where sr: "h3_send_response (h3api D) h q (pr_stream p) x (pr_body p = []) = (r, h1, q1)"
    by (metis prod_cases3)
  show ?thesis
  proof (cases r)
    case (Inl e)
    then show ?thesis using assms(2-) Some sr by (auto simp: resume_def resume_sent_def)
  next
    case (Inr u)
    let ?p = "p\<lparr>pr_headers := None\<rparr>"
    have b: "resume_body D h1 q1 ?p = (p', h', q', left_over)" "body_sent D h1 q1 ?p = (bs, failed)" "hs = [x]"
      using assms(2,3) Some sr Inr by (auto simp: resume_def resume_sent_def body_sent_update)
    have "pr_off ?p \<le> length (pr_body ?p)" using assms(4) by simp
    from resume_body_step [OF assms(1) b(1,2) this] b(3) Some assms(4) show ?thesis by auto
  qed
qed

lemma resume_seq_inv:
  assumes "body_bound D" and "resume_seq D envs p = (hs, bs, p', left_over, failed)"
    and "pr_off p \<le> length (pr_body p)"
  shows "prefix bs (drop (pr_off p) (pr_body p)) \<and> pr_off p + length bs \<le> length (pr_body p) \<and>
    (left_over \<longrightarrow> \<not> failed \<and> pr_off p' = pr_off p + length bs \<and> pr_body p' = pr_body p) \<and>
    (\<not> left_over \<longrightarrow> \<not> failed \<longrightarrow> pr_off p + length bs = length (pr_body p) \<and> (pr_headers p \<noteq> None \<longrightarrow> hs \<noteq> [])) \<and>
    (case pr_headers p of None \<Rightarrow> hs = [] | Some x \<Rightarrow> hs = [] \<and> bs = [] \<or> hs = [x])"
  using assms(2,3)
proof (induction envs arbitrary: p hs bs)
  case Nil
  then show ?case by (auto split: option.split)
next
  case (Cons env envs)
  obtain h q where env: "env = (h, q)" by (cases env)
  obtain hs1 bs1 f1 where s: "resume_sent D h q p = (hs1, bs1, f1)" by (metis prod_cases3)
  obtain p1 h1 q1 l1 where r: "resume D h q p = (p1, h1, q1, l1)" by (metis prod_cases4)
  note S = resume_step [OF assms(1) r s Cons.prems(2)]
  show ?case
  proof (cases l1)
    case False
    then have "hs = hs1" "bs = bs1" "p' = p1" "\<not> left_over" "failed = f1"
      using Cons.prems(1) env s r by auto
    then show ?thesis using S False by (auto split: option.splits)
  next
    case True
    obtain hs2 bs2 p2 l2 f2 where q: "resume_seq D envs p1 = (hs2, bs2, p2, l2, f2)" by (metis prod_cases5)
    then have eq: "hs = hs1 @ hs2" "bs = bs1 @ bs2" "p' = p2" "left_over = l2" "failed = f2"
      using Cons.prems(1) env s r True by auto
    have I: "prefix bs2 (drop (pr_off p1) (pr_body p1)) \<and> pr_off p1 + length bs2 \<le> length (pr_body p1) \<and>
        (l2 \<longrightarrow> \<not> f2 \<and> pr_off p2 = pr_off p1 + length bs2 \<and> pr_body p2 = pr_body p1) \<and>
        (\<not> l2 \<longrightarrow> \<not> f2 \<longrightarrow> pr_off p1 + length bs2 = length (pr_body p1) \<and> (pr_headers p1 \<noteq> None \<longrightarrow> hs2 \<noteq> [])) \<and>
        (case pr_headers p1 of None \<Rightarrow> hs2 = [] | Some x \<Rightarrow> hs2 = [] \<and> bs2 = [] \<or> hs2 = [x])"
      using Cons.IH [of p1 hs2 bs2] q eq S by auto
    have "prefix bs (drop (pr_off p) (pr_body p))"
      using eq S I by (simp add: prefix_drop_split)
    then show ?thesis
      using eq S I by (auto split: option.splits)
  qed
qed

text \<open>
  C8. A response is delivered once and in order. However often a response has to be
  resumed, and whatever state the connection is in each time: quiche takes the
  headers at most once and before any byte of the body, the bytes it takes are the
  beginning of the body, and when the response is done with and quiche did not fail
  the stream it has taken the headers and the whole body.
\<close>

theorem response_delivered:
  assumes "body_bound D"
    and "resume_seq D envs \<lparr>pr_stream = sid, pr_headers = Some headers, pr_body = body, pr_off = 0\<rparr> =
           (hs, bs, p', left_over, failed)"
  shows "prefix bs body \<and> (hs = [] \<and> bs = [] \<or> hs = [headers]) \<and>
         (left_over \<longrightarrow> pr_off p' = length bs) \<and>
         (\<not> left_over \<and> \<not> failed \<longrightarrow> bs = body \<and> hs = [headers])"
  using resume_seq_inv [OF assms] prefix_length_eq [of bs body] by auto

subsection \<open>The tables\<close>

text \<open>Processing a connection leaves its place in the tables alone.\<close>

definition clframe where
  "clframe c = (cl_sock c, cl_ids c, cl_deadline c, cl_scheduled c, cl_dirty c)"

lemma clframe_upd [simp]:
  "clframe (c\<lparr>cl_conn := x1\<rparr>) = clframe c" "clframe (c\<lparr>cl_h3 := x2\<rparr>) = clframe c"
  "clframe (c\<lparr>cl_reqs := x3\<rparr>) = clframe c" "clframe (c\<lparr>cl_pending := x4\<rparr>) = clframe c"
  by (simp_all add: clframe_def)

lemma srv_recv_loop_frame: "srv_recv_loop D n sid h c = (h', c', ok) \<Longrightarrow> clframe c' = clframe c"
  by (induction D n sid h c rule: srv_recv_loop.induct) (auto split: prod.splits sum.splits)

lemma srv_poll_event_frame: "srv_poll_event D payload sid ev h c = (h', c', ok) \<Longrightarrow> clframe c' = clframe c"
  by (cases ev) (auto simp: Let_def split: option.splits prod.splits dest: srv_recv_loop_frame)

lemma srv_poll_loop_frame: "srv_poll_loop D payload n h c = (h', c', ok) \<Longrightarrow> clframe c' = clframe c"
proof (induction n arbitrary: h c)
  case (Suc n)
  then show ?case
    by (auto split: prod.splits sum.splits if_splits dest!: srv_poll_event_frame)
qed simp

lemma srv_process_frame: "srv_process D payload c = (c', ok) \<Longrightarrow> clframe c' = clframe c"
  by (auto simp: srv_process_def srv_process_h3_def split: option.splits prod.splits sum.splits if_splits
      dest!: srv_poll_loop_frame)

text \<open>The requests a connection holds are within \<^verbatim>\<open>MAX_BODY\<close>.\<close>

definition reqs_ok :: "('q, 'h) client \<Rightarrow> bool" where
  "reqs_ok c \<longleftrightarrow>
     (\<forall>sid r. map_of (cl_reqs c) sid = Some r \<longrightarrow> length (sr_body r) \<le> MAX_BODY \<and> sr_capacity r \<le> MAX_BODY)"

lemma reqs_ok_upd [simp]:
  "reqs_ok (c\<lparr>cl_conn := x1\<rparr>) = reqs_ok c" "reqs_ok (c\<lparr>cl_h3 := x2\<rparr>) = reqs_ok c"
  "reqs_ok (c\<lparr>cl_pending := x4\<rparr>) = reqs_ok c" "reqs_ok (c\<lparr>cl_dirty := x5\<rparr>) = reqs_ok c"
  "reqs_ok (c\<lparr>cl_deadline := x6\<rparr>) = reqs_ok c" "reqs_ok (c\<lparr>cl_scheduled := x7\<rparr>) = reqs_ok c"
  by (simp_all add: reqs_ok_def)

lemma reqs_ok_delete: "reqs_ok c \<Longrightarrow> reqs_ok (c\<lparr>cl_reqs := AList.delete sid (cl_reqs c)\<rparr>)"
  by (simp add: reqs_ok_def delete_conv')

lemma reqs_ok_update:
  "reqs_ok c \<Longrightarrow> length (sr_body r) \<le> MAX_BODY \<Longrightarrow> sr_capacity r \<le> MAX_BODY \<Longrightarrow>
     reqs_ok (c\<lparr>cl_reqs := AList.update sid r (cl_reqs c)\<rparr>)"
  by (simp add: reqs_ok_def update_conv')

lemma srv_recv_loop_reqs: "srv_recv_loop D n sid h c = (h', c', ok) \<Longrightarrow> reqs_ok c \<Longrightarrow> reqs_ok c'"
proof (induction n arbitrary: h c)
  case (Suc n)
  obtain r h1 q where b: "h3_recv_body (h3api D) h (cl_conn c) sid = (r, h1, q)" by (metis prod_cases3)
  show ?case
  proof (cases r)
    case (Inl e)
    then show ?thesis using Suc.prems b by auto
  next
    case (Inr chunk)
    let ?c = "c\<lparr>cl_conn := q, cl_reqs := (case map_of (cl_reqs c) sid of None \<Rightarrow> cl_reqs c
        | Some r \<Rightarrow> AList.update sid (take_chunk chunk r) (cl_reqs c))\<rparr>"
    have "reqs_ok ?c"
    proof (cases "map_of (cl_reqs c) sid")
      case None
      then show ?thesis using Suc.prems(2) by (simp add: reqs_ok_def)
    next
      case (Some x)
      then have "length (sr_body x) \<le> MAX_BODY" "sr_capacity x \<le> MAX_BODY" using Suc.prems(2) by (auto simp: reqs_ok_def)
      then show ?thesis
        using Some Suc.prems(2) reqs_ok_update [of "c\<lparr>cl_conn := q\<rparr>" "take_chunk chunk x" sid]
        by (simp add: take_chunk_def)
    qed
    then show ?thesis using Suc.IH [of h1 ?c] Suc.prems(1) b Inr by simp
  qed
qed simp

lemma srv_poll_event_reqs: "srv_poll_event D payload sid ev h c = (h', c', ok) \<Longrightarrow> reqs_ok c \<Longrightarrow> reqs_ok c'"
proof (cases ev)
  case (EvHeaders hs)
  assume "srv_poll_event D payload sid ev h c = (h', c', ok)" and "reqs_ok c"
  then show ?thesis using EvHeaders reqs_ok_update [of c "request_of payload hs" sid] request_of_props [of payload hs] by auto
next
  case EvData
  assume "srv_poll_event D payload sid ev h c = (h', c', ok)" and "reqs_ok c"
  then show ?thesis using EvData by (auto dest: srv_recv_loop_reqs)
next
  case EvFinished
  assume "srv_poll_event D payload sid ev h c = (h', c', ok)" and c: "reqs_ok c"
  then show ?thesis using EvFinished reqs_ok_delete [OF c, of sid]
    by (auto simp: Let_def reqs_ok_def split: option.splits prod.splits)
next
  case (EvReset code)
  assume "srv_poll_event D payload sid ev h c = (h', c', ok)" and c: "reqs_ok c"
  then show ?thesis using EvReset reqs_ok_delete [OF c, of sid] by (auto simp: reqs_ok_def)
qed auto

lemma srv_poll_loop_reqs: "srv_poll_loop D payload n h c = (h', c', ok) \<Longrightarrow> reqs_ok c \<Longrightarrow> reqs_ok c'"
proof (induction n arbitrary: h c)
  case (Suc n)
  then show ?case
    by (auto split: prod.splits sum.splits if_splits dest!: srv_poll_event_reqs)
qed simp

lemma srv_process_reqs: "srv_process D payload c = (c', ok) \<Longrightarrow> reqs_ok c \<Longrightarrow> reqs_ok c'"
  by (auto simp: srv_process_def srv_process_h3_def split: option.splits prod.splits sum.splits if_splits
      dest!: srv_poll_loop_reqs)

text \<open>
  The invariant. A connection ID leads to a connection that has it; a dirty
  connection is on the dirty list or in \<open>H\<close>, the ones in hand; a scheduled timer is
  in the heap, and the deadline of a connection that is not dirty has one that is
  not later; the requests read so far are within bounds.
\<close>

definition client_ok :: "nat set \<Rightarrow> ('w, 's, 'q, 'h) server \<Rightarrow> nat \<Rightarrow> ('q, 'h) client \<Rightarrow> bool" where
  "client_ok H w i c \<longleftrightarrow>
     cl_sock c < length (sv_sockets w) \<and> reqs_ok c \<and>
     (cl_dirty c \<longrightarrow> i \<in> set (sv_dirty w) \<or> i \<in> H) \<and>
     (\<forall>t. cl_scheduled c = Some t \<longrightarrow> Reverse (t, i) \<in> set (sv_timers w)) \<and>
     (\<not> cl_dirty c \<longrightarrow> (\<forall>d. cl_deadline c = Some d \<longrightarrow> (\<exists>s. cl_scheduled c = Some s \<and> s \<le> d)))"

definition ids_ok :: "('w, 's, 'q, 'h) server \<Rightarrow> bool" where
  "ids_ok w \<longleftrightarrow>
     (\<forall>k i. map_of (sv_ids w) k = Some i \<longrightarrow> (\<exists>c. slot_get (sv_clients w) i = Some c \<and> k \<in> set (cl_ids c)))"

definition srv_inv :: "nat set \<Rightarrow> ('w, 's, 'q, 'h) server \<Rightarrow> bool" where
  "srv_inv H w \<longleftrightarrow>
     table_ok (sv_clients w) (sv_free w) \<and> ids_ok w \<and>
     slots_all (client_ok H w) (sv_clients w) \<and>
     (\<forall>i \<in> set (sv_dirty w) \<union> H. i < length (sv_clients w)) \<and>
     (\<forall>t i. Reverse (t, i) \<in> set (sv_timers w) \<longrightarrow> i < length (sv_clients w)) \<and>
     (\<forall>s \<in> set (sv_unread w). s < length (sv_sockets w)) \<and>
     sv_fault w \<noteq> Some Panic"

lemmas srv_inv_defs = srv_inv_def ids_ok_def client_ok_def slots_all_def

lemma ids_okD:
  "srv_inv H w \<Longrightarrow> map_of (sv_ids w) k = Some i \<Longrightarrow> \<exists>c. slot_get (sv_clients w) i = Some c \<and> k \<in> set (cl_ids c)"
  unfolding srv_inv_def ids_ok_def by blast

lemma client_ok_cong:
  "length (sv_sockets w') = length (sv_sockets w) \<Longrightarrow> sv_dirty w' = sv_dirty w \<Longrightarrow> sv_timers w' = sv_timers w \<Longrightarrow>
     client_ok H w' = client_ok H w"
  by (simp add: client_ok_def fun_eq_iff)

lemma srv_inv_cong:
  assumes "sv_clients w' = sv_clients w" "sv_free w' = sv_free w" "sv_ids w' = sv_ids w"
    "sv_timers w' = sv_timers w" "sv_dirty w' = sv_dirty w" "sv_unread w' = sv_unread w"
    "length (sv_sockets w') = length (sv_sockets w)" "sv_fault w' = sv_fault w"
  shows "srv_inv H w' = srv_inv H w"
  using assms client_ok_cong [of w' w H] by (simp add: srv_inv_def ids_ok_def)

lemma srv_inv_frame [simp]:
  "srv_inv H (w\<lparr>sv_world := wd\<rparr>) = srv_inv H w" "srv_inv H (set_sock s sk w) = srv_inv H w"
  by (rule srv_inv_cong; simp)+

lemma srv_inv_fuel [simp]: "srv_inv H (srv_raise OutOfFuel w) = srv_inv H w"
proof -
  have "sv_fault (srv_raise OutOfFuel w) = Some Panic \<longleftrightarrow> sv_fault w = Some Panic"
    by (simp add: srv_raise_def split: option.split)
  then show ?thesis
    using client_ok_cong [of "srv_raise OutOfFuel w" w H] by (simp add: srv_inv_def ids_ok_def)
qed

text \<open>A connection changes, and the lists only grow.\<close>

lemma srv_inv_put:
  assumes inv: "srv_inv H w" and s: "slot_get (sv_clients w) i = Some c" and ids: "cl_ids c' = cl_ids c"
    and d: "set (sv_dirty w) \<subseteq> set d'" "\<forall>j \<in> set d'. j < length (sv_clients w)"
    and t: "set (sv_timers w) \<subseteq> set t'" "\<forall>x j. Reverse (x, j) \<in> set t' \<longrightarrow> j < length (sv_clients w)"
    and H: "H \<subseteq> insert i H'" "H' \<subseteq> H"
    and c': "cl_sock c' < length (sv_sockets w)" "reqs_ok c'" "cl_dirty c' \<longrightarrow> i \<in> set d' \<or> i \<in> H'"
      "\<And>x. cl_scheduled c' = Some x \<Longrightarrow> Reverse (x, i) \<in> set t'"
      "\<And>x. \<not> cl_dirty c' \<Longrightarrow> cl_deadline c' = Some x \<Longrightarrow> \<exists>y. cl_scheduled c' = Some y \<and> y \<le> x"
  shows "srv_inv H' (w\<lparr>sv_clients := (sv_clients w)[i := Some c'], sv_dirty := d', sv_timers := t'\<rparr>)"
proof -
  let ?w = "w\<lparr>sv_clients := (sv_clients w)[i := Some c'], sv_dirty := d', sv_timers := t'\<rparr>"
  have i: "i < length (sv_clients w)" using s by (rule slot_get_bound)
  have tok: "table_ok (sv_clients w) (sv_free w)" using inv by (simp add: srv_inv_def)
  have "table_ok (table_fill i c' (sv_clients w)) (sv_free w)"
    by (rule conn_table.fill_ok [OF tok i conn_table.occupied_not_free [OF tok s]])
  moreover have "ids_ok ?w"
    unfolding ids_ok_def
  proof (intro allI impI)
    fix k j assume "map_of (sv_ids ?w) k = Some j"
    then obtain x where x: "slot_get (sv_clients w) j = Some x" "k \<in> set (cl_ids x)"
      using ids_okD [OF inv, of k j] by auto
    then show "\<exists>c. slot_get (sv_clients ?w) j = Some c \<and> k \<in> set (cl_ids c)"
      using s ids i by (cases "j = i") auto
  qed
  moreover have "client_ok H' ?w j x" if "slot_get (sv_clients ?w) j = Some x" for j x
  proof (cases "j = i")
    case True
    then show ?thesis using that c' i by (auto simp: client_ok_def)
  next
    case False
    then have "client_ok H w j x" using that i inv by (auto simp: srv_inv_def dest: slots_allD)
    then show ?thesis using d(1) t(1) H(1) False by (auto simp: client_ok_def)
  qed
  ultimately show ?thesis
    using inv d(2) t(2) H(2) by (auto simp: srv_inv_def slots_all_def table_fill_def)
qed

lemma srv_inv_mark:
  assumes inv: "srv_inv H w" and s: "slot_get (sv_clients w) i = Some c"
    and c': "cl_ids c' = cl_ids c" "cl_sock c' = cl_sock c" "cl_dirty c' = cl_dirty c"
      "cl_scheduled c' = cl_scheduled c \<or> cl_scheduled c' = None" "reqs_ok c'"
  shows "srv_inv H (srv_mark i c' w)"
proof -
  have ok: "client_ok H w i c" using inv s by (auto simp: srv_inv_def dest: slots_allD)
  have i: "i < length (sv_clients w)" using s by (rule slot_get_bound)
  have b: "\<forall>j \<in> set (sv_dirty w). j < length (sv_clients w)"
    "\<forall>x j. Reverse (x, j) \<in> set (sv_timers w) \<longrightarrow> j < length (sv_clients w)"
    using inv by (auto simp: srv_inv_def)
  show ?thesis
  proof (cases "cl_dirty c'")
    case True
    have "srv_inv H (w\<lparr>sv_clients := (sv_clients w)[i := Some c'], sv_dirty := sv_dirty w, sv_timers := sv_timers w\<rparr>)"
      using ok c' b True by (intro srv_inv_put [OF inv s]) (auto simp: client_ok_def)
    with True show ?thesis by (simp add: srv_mark_def srv_put_def)
  next
    case False
    have "srv_inv H (w\<lparr>sv_clients := (sv_clients w)[i := Some (c'\<lparr>cl_dirty := True\<rparr>)],
        sv_dirty := i # sv_dirty w, sv_timers := sv_timers w\<rparr>)"
      using ok c' b i by (intro srv_inv_put [OF inv s]) (auto simp: client_ok_def)
    with False show ?thesis by (simp add: srv_mark_def srv_put_def)
  qed
qed

lemma srv_inv_deliver:
  assumes inv: "srv_inv H w" and i: "idx < length (sv_clients w)"
  shows "srv_inv H (deliver D idx local from data w)"
proof (cases "slot_get (sv_clients w) idx")
  case None
  with inv i show ?thesis by (simp add: deliver_def)
next
  case (Some c)
  obtain c' ok where p: "srv_process D (sv_payload w) (c\<lparr>cl_conn := q_recv (quic D) (cl_conn c) data from local\<rparr>) = (c', ok)"
    by fastforce
  have "reqs_ok c" using inv Some by (auto simp: srv_inv_defs)
  then have "clframe c' = clframe c" "reqs_ok c'"
    using srv_process_frame [OF p] srv_process_reqs [OF p] by simp_all
  then have "srv_inv H (srv_mark idx c' w)"
    by (intro srv_inv_mark [OF inv Some]) (simp_all add: clframe_def)
  with Some i p show ?thesis by (simp add: deliver_def Let_def)
qed

lemma drop_ids_map:
  "map_of (drop_ids idx ids m) k = (if k \<in> set ids \<and> map_of m k = Some idx then None else map_of m k)"
  unfolding drop_ids_def
  by (induction ids arbitrary: m) (auto simp: delete_conv)

lemma srv_inv_remove:
  assumes inv: "srv_inv H w" and i: "idx < length (sv_clients w)"
  shows "srv_inv H (srv_remove idx w)"
proof (cases "slot_get (sv_clients w) idx")
  case None
  with inv i show ?thesis by (simp add: srv_remove_def)
next
  case s: (Some c)
  obtain cls free where rel: "table_release idx (sv_clients w) (sv_free w) = (cls, free)" by fastforce
  let ?w = "w\<lparr>sv_clients := cls, sv_free := free, sv_ids := drop_ids idx (cl_ids c) (sv_ids w)\<rparr>"
  have tok: "table_ok (sv_clients w) (sv_free w)" using inv by (simp add: srv_inv_def)
  note G = conn_table.release_get [OF s rel]
  have len: "length cls = length (sv_clients w)" using rel by (auto simp: table_release_def)
  have "table_ok cls free" by (rule conn_table.release_ok [OF tok s rel])
  moreover have "ids_ok ?w"
    unfolding ids_ok_def
  proof (intro allI impI)
    fix k j assume "map_of (sv_ids ?w) k = Some j"
    then have m: "map_of (sv_ids w) k = Some j" "\<not> (k \<in> set (cl_ids c) \<and> j = idx)"
      by (auto simp: drop_ids_map split: if_splits)
    then obtain x where x: "slot_get (sv_clients w) j = Some x" "k \<in> set (cl_ids x)"
      using ids_okD [OF inv, of k j] by blast
    then have "j \<noteq> idx" using m(2) s by auto
    then show "\<exists>c. slot_get (sv_clients ?w) j = Some c \<and> k \<in> set (cl_ids c)" using x G by simp
  qed
  moreover have "slots_all (client_ok H ?w) cls"
    using inv G by (auto simp: srv_inv_def slots_all_def client_ok_def)
  ultimately have "srv_inv H ?w" using inv len by (simp add: srv_inv_def)
  with s i rel show ?thesis by (simp add: srv_remove_def)
qed

lemma srv_inv_accept:
  assumes inv: "srv_inv H w" and s: "s < length (sv_sockets w)" and ac: "accept_conn D A s local from hdr w = (r, w')"
  shows "srv_inv H w'" and "\<And>idx. r = Some idx \<Longrightarrow> idx < length (sv_clients w')"
proof -
  obtain scid wd where rd: "os_rand (os D) CID_LEN (sv_world w) = (scid, wd)" by fastforce
  have "srv_inv H w' \<and> (\<forall>idx. r = Some idx \<longrightarrow> idx < length (sv_clients w'))"
  proof (cases "ac_accept A scid local from")
    case None
    then show ?thesis using ac rd inv by (auto simp: accept_conn_def)
  next
    case (Some q)
    obtain idx cls free where al: "table_alloc (sv_clients w) (sv_free w) = (idx, cls, free)" by (metis prod_cases3)
    let ?c = "new_client q s scid (ph_dcid hdr) :: ('c, 'd) client"
    have r: "r = Some idx" and w': "w' = w\<lparr>sv_world := wd, sv_clients := table_fill idx ?c cls, sv_free := free,
        sv_ids := AList.update (ph_dcid hdr) idx (AList.update scid idx (sv_ids w))\<rparr>"
      using ac rd Some al by (auto simp: accept_conn_def Let_def)
    have tok: "table_ok (sv_clients w) (sv_free w)" using inv by (simp add: srv_inv_def)
    note N = conn_table.insert_new [OF tok al] and L = conn_table.alloc_ok [OF tok al]
    have len: "length (sv_clients w) \<le> length cls" using al by (auto simp: table_alloc_def split: list.splits)
    have get: "slot_get (sv_clients w') j = (if j = idx then Some ?c else slot_get (sv_clients w) j)" for j
      using N(1) [of ?c] by (simp add: w')
    have ids: "map_of (sv_ids w') = (map_of (sv_ids w))(scid \<mapsto> idx, ph_dcid hdr \<mapsto> idx)"
      by (rule ext) (simp add: w' update_conv')
    have "ids_ok w'"
      unfolding ids_ok_def
    proof (intro allI impI)
      fix k j assume "map_of (sv_ids w') k = Some j"
      then have "((map_of (sv_ids w))(scid \<mapsto> idx, ph_dcid hdr \<mapsto> idx)) k = Some j"
        by (simp only: ids)
      then consider "j = idx" "k = ph_dcid hdr \<or> k = scid" | "map_of (sv_ids w) k = Some j"
        by (metis fun_upd_apply option.inject)
      then show "\<exists>c. slot_get (sv_clients w') j = Some c \<and> k \<in> set (cl_ids c)"
      proof cases
        case 1
        then show ?thesis by (auto simp: get new_client_def)
      next
        case 2
        then obtain x where x: "slot_get (sv_clients w) j = Some x" "k \<in> set (cl_ids x)"
          using ids_okD [OF inv, of k j] by blast
        then have "j \<noteq> idx" using N(2) by auto
        then show ?thesis using x by (simp add: get)
      qed
    qed
    moreover have "slots_all (client_ok H w') (sv_clients w')"
      unfolding slots_all_def
    proof (intro allI impI)
      fix j x assume x: "slot_get (sv_clients w') j = Some x"
      show "client_ok H w' j x"
      proof (cases "j = idx")
        case True
        then have "x = ?c" using x by (simp add: get)
        then show ?thesis using s by (simp add: client_ok_def new_client_def reqs_ok_def w')
      next
        case False
        then have "client_ok H w j x" using x inv by (auto simp: get srv_inv_def dest: slots_allD)
        then show ?thesis by (simp add: client_ok_def w')
      qed
    qed
    moreover have "table_ok (sv_clients w') (sv_free w')" using N(3) [of ?c] by (simp add: w')
    moreover have "length (sv_clients w') = length cls" by (simp add: w' table_fill_def)
    ultimately show ?thesis
      using inv len L r by (auto simp: srv_inv_def w') (meson UnI1 UnI2 less_le_trans)+
  qed
  then show "srv_inv H w'" "\<And>idx. r = Some idx \<Longrightarrow> idx < length (sv_clients w')" by auto
qed

end
