(* ===== verification/Server_Run.thy ===== *)
theory Server_Run
  imports Server_Inv
begin

text \<open>
  The server's event loop: every turn keeps the invariant of the tables, leaves
  nothing to flush, and the poll that follows wakes up no later than the first
  deadline of a connection.
\<close>

subsection \<open>The turn keeps the invariant\<close>

lemma srv_inv_weaken:
  assumes "srv_inv (insert i H) w" and "slot_get (sv_clients w) i = None"
  shows "srv_inv H w"
proof -
  have "client_ok H w j x" if "slot_get (sv_clients w) j = Some x" for j x
  proof -
    have "client_ok (insert i H) w j x" using assms(1) that by (auto simp: srv_inv_def dest: slots_allD)
    moreover have "j \<noteq> i" using that assms(2) by auto
    ultimately show ?thesis by (simp add: client_ok_def)
  qed
  then show ?thesis using assms(1) by (auto simp: srv_inv_def slots_all_def)
qed

lemma sockets_length [simp]:
  "length (sv_sockets (srv_mark i c w)) = length (sv_sockets w)"
  "length (sv_sockets (deliver D i local from data w)) = length (sv_sockets w)"
  "length (sv_sockets (srv_remove i w)) = length (sv_sockets w)"
  "length (sv_sockets (srv_schedule D i c w)) = length (sv_sockets w)"
  "length (sv_sockets (srv_fire_timer D now t i w)) = length (sv_sockets w)"
  by (auto simp: srv_mark_def deliver_def srv_remove_def srv_schedule_def srv_fire_timer_def Let_def
      split: option.split prod.split)

lemma accept_sockets: "accept_conn D A s local from hdr w = (r, w') \<Longrightarrow> sv_sockets w' = sv_sockets w"
  by (auto simp: accept_conn_def Let_def split: prod.splits option.splits)

lemma sockets_datagram [simp]: "length (sv_sockets (on_datagram D A s from data w)) = length (sv_sockets w)"
  by (auto simp: on_datagram_def Let_def split: option.split prod.split dest!: accept_sockets)

lemma srv_inv_datagram:
  assumes inv: "srv_inv H w" and s: "s < length (sv_sockets w)"
  shows "srv_inv H (on_datagram D A s from data w)"
proof (cases "ac_header A data CID_LEN")
  case None
  with inv s show ?thesis by (simp add: on_datagram_def)
next
  case (Some hdr)
  let ?local = "snd (sv_sockets w ! s)"
  show ?thesis
  proof (cases "map_of (sv_ids w) (ph_dcid hdr)")
    case (Some idx)
    then have "idx < length (sv_clients w)"
      using ids_okD [OF inv Some] by (auto dest: slot_get_bound)
    from srv_inv_deliver [OF inv this] Some \<open>ac_header A data CID_LEN = Some hdr\<close> s
    show ?thesis by (simp add: on_datagram_def)
  next
    case None
    obtain r w' where ac: "accept_conn D A s ?local from hdr w = (r, w')" by fastforce
    note I = srv_inv_accept [OF inv s ac]
    have "srv_inv H (deliver D idx ?local from data w')" if "r = Some idx" for idx
      by (rule srv_inv_deliver [OF I(1) I(2) [OF that]])
    then show ?thesis
      using None Some s inv ac I(1) by (auto simp: on_datagram_def Let_def split: option.split)
  qed
qed

lemma srv_inv_read_loop:
  assumes "srv_inv H w" and "s < length (sv_sockets w)"
  shows "srv_inv H (snd (read_loop D A n s w)) \<and>
         length (sv_sockets (snd (read_loop D A n s w))) = length (sv_sockets w)"
  using assms
proof (induction n arbitrary: w)
  case (Suc n)
  obtain r sk where r: "ac_recv_from A (fst (sv_sockets w ! s)) = (r, sk)" by fastforce
  let ?w = "set_sock s sk w"
  have I: "srv_inv H ?w" "s < length (sv_sockets ?w)" using Suc.prems by simp_all
  show ?case
  proof (cases r)
    case (Inl e)
    then show ?thesis using Suc.IH [OF I] Suc.prems r by simp
  next
    case (Inr p)
    obtain data src where p: "p = (data, src)" by (cases p)
    have "srv_inv H (on_datagram D A s src data ?w)" by (rule srv_inv_datagram [OF I])
    from Suc.IH [OF this] show ?thesis using Inr p r Suc.prems by simp
  qed
qed simp

lemma srv_inv_read_unread:
  assumes "srv_inv H w" and "s < length (sv_sockets w)"
  shows "srv_inv H (read_unread D A s w) \<and> length (sv_sockets (read_unread D A s w)) = length (sv_sockets w)"
proof -
  obtain drained w' where r: "read_socket D A s w = (drained, w')" by fastforce
  have "srv_inv H w' \<and> length (sv_sockets w') = length (sv_sockets w)"
    using srv_inv_read_loop [OF assms, of D A READ_BUDGET] r by (simp add: read_socket_def)
  then show ?thesis
    using r assms(2) client_ok_cong [of "w'\<lparr>sv_unread := u\<rparr>" w' H for u]
    by (auto simp: read_unread_def srv_inv_def ids_ok_def)
qed

lemma srv_inv_read_all:
  assumes "srv_inv H w" and "\<forall>s \<in> set u. s < length (sv_sockets w)"
  shows "srv_inv H (fold (read_unread D A) u w)"
  using assms
proof (induction u arbitrary: w)
  case (Cons s u)
  then show ?case using srv_inv_read_unread [of H w s D A] by simp
qed simp

text \<open>Flushing: the connection in hand gets its deadline and its timer, or leaves.\<close>

lemma srv_remove_put:
  assumes "slot_get (sv_clients w) i = Some c" and "cl_ids c' = cl_ids c"
  shows "srv_remove i (srv_put i c' w) = srv_remove i w"
  using assms slot_get_bound [OF assms(1)] by (simp add: srv_remove_def srv_put_def table_release_def)

lemma srv_schedule_put: "srv_schedule D i c (srv_put i c' w) = srv_schedule D i c w"
  by (simp add: srv_schedule_def srv_put_def Let_def split: option.split)

lemma srv_remove_empties: "i < length (sv_clients w) \<Longrightarrow> slot_get (sv_clients (srv_remove i w)) i = None"
  by (auto simp: srv_remove_def table_release_def split: option.split prod.split)

lemma srv_inv_schedule:
  assumes inv: "srv_inv (insert i H) w" and s: "slot_get (sv_clients w) i = Some c"
    and c': "cl_ids c' = cl_ids c" "cl_sock c' = cl_sock c" "cl_scheduled c' = cl_scheduled c" "\<not> cl_dirty c'" "reqs_ok c'"
  shows "srv_inv H (srv_schedule D i c' w)"
proof -
  have ok: "client_ok (insert i H) w i c" using inv s by (auto simp: srv_inv_def dest: slots_allD)
  have i: "i < length (sv_clients w)" using s by (rule slot_get_bound)
  have b: "\<forall>j \<in> set (sv_dirty w). j < length (sv_clients w)" "H - {i} \<subseteq> H"
    "\<forall>x j. Reverse (x, j) \<in> set (sv_timers w) \<longrightarrow> j < length (sv_clients w)"
    using inv by (auto simp: srv_inv_def)
  define d where "d = q_timeout_instant (quic D) (cl_conn c')"
  have keep: "srv_inv H (w\<lparr>sv_clients := (sv_clients w)[i := Some (c'\<lparr>cl_deadline := d\<rparr>)],
      sv_dirty := sv_dirty w, sv_timers := sv_timers w\<rparr>)"
    if "\<And>t. d = Some t \<Longrightarrow> \<exists>s. cl_scheduled c = Some s \<and> s \<le> t"
    using that ok c' b i by (intro srv_inv_put [OF inv s]) (auto simp: client_ok_def)
  have push: "srv_inv H (w\<lparr>sv_clients := (sv_clients w)[i := Some (c'\<lparr>cl_deadline := d, cl_scheduled := Some t\<rparr>)],
      sv_dirty := sv_dirty w, sv_timers := heap_push (Reverse (t, i)) (sv_timers w)\<rparr>)" if "d = Some t" for t
    using that ok c' b i by (intro srv_inv_put [OF inv s]) (auto simp: client_ok_def heap_push_def)
  show ?thesis
    using keep push c'(3)
    by (auto simp: srv_schedule_def srv_put_def Let_def d_def [symmetric] not_less split: option.splits)
qed

lemma srv_inv_flush:
  assumes inv: "srv_inv (insert i H) w"
  shows "srv_inv H (srv_flush D A i w)"
proof -
  have i: "i < length (sv_clients w)" using inv by (auto simp: srv_inv_def)
  show ?thesis
  proof (cases "slot_get (sv_clients w) i")
    case None
    then show ?thesis using i srv_inv_weaken [OF inv] by (simp add: srv_flush_def)
  next
    case s: (Some c)
    have sock: "cl_sock c < length (sv_sockets w)" using inv s by (auto simp: srv_inv_defs)
    obtain q sk ok where l: "srv_send_loop D A (fuel D) (cl_conn c) (fst (sv_sockets w ! cl_sock c)) = (q, sk, ok)"
      by (metis prod_cases3)
    let ?c = "c\<lparr>cl_dirty := False, cl_conn := q\<rparr>"
    let ?w = "set_sock (cl_sock c) sk (if ok then w else srv_raise OutOfFuel w)"
    have I: "srv_inv (insert i H) ?w" and S: "slot_get (sv_clients ?w) i = Some c" using inv s by simp_all
    have F: "srv_flush D A i w = (if q_is_closed (quic D) q then srv_remove i ?w else srv_schedule D i ?c ?w)"
      using i s sock l S by (simp add: srv_flush_def srv_remove_put srv_schedule_put)
    have L: "i < length (sv_clients ?w)" using i by simp
    have "srv_inv H (srv_remove i ?w)"
      by (rule srv_inv_weaken [OF srv_inv_remove [OF I L] srv_remove_empties [OF L]])
    moreover have "srv_inv H (srv_schedule D i ?c ?w)"
      using inv s by (intro srv_inv_schedule [OF I S]) (auto simp: srv_inv_defs reqs_ok_upd)
    ultimately show ?thesis by (simp add: F)
  qed
qed

lemma srv_inv_pop:
  assumes "srv_inv H w" and "sv_dirty w = i # rest"
  shows "srv_inv (insert i H) (w\<lparr>sv_dirty := rest\<rparr>)"
  using assms by (auto simp: srv_inv_defs)

lemma srv_inv_flush_dirty:
  "srv_inv {} w \<Longrightarrow> srv_inv {} (srv_flush_dirty D A w) \<and> sv_dirty (srv_flush_dirty D A w) = []"
proof (induction D A w rule: srv_flush_dirty.induct)
  case (1 D A w)
  show ?case
  proof (cases "sv_dirty w")
    case Nil
    with 1 show ?thesis by (simp add: srv_flush_dirty.simps [of D A w])
  next
    case (Cons i rest)
    from "1.IH" [OF Cons srv_inv_flush [OF srv_inv_pop [OF "1.prems" Cons]]] Cons show ?thesis
      by (simp add: srv_flush_dirty.simps [of D A w])
  qed
qed

lemma srv_inv_pop_timer:
  assumes inv: "srv_inv H w" and p: "heap_peek (sv_timers w) = Some (Reverse (t, i))"
    and stale: "\<And>c. slot_get (sv_clients w) i = Some c \<Longrightarrow> cl_scheduled c \<noteq> Some t"
  shows "srv_inv H (w\<lparr>sv_timers := heap_pop (sv_timers w)\<rparr>)"
proof -
  let ?w = "w\<lparr>sv_timers := heap_pop (sv_timers w)\<rparr>"
  have sub: "y \<in> set (heap_pop (sv_timers w)) \<Longrightarrow> y \<in> set (sv_timers w)" for y
    using bin_heap.pop_subset [OF p, of y] by simp
  have mem: "y \<in> set (sv_timers w) \<Longrightarrow> y \<noteq> Reverse (t, i) \<Longrightarrow> y \<in> set (heap_pop (sv_timers w))" for y
    using bin_heap.pop_mem [OF p, of y] by simp
  have "client_ok H ?w j x" if x: "slot_get (sv_clients w) j = Some x" for j x
  proof -
    have "client_ok H w j x" using inv x by (auto simp: srv_inv_def dest: slots_allD)
    moreover have "Reverse (u, j) \<in> set (heap_pop (sv_timers w))"
      if "cl_scheduled x = Some u" "Reverse (u, j) \<in> set (sv_timers w)" for u
      using mem [OF that(2)] that(1) stale x by (cases "u = t \<and> j = i") auto
    ultimately show ?thesis by (auto simp: client_ok_def)
  qed
  moreover have "\<forall>u j. Reverse (u, j) \<in> set (heap_pop (sv_timers w)) \<longrightarrow> j < length (sv_clients w)"
    using inv sub by (meson srv_inv_def)
  ultimately show ?thesis using inv by (simp add: srv_inv_def slots_all_def ids_ok_def)
qed

lemma srv_mark_timers: "srv_mark i c (w\<lparr>sv_timers := h\<rparr>) = (srv_mark i c w)\<lparr>sv_timers := h\<rparr>"
  by (simp add: srv_mark_def srv_put_def)

lemma srv_mark_get:
  "i < length (sv_clients w) \<Longrightarrow>
     slot_get (sv_clients (srv_mark i c w)) i = Some (c\<lparr>cl_dirty := True\<rparr>)"
  by (auto simp: srv_mark_def)

lemma srv_inv_fire_timer:
  assumes inv: "srv_inv H w" and p: "heap_peek (sv_timers w) = Some (Reverse (t, i))"
  shows "srv_inv H (srv_fire_timer D now t i (w\<lparr>sv_timers := heap_pop (sv_timers w)\<rparr>))"
proof -
  have "Reverse (t, i) \<in> set (sv_timers w)" using bin_heap.peek_mem [OF p] by simp
  then have i: "i < length (sv_clients w)" using inv by (auto simp: srv_inv_def)
  show ?thesis
  proof (cases "slot_get (sv_clients w) i")
    case None
    then show ?thesis using srv_inv_pop_timer [OF inv p] i by (simp add: srv_fire_timer_def)
  next
    case s: (Some c)
    show ?thesis
    proof (cases "cl_scheduled c = Some t")
      case False
      then show ?thesis using srv_inv_pop_timer [OF inv p] s i by (simp add: srv_fire_timer_def)
    next
      case True
      define c2 where "c2 = (let c1 = c\<lparr>cl_scheduled := None\<rparr> in
          if (case cl_deadline c1 of None \<Rightarrow> False | Some d \<Rightarrow> d \<le> now)
          then c1\<lparr>cl_conn := q_on_timeout (quic D) (cl_conn c1)\<rparr> else c1)"
      have c2: "clframe (c2\<lparr>cl_scheduled := Some t\<rparr>) = clframe c" "cl_scheduled c2 = None" "reqs_ok c2 = reqs_ok c"
        using True by (auto simp: c2_def clframe_def Let_def)
      have r: "reqs_ok c" using inv s by (auto simp: srv_inv_defs)
      have I: "srv_inv H (srv_mark i c2 w)"
        using c2 r by (intro srv_inv_mark [OF inv s]) (auto simp: clframe_def)
      have T: "sv_timers (srv_mark i c2 w) = sv_timers w" by (simp add: srv_mark_def)
      have "srv_inv H ((srv_mark i c2 w)\<lparr>sv_timers := heap_pop (sv_timers w)\<rparr>)"
        using srv_inv_pop_timer [OF I] p T srv_mark_get [OF i] c2(2) by simp
      then show ?thesis using s True i by (simp add: srv_fire_timer_def srv_mark_timers c2_def Let_def)
    qed
  qed
qed

lemma srv_inv_fire_timers: "srv_inv H w \<Longrightarrow> srv_inv H (srv_fire_timers D now w)"
proof (induction D now w rule: srv_fire_timers.induct)
  case (1 D now w)
  show ?case
  proof (cases "heap_peek (sv_timers w)")
    case None
    then show ?thesis using "1.prems" by (simp add: srv_fire_timers.simps [of D now w])
  next
    case (Some r)
    obtain t i where r: "r = Reverse (t, i)" by (metis reverse.exhaust surj_pair)
    show ?thesis
    proof (cases "now < t")
      case True
      then show ?thesis using "1.prems" Some r by (simp add: srv_fire_timers.simps [of D now w])
    next
      case False
      from "1.IH" [OF Some r refl False srv_inv_fire_timer [OF "1.prems" Some [unfolded r]]]
      show ?thesis using Some r False by (simp add: srv_fire_timers.simps [of D now w])
    qed
  qed
qed

lemma add_unread_mem: "s \<in> set (add_unread toks u) \<Longrightarrow> s \<in> set toks \<or> s \<in> set u"
proof (induction toks arbitrary: u)
  case (Cons t toks)
  show ?case using Cons.prems Cons.IH [of u] Cons.IH [of "u @ [t]"]
    by (auto simp: add_unread_def split: if_splits)
qed (simp add: add_unread_def)

lemma srv_inv_turn:
  assumes inv: "srv_inv {} w" and toks: "\<forall>t \<in> set toks. t < length (sv_sockets w)"
  shows "srv_inv {} (srv_turn D A toks w) \<and> sv_dirty (srv_turn D A toks w) = []"
proof -
  let ?u = "add_unread toks (sv_unread w)"
  have "srv_inv {} (w\<lparr>sv_unread := []\<rparr>)"
    using inv client_ok_cong [of "w\<lparr>sv_unread := []\<rparr>" w "{}"] by (simp add: srv_inv_def ids_ok_def)
  moreover have "\<forall>s \<in> set ?u. s < length (sv_sockets w)"
    using toks inv add_unread_mem [of _ toks "sv_unread w"] by (meson srv_inv_def)
  ultimately have "srv_inv {} (fold (read_unread D A) ?u (w\<lparr>sv_unread := []\<rparr>))"
    by (intro srv_inv_read_all) simp_all
  then show ?thesis
    by (simp add: srv_turn_def Let_def srv_inv_flush_dirty srv_inv_fire_timers split: prod.split)
qed

subsection \<open>Reachable states\<close>

text \<open>
  The states a worker can be in at the top of its loop. While it waits in the poll
  the world moves on and datagrams arrive at its sockets; then it takes a turn with
  the tokens of the sockets that are readable.
\<close>

inductive srv_reach :: "('w, 's, 'q, 'h) deps \<Rightarrow> ('s, 'q) accept_ops \<Rightarrow> ('w, 's, 'q, 'h) server \<Rightarrow> bool"
  for D :: "('w, 's, 'q, 'h) deps" and A :: "('s, 'q) accept_ops" where
  srv_init: "srv_reach D A (server_new socks payload wd)"
| srv_step: "srv_reach D A w \<Longrightarrow> map snd socks = map snd (sv_sockets w) \<Longrightarrow>
    list_all (\<lambda>t. t < length socks) toks \<Longrightarrow>
    srv_reach D A (srv_turn D A toks (w\<lparr>sv_world := wd, sv_sockets := socks\<rparr>))"

lemma srv_reach_inv: "srv_reach D A w \<Longrightarrow> srv_inv {} w \<and> sv_dirty w = []"
proof (induction rule: srv_reach.induct)
  case (srv_init socks payload wd)
  then show ?case by (simp add: server_new_def srv_inv_defs conn_table.ok_empty slot_get_def)
next
  case (srv_step w socks toks wd)
  have "length socks = length (sv_sockets w)" using srv_step.hyps(2) map_eq_imp_length_eq by blast
  then have "srv_inv {} (w\<lparr>sv_world := wd, sv_sockets := socks\<rparr>)"
    using srv_step.IH srv_inv_cong [of "w\<lparr>sv_world := wd, sv_sockets := socks\<rparr>" w "{}"] by simp
  then show ?case using srv_step.hyps(3) by (intro srv_inv_turn) (simp_all add: list_all_iff)
qed

lemma srv_reach_client:
  assumes "srv_reach D A w" and "slot_get (sv_clients w) i = Some c"
  shows "client_ok {} w i c" and "\<not> cl_dirty c"
proof -
  show "client_ok {} w i c" using srv_reach_inv [OF assms(1)] assms(2) by (auto simp: srv_inv_def dest: slots_allD)
  then show "\<not> cl_dirty c" using srv_reach_inv [OF assms(1)] by (simp add: client_ok_def)
qed

text \<open>
  C9. The server's tables stay sound. In every state the worker reaches, whatever
  datagrams, timers and quiche do: it has not panicked on an index; a connection ID
  in the table leads to a live connection that has this ID; every connection has
  been flushed, its socket exists, and no request it is reading takes up more than
  \<^verbatim>\<open>MAX_BODY\<close> bytes; the free list names distinct empty slots.
\<close>

theorem server_tables:
  assumes "srv_reach D A w"
  shows "sv_fault w \<noteq> Some Panic \<and> sv_dirty w = [] \<and> table_ok (sv_clients w) (sv_free w) \<and>
    (map_of (sv_ids w) k = Some i \<longrightarrow> (\<exists>c. slot_get (sv_clients w) i = Some c \<and> k \<in> set (cl_ids c))) \<and>
    (slot_get (sv_clients w) i = Some c \<longrightarrow>
       \<not> cl_dirty c \<and> cl_sock c < length (sv_sockets w) \<and>
       (map_of (cl_reqs c) sid = Some r \<longrightarrow> length (sr_body r) \<le> MAX_BODY \<and> sr_capacity r \<le> MAX_BODY))"
  using srv_reach_inv [OF assms] ids_okD [of "{}" w k i] srv_reach_client [OF assms, of i c]
  by (auto simp: srv_inv_def client_ok_def reqs_ok_def)

text \<open>
  C10. The server never sleeps past a deadline. When a connection that the worker
  holds has a deadline, the poll that follows returns no later than that: its
  timeout is there and it is at most the time left.
\<close>

theorem server_wakes:
  assumes "srv_reach D A w" and "slot_get (sv_clients w) i = Some c" and "cl_deadline c = Some d"
  shows "\<exists>t. srv_timeout now w = Some t \<and> t \<le> d - now"
proof -
  obtain s where s: "Reverse (s, i) \<in> set (sv_timers w)" "s \<le> d"
    using srv_reach_client [OF assms(1,2)] assms(3) by (auto simp: client_ok_def)
  then obtain r where r: "heap_peek (sv_timers w) = Some r"
    using bin_heap.peek_None [of "sv_timers w"] by fastforce
  obtain x where x: "r = Reverse x" by (cases r)
  have "fst x \<le> s" using heap_timer_min [of "sv_timers w" x "(s, i)"] r x s(1) by (auto simp: less_eq_prod_def)
  then show ?thesis using r x s(2) by (auto simp: srv_timeout_def)
qed

end
