(* ===== verification/Server_Runs.thy ===== *)
theory Server_Runs
  imports Server_Run "HOL-Library.Code_Target_Nat"
begin

text \<open>
  Runs of the server's worker, evaluated: a client's first datagram arrives, the
  connection is accepted and its request for \<^verbatim>\<open>/echo\<close> is answered. They instantiate
  the properties of \<^theory_text>\<open>Server_Inv\<close> and \<^theory_text>\<open>Server_Run\<close>.
\<close>

lemma loop_body_bound: "body_bound loop_deps"
  by (simp add: body_bound_def loop_deps_def loop_h3api_def)

lemma response_delivered_witness:
  "resume_seq loop_deps [(\<lparr>lh_next = 0, lh_events = [], lh_bodies = []\<rparr>, False)]
     \<lparr>pr_stream = 0, pr_headers = Some [header '':status'' ''200''], pr_body = [1, 2, 3], pr_off = 0\<rparr> =
     ([[header '':status'' ''200'']], [1, 2, 3],
      \<lparr>pr_stream = 0, pr_headers = None, pr_body = [1, 2, 3], pr_off = 3\<rparr>, False, False) \<and>
   prefix [1, 2, 3] ([1, 2, 3] :: bytes)"
proof -
  have eq: "resume_seq loop_deps [(\<lparr>lh_next = 0, lh_events = [], lh_bodies = []\<rparr>, False)]
     \<lparr>pr_stream = 0, pr_headers = Some [header '':status'' ''200''], pr_body = [1, 2, 3], pr_off = 0\<rparr> =
     ([[header '':status'' ''200'']], [1, 2, 3],
      \<lparr>pr_stream = 0, pr_headers = None, pr_body = [1, 2, 3], pr_off = 3\<rparr>, False, False)"
    by (simp add: resume_sent_def body_sent_def resume_def resume_body_def loop_deps_def loop_h3api_def)
  with response_delivered [OF loop_body_bound eq] show ?thesis by simp
qed

text \<open>A socket is the datagrams that wait in it; a connection ID is the datagram itself.\<close>

type_synonym inbox = "(bytes \<times> socket_addr) list"

definition inbox_os :: "(nat, inbox) os_ops" where
  "inbox_os = \<lparr>
     os_now = (\<lambda>w. (w, w + 1)),
     os_rand = (\<lambda>n w. (replicate n 7, w)),
     os_bind = (\<lambda>a w. (Inr [], w)),
     os_connect = (\<lambda>s a. (None, s)),
     os_local_addr = (\<lambda>s. Inr \<lparr>sa_ip = V4 0, sa_port = 443\<rparr>),
     os_set_buffers = (\<lambda>s. s),
     os_register = (\<lambda>s i w. (None, w)),
     os_deregister = (\<lambda>s w. w),
     os_recv = (\<lambda>s. (Inl \<lparr>ioe_kind = WouldBlock, ioe_raw_os_error = None, ioe_text = []\<rparr>, s)),
     os_send = (\<lambda>s d. (None, s)),
     os_enobufs = 105,
     os_show_addr = (\<lambda>a. ''peer'')\<rparr>"

definition inbox_deps :: "(nat, inbox, bool, loop_h3) deps" where
  "inbox_deps = \<lparr>os = inbox_os, quic = loop_quic\<lparr>q_timeout_instant := (\<lambda>q. Some 500)\<rparr>,
     h3api = loop_h3api\<lparr>h3_with_transport := (\<lambda>q.
       (Inr \<lparr>lh_next = 4, lh_events = [(0, EvHeaders [(''content-length'', str_bytes ''2''), ('':path'', ECHO_PATH)]),
          (0, EvData)], lh_bodies = [(0, [8, 9])]\<rparr>, q))\<rparr>, fuel = 20\<rparr>"

definition inbox_ops :: "(inbox, bool) accept_ops" where
  "inbox_ops = \<lparr>
     ac_header = (\<lambda>d n. Some \<lparr>ph_initial = True, ph_version = 1, ph_dcid = d, ph_scid = []\<rparr>),
     ac_version_ok = (\<lambda>v. v = 1),
     ac_negotiate = (\<lambda>a b. None),
     ac_accept = (\<lambda>scid local peer. Some False),
     ac_recv_from = (\<lambda>s. case s of
         [] \<Rightarrow> (Inl \<lparr>ioe_kind = WouldBlock, ioe_raw_os_error = None, ioe_text = []\<rparr>, [])
       | d # ds \<Rightarrow> (Inr d, ds)),
     ac_send_to = (\<lambda>s d a. (None, s))\<rparr>"

definition here :: socket_addr where "here = \<lparr>sa_ip = V4 0, sa_port = 443\<rparr>"

definition one_client :: "(nat, inbox, bool, loop_h3) server" where
  "one_client = srv_turn inbox_deps inbox_ops [0]
     ((server_new [([], here)] 1024 0)\<lparr>sv_world := 10, sv_sockets := [([([1, 2], here)], here)]\<rparr>)"

lemma one_client_reach: "srv_reach inbox_deps inbox_ops one_client"
  unfolding one_client_def by (rule srv_step [OF srv_init]) (simp_all add: server_new_def)

definition the_client :: "(bool, loop_h3) client" where
  "the_client = \<lparr>cl_conn = False, cl_h3 = Some \<lparr>lh_next = 4, lh_events = [], lh_bodies = []\<rparr>, cl_sock = 0,
     cl_ids = [replicate 16 7, [1, 2]],
     cl_reqs = [(0, \<lparr>sr_echo = True, sr_body = [8, 9], sr_capacity = 2, sr_too_large = False\<rparr>)],
     cl_pending = [], cl_deadline = Some 500, cl_scheduled = Some 500, cl_dirty = False\<rparr>"

lemma one_client_run:
  "slot_get (sv_clients one_client) 0 = Some the_client"
  "map_of (sv_ids one_client) [1, 2] = Some 0"
  by code_simp+

lemma server_tables_witness:
  "\<exists>w k i c sid r. srv_reach inbox_deps inbox_ops w \<and> map_of (sv_ids w) k = Some i \<and>
     slot_get (sv_clients w) i = Some c \<and> k \<in> set (cl_ids c) \<and>
     map_of (cl_reqs c) sid = Some r \<and> sr_body r = [8, 9] \<and> length (sr_body r) \<le> MAX_BODY"
proof -
  let ?r = "\<lparr>sr_echo = True, sr_body = [8, 9], sr_capacity = 2, sr_too_large = False\<rparr>"
  have r: "map_of (cl_reqs the_client) 0 = Some ?r" by (simp add: the_client_def)
  show ?thesis
    using server_tables [OF one_client_reach, of "[1, 2]" 0 the_client 0 ?r] one_client_run r one_client_reach
    by (intro exI [of _ one_client] exI [of _ "[1, 2]"] exI [of _ "0 :: nat"] exI [of _ the_client] exI [of _ ?r]) auto
qed

lemma server_wakes_witness:
  "\<exists>t. srv_timeout 12 one_client = Some t \<and> t \<le> 488"
  using server_wakes [OF one_client_reach one_client_run(1), of 500 12] by (simp add: the_client_def)

end
