(* ===== verification/Text.thy ===== *)
theory Text
  imports Prelude
begin

text \<open>
  The parts of Rust's \<^verbatim>\<open>str\<close> the program uses. A string is its UTF-8 bytes: white space is
  Unicode's, found by its byte sequences, and decoding replaces what is not UTF-8 by
  U+FFFD the way \<^verbatim>\<open>String::from_utf8_lossy\<close> does.
\<close>

subsection \<open>Printing and splitting\<close>

text \<open>
  \<^verbatim>\<open>{:?}\<close> of a string: quoted, with quotes, backslashes and control characters escaped. The
  bytes of a character outside ASCII stand for themselves.
\<close>

definition debug_char :: "char \<Rightarrow> string" where
  "debug_char c =
     (if c = CHR 0x22 then [CHR 0x5C, CHR 0x22]
      else if c = CHR 0x5C then [CHR 0x5C, CHR 0x5C]
      else if c = CHR 0x0A then [CHR 0x5C, CHR ''n'']
      else if c = CHR 0x0D then [CHR 0x5C, CHR ''r'']
      else if c = CHR 0x09 then [CHR 0x5C, CHR ''t'']
      else if c = CHR 0x00 then [CHR 0x5C, CHR ''0'']
      else if (of_char c :: nat) < 32 \<or> (of_char c :: nat) = 127
      then [CHR 0x5C] @ ''u{'' @ show_hex_digits (of_char c) @ ''}''
      else [c])"

definition show_debug :: "string \<Rightarrow> string" where
  "show_debug s = [CHR 0x22] @ concat (map debug_char s) @ [CHR 0x22]"

text \<open>\<^verbatim>\<open>s.split_once(c)\<close>\<close>

definition split_once :: "char \<Rightarrow> string \<Rightarrow> (string \<times> string) option" where
  "split_once c s =
     (case dropWhile (\<lambda>x. x \<noteq> c) s of [] \<Rightarrow> None | _ # t \<Rightarrow> Some (takeWhile (\<lambda>x. x \<noteq> c) s, t))"

text \<open>\<^verbatim>\<open>trim_start_matches\<close> and \<^verbatim>\<open>trim_end_matches\<close> of a character.\<close>

definition trim_start_matches :: "char \<Rightarrow> string \<Rightarrow> string" where
  "trim_start_matches c s = dropWhile (\<lambda>x. x = c) s"

definition trim_end_matches :: "char \<Rightarrow> string \<Rightarrow> string" where
  "trim_end_matches c s = rev (dropWhile (\<lambda>x. x = c) (rev s))"

text \<open>\<^verbatim>\<open>rsplit(c).next()\<close>: what follows the last \<open>c\<close>, or the whole string.\<close>

definition after_last :: "char \<Rightarrow> string \<Rightarrow> string" where
  "after_last c s = rev (takeWhile (\<lambda>x. x \<noteq> c) (rev s))"

definition ascii_lower :: "char \<Rightarrow> char" where
  "ascii_lower c = (if 65 \<le> (of_char c :: nat) \<and> (of_char c :: nat) \<le> 90 then char_of (of_char c + 32 :: nat) else c)"

definition eq_ignore_ascii_case :: "string \<Rightarrow> string \<Rightarrow> bool" where
  "eq_ignore_ascii_case s t \<longleftrightarrow> map ascii_lower s = map ascii_lower t"

subsection \<open>White space\<close>

definition byte_at :: "string \<Rightarrow> nat \<Rightarrow> nat" where
  "byte_at s i = (if i < length s then of_char (s ! i) else 0)"

text \<open>The bytes of the white space character a string starts with, none when it does not.\<close>

definition ws_len :: "string \<Rightarrow> nat" where
  "ws_len s =
     (let b0 = byte_at s 0; b1 = byte_at s 1; b2 = byte_at s 2 in
      if s = [] then 0
      else if 9 \<le> b0 \<and> b0 \<le> 13 \<or> b0 = 32 then 1
      else if b0 = 194 \<and> (b1 = 133 \<or> b1 = 160) then 2
      else if b0 = 225 \<and> b1 = 154 \<and> b2 = 128 then 3
      else if b0 = 226 \<and> b1 = 128 \<and> (128 \<le> b2 \<and> b2 \<le> 138 \<or> b2 = 168 \<or> b2 = 169 \<or> b2 = 175) then 3
      else if b0 = 226 \<and> b1 = 129 \<and> b2 = 159 then 3
      else if b0 = 227 \<and> b1 = 128 \<and> b2 = 128 then 3
      else 0)"

lemma ws_len_Nil [simp]: "ws_len [] = 0"
  by (simp add: ws_len_def)

function trim_start :: "string \<Rightarrow> string" where
  "trim_start s = (if ws_len s = 0 then s else trim_start (drop (ws_len s) s))"
  by pat_completeness auto

termination
  by (relation "measure length") (auto simp: ws_len_def Let_def split: if_splits)

function trim_end :: "string \<Rightarrow> string" where
  "trim_end s =
     (if s = [] then []
      else if ws_len s = 0 then hd s # trim_end (tl s)
      else let t = trim_end (drop (ws_len s) s) in if t = [] then [] else take (ws_len s) s @ t)"
  by pat_completeness auto

termination
  by (relation "measure length") (auto simp: ws_len_def Let_def split: if_splits)

declare trim_start.simps [simp del] trim_end.simps [simp del]

definition trim :: "string \<Rightarrow> string" where
  "trim s = trim_end (trim_start s)"

fun first_word :: "string \<Rightarrow> string" where
  "first_word [] = []"
| "first_word (c # s) = (if ws_len (c # s) = 0 then c # first_word s else [])"

lemma trim_start_length: "length (trim_start s) \<le> length s"
proof (induction s rule: trim_start.induct)
  case (1 s)
  then show ?case by (subst trim_start.simps) auto
qed

lemma ws_len_trim_start: "ws_len (trim_start s) = 0"
proof (induction s rule: trim_start.induct)
  case (1 s)
  then show ?case by (subst trim_start.simps) auto
qed

function split_whitespace :: "string \<Rightarrow> string list" where
  "split_whitespace s =
     (let t = trim_start s in
      if t = [] then [] else first_word t # split_whitespace (drop (length (first_word t)) t))"
  by pat_completeness auto

termination
proof (relation "measure length", goal_cases)
  case (2 s t)
  obtain c u where "t = c # u" using 2(2) by (cases t) blast+
  moreover have "length t \<le> length s" "ws_len t = 0" using 2(1) trim_start_length ws_len_trim_start by auto
  ultimately show ?case by (auto simp del: first_word.simps simp: first_word.simps(2))
qed simp

declare split_whitespace.simps [simp del]

text \<open>\<^verbatim>\<open>str::lines\<close>: the line ends, with a carriage return before them, are not part of the lines.\<close>

function lines :: "string \<Rightarrow> string list" where
  "lines s =
     (if s = [] then []
      else
        (let l = takeWhile (\<lambda>c. c \<noteq> CHR 0x0A) s; rest = dropWhile (\<lambda>c. c \<noteq> CHR 0x0A) s in
         (if rest \<noteq> [] \<and> l \<noteq> [] \<and> last l = CHR 0x0D then butlast l else l) # lines (tl rest)))"
  by pat_completeness auto

termination
proof (relation "measure length", goal_cases)
  case (2 s l rest)
  have "length (tl rest) \<le> length rest - 1" "length rest \<le> length s" using 2(3) by (auto simp: length_dropWhile_le)
  moreover have "0 < length s" using 2(1) by simp
  ultimately have "length (tl rest) < length s" by linarith
  then show ?case by simp
qed simp

declare lines.simps [simp del]

subsection \<open>UTF-8\<close>

text \<open>The ranges of the bytes that follow a first byte.\<close>

definition utf8_tail :: "nat \<Rightarrow> (nat \<times> nat) list option" where
  "utf8_tail b =
     (let cont = (128, 191) in
      if b < 128 then Some []
      else if b < 194 then None
      else if b < 224 then Some [cont]
      else if b = 224 then Some [(160, 191), cont]
      else if b = 237 then Some [(128, 159), cont]
      else if b < 240 then Some [cont, cont]
      else if b = 240 then Some [(144, 191), cont, cont]
      else if b < 244 then Some [cont, cont, cont]
      else if b = 244 then Some [(128, 143), cont, cont]
      else None)"

fun tail_match :: "(nat \<times> nat) list \<Rightarrow> string \<Rightarrow> nat" where
  "tail_match ((lo, hi) # rs) (c # s) =
     (if lo \<le> (of_char c :: nat) \<and> (of_char c :: nat) \<le> hi then 1 + tail_match rs s else 0)"
| "tail_match _ _ = 0"

text \<open>
  The first character: whether it is well formed, and how many bytes it takes, or the
  part of a character that one replacement character stands for.
\<close>

definition utf8_step :: "char \<Rightarrow> string \<Rightarrow> bool \<times> nat" where
  "utf8_step c s =
     (case utf8_tail (of_char c) of
        None \<Rightarrow> (False, 1)
      | Some rs \<Rightarrow> (tail_match rs s = length rs, 1 + tail_match rs s))"

function from_utf8_lossy :: "string \<Rightarrow> string" where
  "from_utf8_lossy [] = []"
| "from_utf8_lossy (c # s) =
     (case utf8_step c s of (ok, n) \<Rightarrow>
        (if ok then take n (c # s) else [CHR 0xEF, CHR 0xBF, CHR 0xBD]) @ from_utf8_lossy (drop n (c # s)))"
  by pat_completeness auto

termination
  by (relation "measure length") (auto simp: utf8_step_def split: option.splits)

function utf8_valid :: "string \<Rightarrow> bool" where
  "utf8_valid [] = True"
| "utf8_valid (c # s) = (case utf8_step c s of (ok, n) \<Rightarrow> ok \<and> utf8_valid (drop n (c # s)))"
  by pat_completeness auto

termination
  by (relation "measure length") (auto simp: utf8_step_def split: option.splits)

subsection \<open>Lemmas\<close>

lemma takeWhile_neq_append: "c \<notin> set xs \<Longrightarrow> takeWhile (\<lambda>x. x \<noteq> c) (xs @ c # ys) = xs"
  by (induction xs) auto

lemma dropWhile_neq_append: "c \<notin> set xs \<Longrightarrow> dropWhile (\<lambda>x. x \<noteq> c) (xs @ c # ys) = c # ys"
  by (induction xs) auto

lemma dropWhile_neq_Nil: "c \<notin> set xs \<Longrightarrow> dropWhile (\<lambda>x. x \<noteq> c) xs = []"
  by (induction xs) auto

lemma split_once_append [simp]: "c \<notin> set xs \<Longrightarrow> split_once c (xs @ c # ys) = Some (xs, ys)"
  by (simp add: split_once_def takeWhile_neq_append dropWhile_neq_append)

lemma split_once_None [simp]: "c \<notin> set xs \<Longrightarrow> split_once c xs = None"
  by (simp add: split_once_def dropWhile_neq_Nil)

lemma takeWhile_all_append: "list_all P xs \<Longrightarrow> takeWhile P (xs @ ys) = xs @ takeWhile P ys"
  by (induction xs) auto

lemma dropWhile_all_append: "list_all P xs \<Longrightarrow> dropWhile P (xs @ ys) = dropWhile P ys"
  by (induction xs) auto

text \<open>Printable ASCII without the space.\<close>

definition plain :: "char \<Rightarrow> bool" where
  "plain c \<longleftrightarrow> 33 \<le> (of_char c :: nat) \<and> (of_char c :: nat) \<le> 126"

definition ascii :: "char \<Rightarrow> bool" where
  "ascii c \<longleftrightarrow> (of_char c :: nat) < 128"

lemma ws_len_plain [simp]: "plain c \<Longrightarrow> ws_len (c # s) = 0"
  by (simp add: ws_len_def plain_def byte_at_def Let_def)

lemma ws_len_space [simp]: "ws_len (CHR '' '' # s) = 1"
  by (simp add: ws_len_def byte_at_def)

lemma ws_len_nl [simp]: "ws_len (CHR 0x0A # s) = 1"
  by (simp add: ws_len_def byte_at_def)

lemma ws_len_cr [simp]: "ws_len (CHR 0x0D # s) = 1"
  by (simp add: ws_len_def byte_at_def)

lemma plain_digits: "list_all plain (show_nat n)"
  using show_nat_digits [of n] by (auto simp: list_all_iff plain_def is_ascii_digit_def)

lemma plain_show_int: "list_all plain (show_int i)"
  using plain_digits by (auto simp: show_int_def plain_def)

lemma plain_ascii: "list_all plain s \<Longrightarrow> list_all ascii s"
  by (auto simp: list_all_iff plain_def ascii_def)

lemma first_word_plain: "list_all plain w \<Longrightarrow> 0 < ws_len s \<or> s = [] \<Longrightarrow> first_word (w @ s) = w"
  by (induction w) (cases s; auto)+

lemma trim_start_plain: "list_all plain w \<Longrightarrow> w \<noteq> [] \<Longrightarrow> trim_start (w @ s) = w @ s"
  by (cases w) (auto simp: trim_start.simps)

lemma trim_start_ws: "0 < ws_len s \<Longrightarrow> trim_start s = trim_start (drop (ws_len s) s)"
  by (subst trim_start.simps) simp

lemma trim_end_plain: "list_all plain w \<Longrightarrow> trim_end w = w"
  by (induction w) (auto simp: trim_end.simps)

lemma trim_plain: "list_all plain w \<Longrightarrow> trim w = w"
  using trim_start_plain [of w "[]"]
  by (cases "w = []") (simp_all add: trim_def trim_end_plain trim_start.simps [of "[]"])

lemma split_whitespace_Nil [simp]: "split_whitespace [] = []"
  by (simp add: split_whitespace.simps trim_start.simps)

lemma split_whitespace_word:
  assumes "list_all plain w" and "w \<noteq> []" and "0 < ws_len s \<or> s = []"
  shows "split_whitespace (w @ s) = w # split_whitespace s"
  using assms by (subst split_whitespace.simps) (simp add: trim_start_plain first_word_plain)

lemma split_whitespace_ws: "0 < ws_len s \<Longrightarrow> split_whitespace s = split_whitespace (drop (ws_len s) s)"
  by (subst (1 2) split_whitespace.simps) (simp add: trim_start_ws [of s])

lemma utf8_step_ascii: "ascii c \<Longrightarrow> utf8_step c s = (True, 1)"
  by (cases s) (simp_all add: utf8_step_def utf8_tail_def ascii_def)

lemma lossy_ascii: "list_all ascii s \<Longrightarrow> from_utf8_lossy s = s"
  by (induction s) (simp_all add: utf8_step_ascii)

lemma utf8_valid_ascii: "list_all ascii s \<Longrightarrow> utf8_valid s"
  by (induction s) (simp_all add: utf8_step_ascii)

end
