(* ===== verification/Config.thy ===== *)
theory Config
  imports Text Quiche_Api
begin

text \<open>
  \<^verbatim>\<open>benchcli-rust/src/config.rs\<close>: the frameworks with their ports, the addresses the client
  dials and the address of the control port. Resolving a host, parsing an address and
  binding a socket to see whether an address is local are the operating system's: they
  are arguments. The theorem: every framework has its own fifty ports and control port; a
  lemma: an address in brackets means the same as one without.
\<close>

subsection \<open>The table\<close>

type_synonym framework = "string \<times> nat \<times> nat \<times> bool"

definition FRAMEWORKS :: "framework list" where
  "FRAMEWORKS =
     [(''fib'', 3001, 3050, True), (''gin'', 3101, 3150, True),
      (''quicgo'', 3201, 3250, True), (''quiche'', 3301, 3350, False)]"

definition framework_names :: "string list" where
  "framework_names = map fst FRAMEWORKS"

definition ports :: "string \<Rightarrow> (nat \<times> nat) option" where
  "ports framework =
     map_option (\<lambda>(_, lo, hi, _). (lo, hi)) (find (\<lambda>f. fst f = framework) FRAMEWORKS)"

definition is_framework :: "string \<Rightarrow> bool" where
  "is_framework framework \<longleftrightarrow> ports framework \<noteq> None"

definition serves_pprof :: "string \<Rightarrow> bool" where
  "serves_pprof framework \<longleftrightarrow> list_ex (\<lambda>(name, _, _, pprof). name = framework \<and> pprof) FRAMEWORKS"

subsection \<open>Addresses\<close>

text \<open>\<^verbatim>\<open>to_socket_addrs\<close> of a host and a port: the error, or the addresses it found.\<close>

type_synonym resolver = "string \<Rightarrow> nat \<Rightarrow> string + socket_addr list"

definition bare_host :: "string \<Rightarrow> string" where
  "bare_host ip = trim_end_matches (CHR '']'') (trim_start_matches (CHR ''['') ip)"

text \<open>The first address of a host, with the messages both functions below have.\<close>

definition first_addr :: "resolver \<Rightarrow> string \<Rightarrow> nat \<Rightarrow> string + socket_addr" where
  "first_addr resolve host port =
     (case resolve host port of
        Inl e \<Rightarrow> Inl (''resolve '' @ host @ '': '' @ e)
      | Inr [] \<Rightarrow> Inl (''resolve '' @ host @ '': no address'')
      | Inr (a # _) \<Rightarrow> Inr a)"

definition benchmark_addrs :: "resolver \<Rightarrow> string \<Rightarrow> string \<Rightarrow> string + socket_addr list" where
  "benchmark_addrs resolve framework ip =
     (case ports framework of
        None \<Rightarrow> Inl (''unknown framework '' @ show_debug framework)
      | Some (lo, hi) \<Rightarrow>
          (case first_addr resolve (bare_host ip) lo of
             Inl e \<Rightarrow> Inl e
           | Inr base \<Rightarrow> Inr (map (\<lambda>port. \<lparr>sa_ip = sa_ip base, sa_port = port\<rparr>) [lo..<hi + 1])))"

definition control_addr :: "resolver \<Rightarrow> string \<Rightarrow> string \<Rightarrow> string + socket_addr" where
  "control_addr resolve framework ip =
     (case ports framework of
        None \<Rightarrow> Inl (''unknown framework '' @ show_debug framework)
      | Some (lo, hi) \<Rightarrow> first_addr resolve (bare_host ip) (hi + 1))"

definition authority :: "string \<Rightarrow> string" where
  "authority ip = (if CHR '':'' \<in> set ip \<and> \<not> prefix ''['' ip then ''['' @ ip @ '']'' else ip)"

definition is_loopback :: "ip_addr \<Rightarrow> bool" where
  "is_loopback a = (case a of V4 n \<Rightarrow> n div 2 ^ 24 = 127 | V6 n \<Rightarrow> n = 1)"

definition is_unspecified :: "ip_addr \<Rightarrow> bool" where
  "is_unspecified a = (case a of V4 n \<Rightarrow> n = 0 | V6 n \<Rightarrow> n = 0)"

definition is_local_host :: "(string \<Rightarrow> ip_addr option) \<Rightarrow> resolver \<Rightarrow> (ip_addr \<Rightarrow> bool) \<Rightarrow> string \<Rightarrow> bool" where
  "is_local_host parse_ip resolve can_bind ip =
     (let host = bare_host ip in
      if host = [] then False
      else
        (case (case parse_ip host of
                 Some a \<Rightarrow> Some [a]
               | None \<Rightarrow> (case resolve host 0 of Inr addrs \<Rightarrow> Some (map sa_ip addrs) | Inl _ \<Rightarrow> None)) of
           None \<Rightarrow> False
         | Some ips \<Rightarrow> list_ex (\<lambda>a. is_loopback a \<or> is_unspecified a \<or> can_bind a) ips))"

subsection \<open>The ports\<close>

lemma ports_simps:
  "ports framework =
     (if framework = ''fib'' then Some (3001, 3050)
      else if framework = ''gin'' then Some (3101, 3150)
      else if framework = ''quicgo'' then Some (3201, 3250)
      else if framework = ''quiche'' then Some (3301, 3350)
      else None)"
  by (auto simp: ports_def FRAMEWORKS_def)

lemma is_framework_names: "is_framework framework \<longleftrightarrow> framework \<in> set framework_names"
  by (simp add: is_framework_def ports_simps framework_names_def FRAMEWORKS_def)

text \<open>All ports of a framework: the ones of the benchmarks and the control port.\<close>

definition all_ports :: "string \<Rightarrow> nat set" where
  "all_ports framework = (case ports framework of None \<Rightarrow> {} | Some (lo, hi) \<Rightarrow> {lo..hi + 1})"

text \<open>
  C25. The client dials the ports of the framework it benchmarks. For each framework, on
  a host that resolves: the addresses are fifty, on one host, at consecutive ports; the
  control address has the port after them; and no other framework has any of these
  ports. For a name that is not in the table both functions return the error that says
  so, whatever the resolver does.
\<close>

theorem addresses:
  assumes "\<forall>h p. case resolve h p of Inl _ \<Rightarrow> True | Inr as \<Rightarrow> list_all (\<lambda>a. sa_port a = p) as"
  shows "if framework \<in> set framework_names
    then (\<forall>addrs. benchmark_addrs resolve framework ip = Inr addrs \<longrightarrow>
            length addrs = 50 \<and>
            (\<exists>a lo. set addrs \<subseteq> {b. sa_ip b = a \<and> sa_port b \<in> all_ports framework} \<and>
               map sa_port addrs = [lo..<lo + 50] \<and> lo + 50 \<in> all_ports framework \<and>
               (\<forall>ctl. control_addr resolve framework ip = Inr ctl \<longrightarrow> sa_port ctl = lo + 50))) \<and>
         (\<forall>g. g \<noteq> framework \<longrightarrow> all_ports g \<inter> all_ports framework = {})
    else benchmark_addrs resolve framework ip = Inl (''unknown framework '' @ show_debug framework) \<and>
         control_addr resolve framework ip = Inl (''unknown framework '' @ show_debug framework)"
proof (cases "framework \<in> set framework_names")
  case False
  then have "ports framework = None" using is_framework_names [of framework] by (cases "ports framework") (auto simp: is_framework_def)
  then show ?thesis using False by (simp add: benchmark_addrs_def control_addr_def)
next
  case True
  then obtain lo where lo: "ports framework = Some (lo, lo + 49)"
    by (auto simp: ports_simps framework_names_def FRAMEWORKS_def)
  have port: "sa_port a = p" if "first_addr resolve h p = Inr a" for h p a
    using spec [OF spec [OF assms, of h], of p] that by (auto simp: first_addr_def split: sum.splits list.splits)
  have "\<exists>a lo. set addrs \<subseteq> {b. sa_ip b = a \<and> sa_port b \<in> all_ports framework} \<and>
      map sa_port addrs = [lo..<lo + 50] \<and> lo + 50 \<in> all_ports framework \<and>
      (\<forall>ctl. control_addr resolve framework ip = Inr ctl \<longrightarrow> sa_port ctl = lo + 50)" and "length addrs = 50"
    if b: "benchmark_addrs resolve framework ip = Inr addrs" for addrs
  proof -
    obtain base where "first_addr resolve (bare_host ip) lo = Inr base"
      using b lo by (auto simp: benchmark_addrs_def split: sum.splits)
    then have addrs: "addrs = map (\<lambda>p. \<lparr>sa_ip = sa_ip base, sa_port = p\<rparr>) [lo..<lo + 50]"
      using b lo by (simp add: benchmark_addrs_def add.commute [of lo] del: upt_Suc)
    have "\<forall>ctl. control_addr resolve framework ip = Inr ctl \<longrightarrow> sa_port ctl = lo + 50"
      using port by (auto simp: control_addr_def lo)
    then show "\<exists>a lo. set addrs \<subseteq> {b. sa_ip b = a \<and> sa_port b \<in> all_ports framework} \<and>
      map sa_port addrs = [lo..<lo + 50] \<and> lo + 50 \<in> all_ports framework \<and>
      (\<forall>ctl. control_addr resolve framework ip = Inr ctl \<longrightarrow> sa_port ctl = lo + 50)"
      by (intro exI [of _ "sa_ip base"] exI [of _ lo]) (auto simp: addrs all_ports_def lo comp_def)
    show "length addrs = 50" by (simp add: addrs)
  qed
  moreover have "all_ports g \<inter> all_ports framework = {}" if "g \<noteq> framework" for g
    using that by (auto simp: all_ports_def ports_simps split: if_splits)
  ultimately show ?thesis using True by simp
qed

text \<open>
  A host in brackets is the host. For an address without brackets, the authority the
  client sends has the brackets of a URL exactly when the address has a colon, adding
  them twice changes nothing, and giving the address with the brackets dials the same
  addresses and finds the same control port.
\<close>

lemma bracketed_host:
  assumes "ip \<noteq> []" and "hd ip \<noteq> CHR ''[''" and "last ip \<noteq> CHR '']''"
  shows "authority ip = (if CHR '':'' \<in> set ip then ''['' @ ip @ '']'' else ip) \<and>
    authority (authority ip) = authority ip \<and> bare_host (authority ip) = ip \<and>
    benchmark_addrs resolve framework (authority ip) = benchmark_addrs resolve framework ip \<and>
    control_addr resolve framework (authority ip) = control_addr resolve framework ip"
proof -
  have a: "authority ip = (if CHR '':'' \<in> set ip then ''['' @ ip @ '']'' else ip)"
    using assms(1,2) by (cases ip) (auto simp: authority_def)
  have aa: "authority (authority ip) = authority ip" using a by (simp add: authority_def)
  have start: "trim_start_matches (CHR ''['') (ip @ s) = ip @ s" for s
    using assms(1,2) by (cases ip) (simp_all add: trim_start_matches_def)
  have fin: "trim_end_matches (CHR '']'') ip = ip"
    using assms(1,3) by (cases ip rule: rev_cases) (simp_all add: trim_end_matches_def)
  have b: "bare_host ip = ip" using start [of "[]"] fin by (simp add: bare_host_def)
  have "bare_host (''['' @ ip @ '']'') = trim_end_matches (CHR '']'') (ip @ '']'')"
    using start [of "'']''"] by (simp add: bare_host_def trim_start_matches_def)
  also have "\<dots> = ip" using fin by (simp add: trim_end_matches_def)
  finally have bb: "bare_host (authority ip) = ip" using a b by simp
  show ?thesis
    by (intro conjI a aa bb; simp only: benchmark_addrs_def control_addr_def bb b)
qed

text \<open>A resolver for one address.\<close>

definition loopback_resolver :: resolver where
  "loopback_resolver h p = Inr [\<lparr>sa_ip = V6 1, sa_port = p\<rparr>]"

theorem addresses_witness:
  "\<exists>addrs. benchmark_addrs loopback_resolver ''quicgo'' ''::1'' = Inr addrs \<and> length addrs = 50"
proof -
  have "benchmark_addrs loopback_resolver ''quicgo'' ''::1'' =
      Inr (map (\<lambda>p. \<lparr>sa_ip = V6 1, sa_port = p\<rparr>) [3201..<3251])"
    by (simp add: benchmark_addrs_def ports_simps first_addr_def loopback_resolver_def)
  moreover have "''quicgo'' \<in> set framework_names" by (simp add: framework_names_def FRAMEWORKS_def)
  ultimately show ?thesis
    using addresses [of loopback_resolver "''quicgo''" "''::1''"] by (simp add: loopback_resolver_def)
qed

end
