(* ===== verification/Flags.thy ===== *)
theory Flags
  imports Float64 Text "HOL-Library.Char_ord" "HOL-Library.List_Lexorder"
begin

text \<open>
  The command line, \<^verbatim>\<open>benchkit/src/flags.rs\<close>: a set of flags with their kinds, defaults
  and values, the parser that reads arguments the way Go's flag package does, and the
  durations it accepts. A string is its UTF-8 bytes. The lemmas: what a parse leaves in
  the set has been checked, the three ways to write a flag are the same, the last value
  wins, and a printed number or duration is read back as it was.
\<close>

subsection \<open>Values\<close>

definition parse_bool :: "string \<Rightarrow> bool option" where
  "parse_bool v =
     (if v \<in> set [''1'', ''t'', ''T'', ''true'', ''TRUE'', ''True''] then Some True
      else if v \<in> set [''0'', ''f'', ''F'', ''false'', ''FALSE'', ''False''] then Some False
      else None)"

text \<open>
  \<^verbatim>\<open>str::parse::<f64>\<close> of digits and dots: digits with one dot at most, rounded once to the
  nearest \<^verbatim>\<open>f64\<close>.
\<close>

definition digits_val :: "string \<Rightarrow> nat" where
  "digits_val s = foldl (\<lambda>n c. 10 * n + digit_val c) 0 s"

definition parse_decimal :: "string \<Rightarrow> f64 option" where
  "parse_decimal s =
     (let a = takeWhile (\<lambda>c. c \<noteq> CHR ''.'') s; b = drop 1 (dropWhile (\<lambda>c. c \<noteq> CHR ''.'') s)
      in if a @ b = [] \<or> \<not> list_all is_ascii_digit (a @ b) then None
         else Some (f64_rnd (of_nat (digits_val (a @ b)) / 10 ^ length b)))"

definition numeric :: "char \<Rightarrow> bool" where
  "numeric c \<longleftrightarrow> is_ascii_digit c \<or> c = CHR ''.''"

text \<open>The scale of a unit, the \<^verbatim>\<open>f64\<close> next to the literal of the code.\<close>

definition unit_scale :: "string \<Rightarrow> f64 option" where
  "unit_scale u =
     (if u = ''ns'' then Some (f64_rnd (1 / 10 ^ 9))
      else if u = ''us'' \<or> u = [CHR 0xC2, CHR 0xB5, CHR ''s''] then Some (f64_rnd (1 / 10 ^ 6))
      else if u = ''ms'' then Some (f64_rnd (1 / 10 ^ 3))
      else if u = ''s'' then Some 1
      else if u = ''m'' then Some 60
      else if u = ''h'' then Some 3600
      else None)"

function dur_loop :: "string \<Rightarrow> f64 \<Rightarrow> f64 option" where
  "dur_loop rest total_s =
     (if rest = [] then Some total_s
      else if takeWhile numeric rest = [] then None
      else
        (case parse_decimal (takeWhile numeric rest) of
           None \<Rightarrow> None
         | Some number \<Rightarrow>
             (let rest1 = dropWhile numeric rest in
              case unit_scale (takeWhile (\<lambda>c. \<not> numeric c) rest1) of
                None \<Rightarrow> None
              | Some scale \<Rightarrow>
                  dur_loop (dropWhile (\<lambda>c. \<not> numeric c) rest1) (fadd total_s (fmul number scale)))))"
  by pat_completeness auto

termination
proof (relation "measure (\<lambda>(rest, t). length rest)", goal_cases)
  case (2 rest t number rest1 scale)
  have "length (takeWhile numeric rest) + length rest1 = length rest"
    using 2(4) by (metis length_append takeWhile_dropWhile_id)
  moreover have "length (dropWhile (\<lambda>c. \<not> numeric c) rest1) \<le> length rest1" by (rule length_dropWhile_le)
  moreover have "0 < length (takeWhile numeric rest)" using 2(2) by simp
  ultimately have "length (dropWhile (\<lambda>c. \<not> numeric c) rest1) < length rest" by linarith
  then show ?case by simp
qed simp

declare dur_loop.simps [simp del]

text \<open>
  \<^verbatim>\<open>parse_duration\<close>; \<^term>\<open>Inl ()\<close> is the panic of \<^verbatim>\<open>Duration::from_secs_f64\<close> on a number of
  seconds that does not fit.
\<close>

definition parse_duration :: "string \<Rightarrow> unit + duration option" where
  "parse_duration s =
     (if s = ''0'' then Inr (Some 0)
      else if s = [] then Inr None
      else case dur_loop s 0 of
        None \<Rightarrow> Inr None
      | Some t \<Rightarrow> (case from_secs_f64 t of None \<Rightarrow> Inl () | Some d \<Rightarrow> Inr (Some d)))"

subsection \<open>The set of flags\<close>

datatype kind = FBool | FInt | FStr | FDuration

record flag =
  fl_kind :: kind
  fl_default :: string
  fl_usage :: string
  fl_value :: "string option"

type_synonym flag_set = "(string \<times> flag) list"

definition flag_add :: "string \<Rightarrow> kind \<Rightarrow> string \<Rightarrow> string \<Rightarrow> flag_set \<Rightarrow> flag_set" where
  "flag_add name k def usage fs =
     AList.update name \<lparr>fl_kind = k, fl_default = def, fl_usage = usage, fl_value = None\<rparr> fs"

definition flag_bool :: "string \<Rightarrow> bool \<Rightarrow> string \<Rightarrow> flag_set \<Rightarrow> flag_set" where
  "flag_bool name def usage = flag_add name FBool (if def then ''true'' else ''false'') usage"

definition flag_int :: "string \<Rightarrow> int \<Rightarrow> string \<Rightarrow> flag_set \<Rightarrow> flag_set" where
  "flag_int name def usage = flag_add name FInt (show_int def) usage"

definition flag_string :: "string \<Rightarrow> string \<Rightarrow> string \<Rightarrow> flag_set \<Rightarrow> flag_set" where
  "flag_string name def usage = flag_add name FStr def usage"

definition flag_duration :: "string \<Rightarrow> string \<Rightarrow> string \<Rightarrow> flag_set \<Rightarrow> flag_set" where
  "flag_duration name def usage = flag_add name FDuration def usage"

text \<open>How reading a command line fails: with a message to print, or in a panic.\<close>

datatype flag_error = Message string | FlagPanic

definition check :: "string \<Rightarrow> kind \<Rightarrow> string \<Rightarrow> flag_error option" where
  "check name k v =
     (let bad = Some (Message (''invalid value '' @ show_debug v @ '' for flag -'' @ name)) in
      case k of
        FBool \<Rightarrow> if parse_bool v \<noteq> None then None else bad
      | FInt \<Rightarrow> if parse_i64 v \<noteq> None then None else bad
      | FStr \<Rightarrow> None
      | FDuration \<Rightarrow> (case parse_duration v of Inl _ \<Rightarrow> Some FlagPanic | Inr None \<Rightarrow> bad | Inr (Some _) \<Rightarrow> None))"

definition set_flag :: "string \<Rightarrow> flag \<Rightarrow> string \<Rightarrow> flag_set \<Rightarrow> flag_set" where
  "set_flag name fl v fs = AList.update name (fl\<lparr>fl_value := Some v\<rparr>) fs"

text \<open>The value of a flag: inline, \<^verbatim>\<open>true\<close> for a bare boolean, or the next argument.\<close>

definition flag_arg :: "string \<Rightarrow> string option \<Rightarrow> kind \<Rightarrow> string list \<Rightarrow> flag_error + string \<times> string list" where
  "flag_arg name inline k rest =
     (case inline of
        Some v \<Rightarrow> Inr (v, rest)
      | None \<Rightarrow>
          if k = FBool then Inr (''true'', rest)
          else (case rest of
                  [] \<Rightarrow> Inl (Message (''flag needs an argument: -'' @ name))
                | v # rest' \<Rightarrow> Inr (v, rest')))"

lemma flag_arg_shorter: "flag_arg name inline k rest = Inr (v, rest') \<Longrightarrow> length rest' \<le> length rest"
  by (auto simp: flag_arg_def split: option.splits if_splits list.splits)

definition name_value :: "string \<Rightarrow> string \<times> string option" where
  "name_value body = (case split_once (CHR ''='') body of Some (n, v) \<Rightarrow> (n, Some v) | None \<Rightarrow> (body, None))"

text \<open>\<^verbatim>\<open>parse\<close>: the flags as they are when it returns, with or without an error.\<close>

function parse_flags :: "string list \<Rightarrow> flag_set \<Rightarrow> flag_error option \<times> flag_set" where
  "parse_flags args fs =
     (case args of
        [] \<Rightarrow> (None, fs)
      | arg # rest \<Rightarrow>
          if \<not> prefix ''-'' arg \<or> arg = ''-'' then (Some (Message (''unexpected argument '' @ show_debug arg)), fs)
          else
            (let body = dropWhile (\<lambda>c. c = CHR ''-'') arg in
             if body = [] then
               (case rest of
                  [] \<Rightarrow> (None, fs)
                | a # _ \<Rightarrow> (Some (Message (''unexpected argument '' @ show_debug a)), fs))
             else
               (case name_value body of (name, inline) \<Rightarrow>
                if name = ''h'' \<or> name = ''help'' then (Some (Message []), fs)
                else case map_of fs name of
                  None \<Rightarrow> (Some (Message (''flag provided but not defined: -'' @ name)), fs)
                | Some fl \<Rightarrow>
                    (case flag_arg name inline (fl_kind fl) rest of
                       Inl e \<Rightarrow> (Some e, fs)
                     | Inr (v, rest') \<Rightarrow>
                         (case check name (fl_kind fl) v of
                            Some e \<Rightarrow> (Some e, fs)
                          | None \<Rightarrow> parse_flags rest' (set_flag name fl v fs))))))"
  by pat_completeness auto

termination
  by (relation "measure (\<lambda>(args, fs). length args)") (auto dest!: flag_arg_shorter)

declare parse_flags.simps [simp del]

text \<open>\<^verbatim>\<open>raw\<close> panics, \<^term>\<open>None\<close> here, on a flag that was not defined.\<close>

definition raw :: "flag_set \<Rightarrow> string \<Rightarrow> string option" where
  "raw fs name =
     (case map_of fs name of
        None \<Rightarrow> None
      | Some fl \<Rightarrow> Some (case fl_value fl of Some v \<Rightarrow> v | None \<Rightarrow> fl_default fl))"

definition get_bool :: "flag_set \<Rightarrow> string \<Rightarrow> bool option" where
  "get_bool fs name =
     map_option (\<lambda>v. case parse_bool v of Some b \<Rightarrow> b | None \<Rightarrow> False) (raw fs name)"

definition get_int :: "flag_set \<Rightarrow> string \<Rightarrow> int option" where
  "get_int fs name = map_option (\<lambda>v. case parse_i64 v of Some i \<Rightarrow> i | None \<Rightarrow> 0) (raw fs name)"

definition get_str :: "flag_set \<Rightarrow> string \<Rightarrow> string option" where
  "get_str fs name = raw fs name"

definition get_duration :: "flag_set \<Rightarrow> string \<Rightarrow> duration option" where
  "get_duration fs name =
     (case raw fs name of
        None \<Rightarrow> None
      | Some v \<Rightarrow> (case parse_duration v of Inl _ \<Rightarrow> None | Inr d \<Rightarrow> Some (case d of None \<Rightarrow> 0 | Some t \<Rightarrow> t)))"

definition kind_name :: "kind \<Rightarrow> string" where
  "kind_name k = (case k of FBool \<Rightarrow> [] | FInt \<Rightarrow> '' int'' | FStr \<Rightarrow> '' string'' | FDuration \<Rightarrow> '' duration'')"

text \<open>A \<^verbatim>\<open>BTreeMap\<close> lists its flags in the order of their names.\<close>

definition usage :: "flag_set \<Rightarrow> string \<Rightarrow> string" where
  "usage fs program =
     ''Usage of '' @ program @ '':'' @ [CHR 0x0A] @
     concat (map (\<lambda>(name, fl). ''  -'' @ name @ kind_name (fl_kind fl) @ [CHR 0x0A] @ ''    '' @ [CHR 0x09] @
         fl_usage fl @ '' (default '' @ show_debug (fl_default fl) @ '')'' @ [CHR 0x0A])
       (sort_key fst fs))"

subsection \<open>How a flag is written\<close>

text \<open>A name that can be written on a command line.\<close>

definition good_name :: "string \<Rightarrow> bool" where
  "good_name name \<longleftrightarrow>
     name \<noteq> [] \<and> hd name \<noteq> CHR ''-'' \<and> CHR ''='' \<notin> set name \<and> name \<noteq> ''h'' \<and> name \<noteq> ''help''"

lemma dash_body:
  assumes "good_name name"
  shows "dropWhile (\<lambda>c. c = CHR ''-'') (replicate k (CHR ''-'') @ name @ s) = name @ s"
proof -
  obtain c t where "name = c # t" "c \<noteq> CHR ''-''" using assms by (cases name) (auto simp: good_name_def)
  then show ?thesis by (induction k) simp_all
qed

text \<open>One step of the parser on a flag, with its value inline or in the next argument.\<close>

lemma parse_inline:
  assumes "good_name name" and "map_of fs name = Some fl" and "0 < k"
  shows "parse_flags ((replicate k (CHR ''-'') @ name @ ''='' @ v) # rest) fs =
    (case check name (fl_kind fl) v of Some e \<Rightarrow> (Some e, fs) | None \<Rightarrow> parse_flags rest (set_flag name fl v fs))"
proof -
  let ?arg = "replicate k (CHR ''-'') @ name @ ''='' @ v"
  have "prefix ''-'' ?arg" "?arg \<noteq> ''-''" using assms by (cases k; simp add: good_name_def)+
  moreover have "dropWhile (\<lambda>c. c = CHR ''-'') ?arg = name @ ''='' @ v" by (rule dash_body [OF assms(1)])
  moreover have "name_value (name @ ''='' @ v) = (name, Some v)"
    using assms(1) by (simp add: name_value_def good_name_def)
  ultimately show ?thesis
    using assms by (subst parse_flags.simps) (simp add: flag_arg_def good_name_def)
qed

lemma parse_bare:
  assumes "good_name name" and "map_of fs name = Some fl" and "0 < k"
  shows "parse_flags ((replicate k (CHR ''-'') @ name) # rest) fs =
    (case flag_arg name None (fl_kind fl) rest of
       Inl e \<Rightarrow> (Some e, fs)
     | Inr (v, rest') \<Rightarrow>
         (case check name (fl_kind fl) v of Some e \<Rightarrow> (Some e, fs) | None \<Rightarrow> parse_flags rest' (set_flag name fl v fs)))"
proof -
  let ?arg = "replicate k (CHR ''-'') @ name"
  have "prefix ''-'' ?arg" "?arg \<noteq> ''-''" using assms by (cases k; auto simp add: good_name_def Cons_eq_append_conv)+
  moreover have "dropWhile (\<lambda>c. c = CHR ''-'') ?arg = name" using dash_body [OF assms(1), of k "[]"] by simp
  moreover have "name_value name = (name, None)" using assms(1) by (simp add: name_value_def good_name_def)
  ultimately show ?thesis
    using assms by (subst parse_flags.simps) (simp add: good_name_def)
qed

text \<open>The flags of the tests of the code.\<close>

definition test_flags :: flag_set where
  "test_flags = flag_duration ''dt'' ''5s'' [] (flag_string ''f'' ''quicgo'' []
     (flag_bool ''check'' False [] (flag_int ''c'' 10 [] [])))"

lemmas test_flags_simps = test_flags_def flag_duration_def flag_string_def flag_bool_def flag_int_def flag_add_def

text \<open>
  C20. The ways to write a flag are the same. With one dash or more, \<^verbatim>\<open>-name=value\<close> and,
  for a flag that is not boolean, \<^verbatim>\<open>-name value\<close> set the flag to the same value, or fail
  with the same message; a bare boolean flag is the flag set to true.
\<close>

theorem flag_spellings:
  assumes "good_name name" and "map_of fs name = Some fl" and "0 < k"
  shows "parse_flags ((replicate k (CHR ''-'') @ name @ ''='' @ v) # rest) fs =
         parse_flags ((''-'' @ name @ ''='' @ v) # rest) fs \<and>
         (if fl_kind fl = FBool
          then parse_flags ((replicate k (CHR ''-'') @ name) # rest) fs =
               parse_flags ((''-'' @ name @ ''=true'') # rest) fs
          else parse_flags ((replicate k (CHR ''-'') @ name) # v # rest) fs =
               parse_flags ((''-'' @ name @ ''='' @ v) # rest) fs)"
proof -
  have one: "parse_flags ((''-'' @ name @ ''='' @ u) # rest) fs =
    (case check name (fl_kind fl) u of Some e \<Rightarrow> (Some e, fs) | None \<Rightarrow> parse_flags rest (set_flag name fl u fs))" for u
    using parse_inline [OF assms(1,2), of 1 u rest] by simp
  show ?thesis
    using one [of v] one [of "''true''"] parse_inline [OF assms, of v rest] parse_bare [OF assms]
    by (simp add: flag_arg_def)
qed

theorem flag_spellings_witness:
  "parse_flags [''--f'', ''fib''] test_flags = parse_flags [''-f=fib''] test_flags \<and>
   parse_flags [''-check''] test_flags = parse_flags [''-check=true''] test_flags"
proof
  show "parse_flags [''--f'', ''fib''] test_flags = parse_flags [''-f=fib''] test_flags"
    using flag_spellings [of "''f''" test_flags _ 2 "''fib''" "[]"]
    by (simp add: test_flags_simps good_name_def numeral_2_eq_2)
  show "parse_flags [''-check''] test_flags = parse_flags [''-check=true''] test_flags"
    using flag_spellings [of "''check''" test_flags _ 1 "[]" "[]"] by (simp add: test_flags_simps good_name_def)
qed

subsection \<open>What a parse leaves behind\<close>

definition flag_ok :: "string \<Rightarrow> flag \<Rightarrow> bool" where
  "flag_ok name fl \<longleftrightarrow> check name (fl_kind fl) (fl_default fl) = None \<and>
     (\<forall>v. fl_value fl = Some v \<longrightarrow> check name (fl_kind fl) v = None)"

definition flags_ok :: "flag_set \<Rightarrow> bool" where
  "flags_ok fs \<longleftrightarrow> (\<forall>name fl. map_of fs name = Some fl \<longrightarrow> flag_ok name fl)"

lemma map_of_set_flag: "map_of (set_flag name fl v fs) = (map_of fs)(name \<mapsto> fl\<lparr>fl_value := Some v\<rparr>)"
  by (simp add: set_flag_def update_conv')

text \<open>A parse is a sequence of checked assignments, whatever way it ends.\<close>

lemma parse_flags_induct:
  assumes "P fs"
    and step: "\<And>fs name fl v. P fs \<Longrightarrow> map_of fs name = Some fl \<Longrightarrow> check name (fl_kind fl) v = None \<Longrightarrow>
           P (set_flag name fl v fs)"
  shows "P (snd (parse_flags args fs))"
  using assms(1)
proof (induction args fs rule: parse_flags.induct)
  case (1 args fs)
  show ?case
    by (subst parse_flags.simps)
      (auto simp: Let_def 1(2) intro!: 1(1) step split: list.split option.split sum.split prod.split)
qed

lemma parse_keeps:
  assumes "map_of fs name = Some fl"
  shows "\<exists>val. map_of (snd (parse_flags args fs)) name = Some (fl\<lparr>fl_value := val\<rparr>)"
proof (rule parse_flags_induct [where P = "\<lambda>fs'. \<exists>val. map_of fs' name = Some (fl\<lparr>fl_value := val\<rparr>)"])
  show "\<exists>val. map_of fs name = Some (fl\<lparr>fl_value := val\<rparr>)"
    using assms by (intro exI [of _ "fl_value fl"]) simp
  show "\<exists>val. map_of (set_flag n f v fs') name = Some (fl\<lparr>fl_value := val\<rparr>)"
    if "\<exists>val. map_of fs' name = Some (fl\<lparr>fl_value := val\<rparr>)" and "map_of fs' n = Some f" for fs' n f v
    using that by (cases "n = name") (auto simp: map_of_set_flag intro: exI [of _ "Some v"])
qed

lemma parse_flags_ok: "flags_ok fs \<Longrightarrow> flags_ok (snd (parse_flags args fs))"
  by (erule parse_flags_induct) (auto simp: flags_ok_def flag_ok_def map_of_set_flag)

lemma parse_get_int:
  assumes "map_of fs name = Some fl"
  shows "\<exists>i. get_int (snd (parse_flags args fs)) name = Some i \<and> - (2 ^ 63) \<le> i \<and> i < 2 ^ 63"
proof -
  obtain val where "map_of (snd (parse_flags args fs)) name = Some (fl\<lparr>fl_value := val\<rparr>)"
    using parse_keeps [OF assms] by blast
  then show ?thesis
    using parse_signed_range [of 64] by (auto simp: get_int_def raw_def parse_i64_def split: option.split)
qed

lemma positive_setting:
  assumes "map_of fs name = Some fl"
  shows "1 \<le> as_u64 (max (the (get_int (snd (parse_flags args fs)) name)) 1)"
    and "as_u64 (max (the (get_int (snd (parse_flags args fs)) name)) 1) < 2 ^ 63"
proof -
  obtain i where i: "get_int (snd (parse_flags args fs)) name = Some i" "i < 2 ^ 63"
    using parse_get_int [OF assms] by blast
  then have "as_u64 (max i 1) = nat (max i 1)" by (simp add: as_u64_id)
  then show "1 \<le> as_u64 (max (the (get_int (snd (parse_flags args fs)) name)) 1)"
    and "as_u64 (max (the (get_int (snd (parse_flags args fs)) name)) 1) < 2 ^ 63"
    using i by auto
qed

lemma flag_value_checked:
  assumes "flags_ok fs" and "map_of fs name = Some fl"
  shows "\<exists>v. raw (snd (parse_flags args fs)) name = Some v \<and> check name (fl_kind fl) v = None"
proof -
  obtain val where m: "map_of (snd (parse_flags args fs)) name = Some (fl\<lparr>fl_value := val\<rparr>)"
    using parse_keeps [OF assms(2)] by blast
  define v where "v = (case val of Some u \<Rightarrow> u | None \<Rightarrow> fl_default fl)"
  have "raw (snd (parse_flags args fs)) name = Some v" using m by (simp add: raw_def v_def split: option.split)
  moreover have "flag_ok name (fl\<lparr>fl_value := val\<rparr>)"
    using parse_flags_ok [OF assms(1), of args] m by (simp add: flags_ok_def)
  then have "check name (fl_kind fl) v = None" by (auto simp: flag_ok_def v_def split: option.split)
  ultimately show ?thesis by blast
qed

lemma get_duration_checked:
  assumes "flags_ok fs" and "map_of fs name = Some fl" and "fl_kind fl = FDuration"
  shows "\<exists>d. get_duration (snd (parse_flags args fs)) name = Some d"
proof -
  obtain v where "raw (snd (parse_flags args fs)) name = Some v" "check name FDuration v = None"
    using flag_value_checked [OF assms(1,2), of args] assms(3) by auto
  then show ?thesis
    by (auto simp: get_duration_def check_def Let_def split: if_splits sum.splits option.splits)
qed

text \<open>
  C21. A flag has a value of its kind. In a set whose defaults are valid, after any
  command line, accepted or refused: a flag that was defined is still there, and the
  getter of its kind returns the value its text stands for. No getter falls back to
  zero or false because a text is malformed, and none panics.
\<close>

theorem flags_typed:
  assumes "flags_ok fs" and "map_of fs name = Some fl" and "fs' = snd (parse_flags args fs)"
  shows "\<exists>v. raw fs' name = Some v \<and> get_str fs' name = Some v \<and>
    (case fl_kind fl of
       FBool \<Rightarrow> \<exists>b. parse_bool v = Some b \<and> get_bool fs' name = Some b
     | FInt \<Rightarrow> \<exists>i. parse_i64 v = Some i \<and> get_int fs' name = Some i
     | FStr \<Rightarrow> True
     | FDuration \<Rightarrow> \<exists>d. parse_duration v = Inr (Some d) \<and> get_duration fs' name = Some d)"
proof -
  obtain v where "raw fs' name = Some v" "check name (fl_kind fl) v = None"
    using flag_value_checked [OF assms(1,2), of args] assms(3) by blast
  then show ?thesis
    by (intro exI [of _ v])
      (auto simp: get_str_def get_bool_def get_int_def get_duration_def check_def Let_def
        split: kind.splits if_splits sum.splits option.splits)
qed

subsection \<open>The last value wins\<close>

text \<open>No argument is the \<^verbatim>\<open>--\<close> that ends the flags.\<close>

definition not_end :: "string \<Rightarrow> bool" where
  "not_end arg \<longleftrightarrow> dropWhile (\<lambda>c. c = CHR ''-'') arg \<noteq> []"

lemma flag_arg_append:
  "flag_arg name inline k xs = Inr (v, rest) \<Longrightarrow> flag_arg name inline k (xs @ ys) = Inr (v, rest @ ys)"
  by (auto simp: flag_arg_def split: option.splits if_splits list.splits)

lemma flag_arg_set: "flag_arg name inline k xs = Inr (v, rest) \<Longrightarrow> set rest \<subseteq> set xs"
  by (auto simp: flag_arg_def split: option.splits if_splits list.splits)

lemma parse_append:
  assumes "parse_flags xs fs = (None, fs')" and "list_all not_end xs"
  shows "parse_flags (xs @ ys) fs = parse_flags ys fs'"
  using assms
proof (induction xs fs rule: parse_flags.induct)
  case (1 xs fs)
  show ?case
  proof (cases xs)
    case Nil
    then show ?thesis using "1.prems" by (simp add: parse_flags.simps [of "[]"])
  next
    case (Cons arg rest)
    define body where "body = dropWhile (\<lambda>c. c = CHR ''-'') arg"
    obtain name inline where nv: "name_value body = (name, inline)" by fastforce
    have body: "body \<noteq> []" using "1.prems"(2) Cons by (simp add: not_end_def body_def)
    note P = "1.prems"(1) [unfolded Cons, simplified parse_flags.simps [of "arg # rest"], simplified, folded body_def]
    have d: "prefix ''-'' arg" "arg \<noteq> ''-''" "\<not> (name = ''h'' \<or> name = ''help'')"
      using P body nv by (auto simp: Let_def split: if_splits)
    then obtain fl v rest' where fl: "map_of fs name = Some fl" "flag_arg name inline (fl_kind fl) rest = Inr (v, rest')"
        "check name (fl_kind fl) v = None" "parse_flags rest' (set_flag name fl v fs) = (None, fs')"
      using P body nv by (auto simp: Let_def split: option.splits sum.splits)
    have "list_all not_end rest'" using flag_arg_set [OF fl(2)] "1.prems"(2) Cons by (auto simp: list_all_iff)
    from "1.IH" [OF Cons _ body_def body nv [symmetric] d(3) fl(1,2) refl fl(3) fl(4) this] d
    have "parse_flags (rest' @ ys) (set_flag name fl v fs) = parse_flags ys fs'" by simp
    then show ?thesis
      using d fl nv body flag_arg_append [OF fl(2), of ys]
      by (subst parse_flags.simps) (simp add: Cons body_def [symmetric])
  qed
qed

text \<open>
  The last value wins. After a command line that was accepted, one more argument
  \<^verbatim>\<open>-name=value\<close> with a value of the flag's kind is accepted too: the flag has that
  value, whatever it was given before, and every other flag keeps the one it had.
\<close>

lemma flag_last_wins:
  assumes "parse_flags args fs = (None, fs1)" and "list_all not_end args"
    and "good_name name" and "map_of fs name = Some fl" and "check name (fl_kind fl) v = None"
  shows "\<exists>fs2. parse_flags (args @ [''-'' @ name @ ''='' @ v]) fs = (None, fs2) \<and> raw fs2 name = Some v \<and>
    (\<forall>n. n \<noteq> name \<longrightarrow> raw fs2 n = raw fs1 n)"
proof -
  obtain val where m: "map_of fs1 name = Some (fl\<lparr>fl_value := val\<rparr>)"
    using parse_keeps [OF assms(4), of args] assms(1) by auto
  have "parse_flags (args @ [''-'' @ name @ ''='' @ v]) fs = parse_flags [''-'' @ name @ ''='' @ v] fs1"
    by (rule parse_append [OF assms(1,2)])
  also have "\<dots> = (None, set_flag name (fl\<lparr>fl_value := val\<rparr>) v fs1)"
    using parse_inline [OF assms(3) m, of 1 v "[]"] assms(5) by (simp add: parse_flags.simps [of "[]"])
  finally show ?thesis by (auto simp: raw_def map_of_set_flag)
qed

subsection \<open>The abstract view\<close>

text \<open>
  What a set of flags is to the program: a kind and a text for each name. What a command
  line means: assignments, one after the other, until one names no flag or has a value
  that is not of its kind.
\<close>

definition kinds :: "flag_set \<Rightarrow> string \<Rightarrow> kind option" where
  "kinds fs name = map_option fl_kind (map_of fs name)"

fun assign :: "(string \<Rightarrow> kind option) \<Rightarrow> (string \<times> string) list \<Rightarrow> (string \<Rightarrow> string option) \<Rightarrow>
    flag_error option \<times> (string \<Rightarrow> string option)" where
  "assign K [] env = (None, env)"
| "assign K ((name, v) # rest) env =
     (case K name of
        None \<Rightarrow> (Some (Message (''flag provided but not defined: -'' @ name)), env)
      | Some k \<Rightarrow> (case check name k v of Some e \<Rightarrow> (Some e, env) | None \<Rightarrow> assign K rest (env(name \<mapsto> v))))"

definition flag_text :: "string \<times> string \<Rightarrow> string" where
  "flag_text asg = ''-'' @ fst asg @ ''='' @ snd asg"

lemma parse_undefined:
  assumes "good_name name" and "map_of fs name = None"
  shows "parse_flags ((''-'' @ name @ ''='' @ v) # rest) fs =
    (Some (Message (''flag provided but not defined: -'' @ name)), fs)"
proof -
  have "dropWhile (\<lambda>c. c = CHR ''-'') (''-'' @ name @ ''='' @ v) = name @ ''='' @ v"
    using dash_body [OF assms(1), of 1 "''='' @ v"] by simp
  moreover have "name_value (name @ ''='' @ v) = (name, Some v)"
    using assms(1) by (simp add: name_value_def good_name_def)
  ultimately show ?thesis using assms by (subst parse_flags.simps) (simp add: good_name_def)
qed

lemma raw_set_flag: "raw (set_flag name fl v fs) = (raw fs)(name \<mapsto> v)"
  by (auto simp: raw_def map_of_set_flag fun_eq_iff)

lemma kinds_set_flag: "map_of fs name = Some fl \<Longrightarrow> kinds (set_flag name fl v fs) = kinds fs"
  by (auto simp: kinds_def map_of_set_flag fun_eq_iff)

text \<open>
  C39. The parser implements the assignments. On a command line of \<^verbatim>\<open>-name=value\<close> arguments,
  with any names a flag can have, defined or not, and any values: it ends with the error
  the assignments end with, or without one as they do, and every getter reads from the
  set it leaves the text the assignments give, also when it stopped at an error.
\<close>

theorem parse_refines_assign:
  assumes "list_all (\<lambda>(name, v). good_name name) asgs"
    and "parse_flags (map flag_text asgs) fs = (result, fs')"
  shows "assign (kinds fs) asgs (raw fs) = (result, raw fs')"
  using assms
proof (induction asgs arbitrary: fs)
  case Nil
  then show ?case by (simp add: parse_flags.simps [of "[]"])
next
  case (Cons a asgs)
  obtain name v where a: "a = (name, v)" by fastforce
  have name: "good_name name" using Cons.prems(1) a by simp
  show ?case
  proof (cases "map_of fs name")
    case None
    then show ?thesis using Cons.prems(2) parse_undefined [OF name None, of v] by (simp add: a kinds_def flag_text_def)
  next
    case (Some fl)
    have step: "parse_flags (map flag_text (a # asgs)) fs =
      (case check name (fl_kind fl) v of Some e \<Rightarrow> (Some e, fs) | None \<Rightarrow> parse_flags (map flag_text asgs) (set_flag name fl v fs))"
      using parse_inline [OF name Some, of 1 v "map flag_text asgs"] by (simp add: a flag_text_def)
    have k: "kinds fs name = Some (fl_kind fl)" using Some by (simp add: kinds_def)
    show ?thesis
    proof (cases "check name (fl_kind fl) v")
      case None
      then have "parse_flags (map flag_text asgs) (set_flag name fl v fs) = (result, fs')" using step Cons.prems(2) by simp
      moreover have "list_all (\<lambda>(name, v). good_name name) asgs" using Cons.prems(1) by simp
      ultimately have "assign (kinds (set_flag name fl v fs)) asgs (raw (set_flag name fl v fs)) = (result, raw fs')"
        by (intro Cons.IH)
      then show ?thesis using None k by (simp only: a assign.simps raw_set_flag kinds_set_flag [OF Some] option.case)
    next
      case (Some e)
      then have "result = Some e \<and> fs' = fs" using step Cons.prems(2) by auto
      then show ?thesis using Some k by (simp add: a)
    qed
  qed
qed

theorem parse_refines_assign_witness:
  "assign (kinds test_flags) [(''c'', ''3''), (''f'', ''fib''), (''nope'', ''1'')] (raw test_flags) =
     (Some (Message ''flag provided but not defined: -nope''), (raw test_flags)(''c'' \<mapsto> ''3'', ''f'' \<mapsto> ''fib''))"
proof -
  let ?asgs = "[(''c'', ''3''), (''f'', ''fib''), (''nope'', ''1'')]"
  obtain result fs' where p: "parse_flags (map flag_text ?asgs) test_flags = (result, fs')" by fastforce
  have "list_all (\<lambda>(name, v). good_name name) ?asgs" by code_simp
  from parse_refines_assign [OF this p]
  have "assign (kinds test_flags) ?asgs (raw test_flags) = (result, raw fs')" .
  moreover have "parse_i64 ''3'' = Some 3" by code_simp
  ultimately show ?thesis by (simp add: test_flags_simps kinds_def check_def Let_def)
qed

subsection \<open>Durations\<close>

text \<open>The units, in nanoseconds, and a duration written with them.\<close>

definition unit_ns :: "string \<Rightarrow> nat option" where
  "unit_ns u = map_of [(''ns'', 1), (''us'', 1000), (''ms'', 1000000), (''s'', 1000000000),
     (''m'', 60000000000), (''h'', 3600000000000)] u"

definition show_parts :: "(nat \<times> string) list \<Rightarrow> string" where
  "show_parts parts = concat (map (\<lambda>(n, u). show_nat n @ u) parts)"

definition parts_ns :: "(nat \<times> string) list \<Rightarrow> nat" where
  "parts_ns parts = sum_list (map (\<lambda>(n, u). n * the (unit_ns u)) parts)"

lemma show_parts_simps [simp]:
  "show_parts [] = []" "show_parts ((n, u) # parts) = show_nat n @ u @ show_parts parts"
  by (simp_all add: show_parts_def)

lemma parts_ns_simps [simp]:
  "parts_ns [] = 0" "parts_ns ((n, u) # parts) = n * the (unit_ns u) + parts_ns parts"
  by (simp_all add: parts_ns_def)

lemma unit_text:
  assumes "unit_ns u \<noteq> None"
  shows "u \<noteq> []" and "list_all (\<lambda>c. \<not> numeric c) u"
  using assms by (auto simp: unit_ns_def numeric_def is_ascii_digit_def split: if_splits)

lemma unit_cases:
  assumes "unit_ns u = Some w"
  shows "unit_scale u = Some (f64_rnd (of_nat w / 10 ^ 9)) \<and> 0 < w"
proof -
  have "f64_rnd 1 = 1" "f64_rnd 60 = 60" "f64_rnd 3600 = 3600"
    using f64_rnd_int [of 1] f64_rnd_int [of 60] f64_rnd_int [of 3600] by simp_all
  then show ?thesis
    using assms by (auto simp: unit_ns_def unit_scale_def split: if_splits)
qed

lemma numeric_show_nat: "list_all numeric (show_nat n)"
  using show_nat_digits [of n] by (simp add: list_all_iff numeric_def)

lemma show_parts_numeric:
  "takeWhile (\<lambda>c. \<not> numeric c) (show_parts parts) = []"
  "dropWhile (\<lambda>c. \<not> numeric c) (show_parts parts) = show_parts parts"
proof -
  have "show_parts parts = [] \<or> numeric (hd (show_parts parts))"
  proof (cases parts)
    case (Cons p ps)
    obtain n u where "p = (n, u)" by fastforce
    moreover obtain c t where "show_nat n = c # t" by (cases "show_nat n") auto
    ultimately show ?thesis using Cons numeric_show_nat [of n] by simp
  qed simp
  then show "takeWhile (\<lambda>c. \<not> numeric c) (show_parts parts) = []"
    and "dropWhile (\<lambda>c. \<not> numeric c) (show_parts parts) = show_parts parts"
    by (cases "show_parts parts"; simp)+
qed

lemma parse_decimal_show_nat: "parse_decimal (show_nat n) = Some (f64_of_nat n)"
proof -
  have "CHR ''.'' \<notin> set (show_nat n)" using show_nat_digits [of n] by (auto simp: is_ascii_digit_def)
  then have e: "takeWhile (\<lambda>c. c \<noteq> CHR ''.'') (show_nat n) = show_nat n" "dropWhile (\<lambda>c. c \<noteq> CHR ''.'') (show_nat n) = []"
    by (auto simp: dropWhile_neq_Nil intro: takeWhile_eq_all_conv [THEN iffD2])
  show ?thesis
    using show_nat_digits [of n]
    by (simp add: e parse_decimal_def Let_def list_all_iff digits_val_def foldl_show_nat f64_of_nat_def)
qed

text \<open>One turn of the loop on a number and its unit.\<close>

lemma dur_loop_part:
  assumes "unit_ns u = Some w"
  shows "dur_loop (show_parts ((n, u) # parts)) t =
    dur_loop (show_parts parts) (fadd t (fmul (f64_of_nat n) (f64_rnd (of_nat w / 10 ^ 9))))"
proof -
  have u: "u \<noteq> []" "list_all (\<lambda>c. \<not> numeric c) u" using unit_text assms by auto
  obtain c v where cv: "u = c # v" "\<not> numeric c" using u by (cases u) auto
  show ?thesis
    using u unit_cases [OF assms] numeric_show_nat [of n] cv
    by (subst dur_loop.simps)
      (simp add: takeWhile_all_append dropWhile_all_append parse_decimal_show_nat show_parts_numeric)
qed

text \<open>A number times a unit.\<close>

lemma near_part:
  assumes "unit_ns u = Some w" and "n < 2 ^ 53"
  shows "near 2 (fmul (f64_of_nat n) (f64_rnd (of_nat w / 10 ^ 9))) (of_nat (n * w) / 10 ^ 9)"
proof (cases "n = 0")
  case True
  then show ?thesis by (simp add: near_def fmul_def f64_of_nat_def)
next
  case False
  have w: "0 < w" using unit_cases [OF assms(1)] by simp
  have le: "1 / 10 ^ 9 \<le> (of_nat m / 10 ^ 9 :: rat)" if "0 < m" for m :: nat
    using that by (simp add: divide_right_mono)
  have "near 1 (f64_rnd (of_nat w / 10 ^ 9)) (of_nat w / 10 ^ 9)"
    using near_rnd [of 0 "of_nat w / 10 ^ 9" "of_nat w / 10 ^ 9"] not_tiny [OF le [OF w]] by (simp add: near_def)
  from near_scale [OF this, of "of_nat n"]
  have "near 1 (f64_of_nat n * f64_rnd (of_nat w / 10 ^ 9)) (of_nat (n * w) / 10 ^ 9)"
    by (simp add: f64_of_nat_exact [OF assms(2)])
  from near_rnd [OF this not_tiny, OF le] have "near (1 + 1) (fmul (f64_of_nat n) (f64_rnd (of_nat w / 10 ^ 9))) (of_nat (n * w) / 10 ^ 9)"
    using w False by (simp add: fmul_def)
  then show ?thesis by (simp only: one_add_one)
qed

lemma dur_loop_parts:
  assumes "list_all (\<lambda>(n, u). unit_ns u \<noteq> None) parts" and "near (k + 2) t (of_nat e / 10 ^ 9)"
    and "(k + length parts + 2) * (e + parts_ns parts) < 2 ^ 51"
  shows "\<exists>t'. dur_loop (show_parts parts) t = Some t' \<and>
    near (k + length parts + 2) t' (of_nat (e + parts_ns parts) / 10 ^ 9)"
  using assms
proof (induction parts arbitrary: k t e)
  case Nil
  then show ?case by (simp add: dur_loop.simps [of "[]"])
next
  case (Cons p parts)
  obtain n u where p: "p = (n, u)" by fastforce
  obtain w where w: "unit_ns u = Some w" using Cons.prems(1) p by auto
  have w0: "0 < w" using unit_cases [OF w] by simp
  define t1 where "t1 = fadd t (fmul (f64_of_nat n) (f64_rnd (of_nat w / 10 ^ 9)))"
  have tot: "(k + 1 + length parts + 2) * (e + n * w + parts_ns parts) < 2 ^ 51"
    using Cons.prems(3) p w by (simp add: add.assoc add.commute add.left_commute)
  have "n * 1 \<le> n * w" using w0 by (intro mult_le_mono2) simp
  also have "\<dots> \<le> 1 * (e + n * w + parts_ns parts)" by simp
  also have "\<dots> \<le> (k + 1 + length parts + 2) * (e + n * w + parts_ns parts)" by (intro mult_le_mono1) simp
  finally have n: "n < 2 ^ 53" using tot by simp
  have "near (k + 2) (fmul (f64_of_nat n) (f64_rnd (of_nat w / 10 ^ 9))) (of_nat (n * w) / 10 ^ 9)"
    using near_mono [OF near_part [OF w n], of "k + 2"] by simp
  from near_add [OF Cons.prems(2) this]
  have sum: "near (k + 2) (t + fmul (f64_of_nat n) (f64_rnd (of_nat w / 10 ^ 9))) (of_nat (e + n * w) / 10 ^ 9)"
    by (simp add: add_divide_distrib)
  have t1: "near (k + 1 + 2) t1 (of_nat (e + n * w) / 10 ^ 9)"
  proof (cases "e + n * w = 0")
    case True
    then have z: "(of_nat (e + n * w) / 10 ^ 9 :: rat) = 0" by simp
    show ?thesis using sum unfolding z t1_def fadd_def by simp
  next
    case False
    have "(k + 2) * 1 \<le> (k + 1 + length parts + 2) * (e + n * w + parts_ns parts)"
      using False by (intro mult_le_mono) (simp, linarith)
    then have "k + 2 < 2 ^ 51" using tot by simp
    moreover have "1 / 10 ^ 9 \<le> (of_nat (e + n * w) / 10 ^ 9 :: rat)"
    proof (rule divide_right_mono)
      show "(1 :: rat) \<le> of_nat (e + n * w)" using False by (metis One_nat_def Suc_leI bot_nat_0.not_eq_extremum of_nat_1 of_nat_le_iff)
    qed simp
    ultimately show ?thesis using near_rnd [OF sum not_tiny] by (simp add: t1_def fadd_def)
  qed
  have "\<exists>t'. dur_loop (show_parts parts) t1 = Some t' \<and>
    near (k + 1 + length parts + 2) t' (of_nat (e + n * w + parts_ns parts) / 10 ^ 9)"
    using Cons.IH [OF _ t1 tot] Cons.prems(1) by simp
  then show ?case
    unfolding p dur_loop_part [OF w] t1_def [symmetric] by (simp add: w add.assoc)
qed

lemma parse_show_parts:
  assumes "parts \<noteq> []" and "list_all (\<lambda>(n, u). unit_ns u \<noteq> None) parts"
    and "(length parts + 2) * parts_ns parts < 2 ^ 51"
  shows "parse_duration (show_parts parts) = Inr (Some (parts_ns parts))"
proof -
  have "near (0 + 2) 0 (of_nat 0 / 10 ^ 9)" by (simp add: near_def)
  from dur_loop_parts [OF assms(2) this] assms(3)
  obtain t where t: "dur_loop (show_parts parts) 0 = Some t" "near (length parts + 2) t (of_nat (parts_ns parts) / 10 ^ 9)"
    by auto
  let ?ns = "parts_ns parts"
  have n2: "near (length parts + 2) (10 ^ 9 * t) (of_nat ?ns)" using near_scale [OF t(2), of "10 ^ 9"] by simp
  have lt: "of_nat (length parts + 2) * of_nat ?ns < (2 ^ 51 :: rat)"
    using assms(3) by (metis of_nat_less_iff of_nat_mult of_nat_numeral of_nat_power)
  have "\<bar>t * 1000000000 - of_int (int ?ns)\<bar> < 1 / 2"
    using n2 lt unfolding near_def by (simp add: mult.commute)
  then have r: "round_half_even (t * 1000000000) = int ?ns" by (rule round_half_even_unique)
  have "0 \<le> t"
  proof -
    have "length parts + 2 < 2 ^ 51" if "?ns \<noteq> 0"
    proof -
      have "(length parts + 2) * 1 \<le> (length parts + 2) * ?ns" using that by (intro mult_le_mono2) simp
      then show ?thesis using assms(3) by simp
    qed
    then show ?thesis
      using t(2) near_half(1) [OF t(2)] by (cases "?ns = 0") (auto intro: order_trans [rotated])
  qed
  moreover have "?ns * 1 \<le> ?ns * (length parts + 2)" by (intro mult_le_mono2) simp
  then have "?ns < 2 ^ 51" using assms(3) by (simp add: mult.commute)
  ultimately have fs: "from_secs_f64 t = Some ?ns" by (simp add: from_secs_f64_def Let_def r)
  obtain n u ps where "parts = (n, u) # ps" "u \<noteq> []" using assms(1,2) unit_text by (cases parts) auto
  then have "show_parts parts \<noteq> []" "show_parts parts \<noteq> ''0''"
    by (auto simp: append_eq_Cons_conv)
  then show ?thesis by (simp add: parse_duration_def t(1) fs)
qed

text \<open>
  C23. A duration that is not too long is read back as it was written: a sequence of whole
  numbers with units, like \<^verbatim>\<open>1m30s\<close>, is the sum of its parts to the nanosecond, although the
  code adds them up in floating point. The nanoseconds times the number of parts and two
  have to be below \<open>2 ^ 51\<close>, which is a bit more than eight days for a single part and six for two.
  Much longer durations do lose or gain nanoseconds, see \<open>long_duration_inexact\<close>.
\<close>

theorem duration_roundtrip:
  assumes "parts \<noteq> []" and "list_all (\<lambda>(n, u). unit_ns u \<noteq> None) parts"
    and "(length parts + 2) * parts_ns parts < 2 ^ 51"
  shows "parse_duration (show_parts parts) = Inr (Some (parts_ns parts))"
  using assms by (rule parse_show_parts)

theorem duration_roundtrip_witness: "parse_duration ''1m30s'' = Inr (Some (secs 90))"
proof -
  have s: "show_parts [(1, ''m''), (30, ''s'')] = ''1m30s''" by code_simp
  have n: "parts_ns [(1, ''m''), (30, ''s'')] = secs 90" by (simp add: unit_ns_def)
  show ?thesis using duration_roundtrip [of "[(1, ''m''), (30, ''s'')]", unfolded s n] by (simp add: unit_ns_def)
qed

text \<open>Forty-eight days are too long: a nanosecond is gained.\<close>

lemma long_duration_inexact:
  "parse_duration (show_nat 4194401897141509 @ ''ns'') = Inr (Some 4194401897141510)"
proof -
  have "f64_exp (1 / 10 ^ 9) = -30 - 52" by (rule f64_exp_eq) (simp_all add: power_int_def power_divide)
  then have ns: "f64_rnd (1 / 10 ^ 9) = of_int 4835703278458517 * 2 powi (-82)"
    by (intro f64_rnd_eqI) (simp_all add: power_int_def power_divide abs_if)
  have n: "f64_of_nat 4194401897141509 = 4194401897141509"
    using f64_of_nat_exact [of 4194401897141509] by simp
  let ?x = "4194401897141509 * (of_int 4835703278458517 * 2 powi (-82)) :: rat"
  have "f64_exp ?x = 22 - 52" by (rule f64_exp_eq) (simp_all add: power_int_def power_divide)
  then have x: "f64_rnd ?x = of_int 4503704743625785 * 2 powi (-30)"
    by (intro f64_rnd_eqI) (simp_all add: power_int_def power_divide abs_if)
  have "f64_exp (of_int 4503704743625785 * 2 powi (-30)) = 22 - 52" by (rule f64_exp_eq) (simp_all add: power_int_def power_divide)
  then have y: "f64_rnd (of_int 4503704743625785 * 2 powi (-30)) = of_int 4503704743625785 * 2 powi (-30)"
    by (intro f64_rnd_eqI) (simp_all add: power_int_def power_divide)
  have "unit_ns ''ns'' = Some 1" by (simp add: unit_ns_def)
  from dur_loop_part [OF this, of 4194401897141509 "[]" 0]
  have "dur_loop (show_nat 4194401897141509 @ ''ns'') 0 =
      Some (fadd 0 (fmul (f64_of_nat 4194401897141509) (f64_rnd (1 / 10 ^ 9))))"
    by (simp add: dur_loop.simps [of "[]"])
  then have d: "dur_loop (show_nat 4194401897141509 @ ''ns'') 0 = Some (of_int 4503704743625785 * 2 powi (-30))"
    unfolding fadd_def fmul_def ns n x add_0 y .
  have "round_half_even (of_int 4503704743625785 * 2 powi (-30) * 1000000000) = 4194401897141510"
    by (rule round_half_even_unique) (simp add: power_int_def power_divide abs_if)
  then have "from_secs_f64 (of_int 4503704743625785 * 2 powi (-30)) = Some 4194401897141510"
    unfolding from_secs_f64_def Let_def by (simp add: power_int_def power_divide)
  then show ?thesis using d by (auto simp: parse_duration_def append_eq_Cons_conv)
qed

text \<open>
  C24. A duration flag given \<open>2 ^ 64\<close> seconds or more does not end in an error message:
  \<^verbatim>\<open>parse_duration\<close> panics, and with it the check of the flag and the whole parse.
\<close>

theorem duration_panics:
  assumes "good_name name" and "map_of fs name = Some fl" and "fl_kind fl = FDuration" and "2 ^ 64 \<le> n"
  shows "parse_duration (show_nat n @ ''s'') = Inl () \<and>
    parse_flags ((''-'' @ name @ ''='' @ show_nat n @ ''s'') # rest) fs = (Some FlagPanic, fs)"
proof -
  have "unit_ns ''s'' = Some 1000000000" by (simp add: unit_ns_def)
  from dur_loop_part [OF this, of n "[]" 0]
  have d: "dur_loop (show_nat n @ ''s'') 0 = Some (fadd 0 (fmul (f64_of_nat n) (f64_rnd 1)))"
    by (simp add: dur_loop.simps [of "[]"])
  have one: "f64_rnd 1 = 1" using f64_rnd_int [of 1] by simp
  have "(2 ^ 64 :: rat) \<le> of_nat n" using assms(4) by (metis of_nat_le_iff of_nat_numeral of_nat_power)
  then have "2 ^ 64 \<le> fadd 0 (fmul (f64_of_nat n) (f64_rnd 1))"
    unfolding fadd_def fmul_def f64_of_nat_def one add_0 mult_1_right by (intro f64_rnd_ge_pow2)
  then have p: "parse_duration (show_nat n @ ''s'') = Inl ()"
    by (auto simp: parse_duration_def d from_secs_f64_large append_eq_Cons_conv)
  then show ?thesis
    using parse_inline [OF assms(1,2), of 1 "show_nat n @ ''s''" rest] by (simp add: check_def Let_def assms(3))
qed

theorem duration_panics_witness:
  "parse_flags [''-dt=20000000000000000000s''] test_flags = (Some FlagPanic, test_flags)"
proof -
  have "show_nat 20000000000000000000 = ''20000000000000000000''" by (simp add: show_nat.simps digit_chars)
  then show ?thesis
    using duration_panics [of "''dt''" test_flags _ 20000000000000000000 "[]"]
    by (simp add: test_flags_simps good_name_def)
qed

lemma check_5s: "parse_duration ''5s'' = Inr (Some 5000000000)"
proof -
  have "show_nat 5 = ''5''" by (simp add: show_nat.simps [of 5] digit_chars)
  then show ?thesis using parse_show_parts [of "[(5, ''s'')]"] by (simp add: unit_ns_def)
qed

lemma map_of_flag_add:
  "map_of (flag_add name k d u fs) = (map_of fs)(name \<mapsto> \<lparr>fl_kind = k, fl_default = d, fl_usage = u, fl_value = None\<rparr>)"
  by (simp add: flag_add_def update_conv')

lemma flags_ok_add: "flags_ok fs \<Longrightarrow> check name k d = None \<Longrightarrow> flags_ok (flag_add name k d u fs)"
  by (auto simp: flags_ok_def flag_ok_def map_of_flag_add)

lemmas flag_defs = flag_int_def flag_bool_def flag_string_def flag_duration_def

lemma default_durations:
  "parse_duration ''120s'' = Inr (Some (secs 120))" "parse_duration ''5s'' = Inr (Some (secs 5))"
  "parse_duration ''100ms'' = Inr (Some 100000000)"
proof -
  have nat: "show_nat 120 = ''120''" "show_nat 100 = ''100''" by (simp_all add: show_nat.simps digit_chars digit_chars(2) [unfolded One_nat_def])
  show "parse_duration ''120s'' = Inr (Some (secs 120))" "parse_duration ''5s'' = Inr (Some (secs 5))"
    "parse_duration ''100ms'' = Inr (Some 100000000)"
    using parse_show_parts [of "[(120, ''s'')]"] check_5s parse_show_parts [of "[(100, ''ms'')]"]
    by (simp_all add: unit_ns_def nat)
qed

lemma check_int: "- (2 ^ 63) \<le> i \<Longrightarrow> i < 2 ^ 63 \<Longrightarrow> check name FInt (show_int i) = None"
  using parse_i64_show_int [of i] by (simp add: check_def Let_def)

lemma test_flags_ok: "flags_ok test_flags"
  using check_5s by (auto simp: flags_ok_def flag_ok_def test_flags_simps check_def parse_bool_def Let_def
      parse_i64_show_int split: if_splits)

theorem flags_typed_witness:
  "\<exists>v. raw (snd (parse_flags [''-c=3'', ''x''] test_flags)) ''c'' = Some v \<and>
     (\<exists>i. parse_i64 v = Some i \<and> get_int (snd (parse_flags [''-c=3'', ''x''] test_flags)) ''c'' = Some i)"
  using flags_typed [OF test_flags_ok, of "''c''" _ _ "[''-c=3'', ''x'']", OF _ refl]
  by (auto simp: test_flags_simps)

end
