(* ===== verification/Server_Main.thy ===== *)
theory Server_Main
  imports Config Flags "HOL-Library.Multiset"
begin

text \<open>
  The start of the quiche server, \<^verbatim>\<open>frameworks/quiche/src/main.rs\<close>: its flags and settings,
  the control port, and the share of the fifty benchmark ports each worker thread binds.
  Binding, making the TLS certificate and building the quiche configuration are the
  operating system's and the library's: whether they fail is an argument. The theorem:
  the workers listen on every port the client dials, each on one worker, evenly shared.
\<close>

subsection \<open>Flags and settings\<close>

definition FRAMEWORK :: string where "FRAMEWORK = ''quiche''"

definition PORTS :: "nat \<times> nat" where "PORTS = (3301, 3350)"

record settings =
  st_payload :: nat
  st_streams :: nat
  st_idle :: duration

definition server_flags :: flag_set where
  "server_flags =
     flag_int ''t'' 0 ''worker threads, 0 for one per CPU this process may run on''
    (flag_duration ''idle'' ''120s'' ''QUIC max idle timeout''
    (flag_int ''streams'' 100 ''max concurrent request streams per connection''
    (flag_int ''m'' 2147483648 (''memory limit: the Go servers'' @ [CHR 0x27] @
       '' GOMEMLIMIT, which a Rust server has no counterpart of'')
    (flag_int ''b'' 1024 (''expected request body size, which sizes the servers'' @ [CHR 0x27] @ '' read buffers'') []))))"

definition server_settings :: "flag_set \<Rightarrow> settings" where
  "server_settings f =
     \<lparr>st_payload = as_u64 (max (the (get_int f ''b'')) 1),
      st_streams = as_u64 (max (the (get_int f ''streams'')) 1),
      st_idle = the (get_duration f ''idle'')\<rparr>"

text \<open>\<^verbatim>\<open>available_parallelism\<close> may fail.\<close>

definition server_threads :: "flag_set \<Rightarrow> nat option \<Rightarrow> nat" where
  "server_threads f cpus =
     min (let n = the (get_int f ''t'') in
          if 0 < n then as_u64 n else case cpus of None \<Rightarrow> 1 | Some c \<Rightarrow> c)
       (length [fst PORTS..<snd PORTS + 1])"

subsection \<open>The shares\<close>

text \<open>\<^verbatim>\<open>step_by\<close>, for a step of at least one.\<close>

function step_by :: "nat \<Rightarrow> 'a list \<Rightarrow> 'a list" where
  "step_by n [] = []"
| "step_by n (x # xs) = x # step_by n (drop (n - 1) xs)"
  by pat_completeness auto

termination
  by (relation "measure (\<lambda>(n, xs). length xs)") auto

definition port_share :: "nat \<Rightarrow> nat \<Rightarrow> nat list" where
  "port_share threads t = step_by threads (drop t [fst PORTS..<snd PORTS + 1])"

text \<open>A socket bound to every interface, of both families or of IPv4 only.\<close>

datatype bound = Bound_V6 nat | Bound_V4 nat

fun bound_port :: "bound \<Rightarrow> nat" where
  "bound_port (Bound_V6 p) = p" | "bound_port (Bound_V4 p) = p"

text \<open>\<^verbatim>\<open>bind_any\<close> is the system's \<^verbatim>\<open>bind\<close>: the error, if there is one.\<close>

definition bind :: "(bound \<Rightarrow> string option) \<Rightarrow> nat \<Rightarrow> string + bound" where
  "bind bind_any port =
     (case bind_any (Bound_V6 port) of
        None \<Rightarrow> Inr (Bound_V6 port)
      | Some _ \<Rightarrow>
          (case bind_any (Bound_V4 port) of
             None \<Rightarrow> Inr (Bound_V4 port)
           | Some e \<Rightarrow> Inl (''listen :'' @ show_nat port @ '' failed: '' @ e)))"

fun bind_all :: "(bound \<Rightarrow> string option) \<Rightarrow> nat list \<Rightarrow> string + bound list" where
  "bind_all bind_any [] = Inr []"
| "bind_all bind_any (p # ps) =
     (case bind bind_any p of
        Inl e \<Rightarrow> Inl e
      | Inr s \<Rightarrow> (case bind_all bind_any ps of Inl e \<Rightarrow> Inl e | Inr ss \<Rightarrow> Inr (s # ss)))"

text \<open>The loop that starts the workers: the sockets of each.\<close>

fun start_workers :: "(bound \<Rightarrow> string option) \<Rightarrow> string option \<Rightarrow> nat \<Rightarrow> nat list \<Rightarrow> string + bound list list" where
  "start_workers bind_any config_error threads [] = Inr []"
| "start_workers bind_any config_error threads (t # ts) =
     (case bind_all bind_any (port_share threads t) of
        Inl e \<Rightarrow> Inl e
      | Inr socks \<Rightarrow>
          (case config_error of
             Some e \<Rightarrow> Inl (''quiche config: '' @ e)
           | None \<Rightarrow>
               (case start_workers bind_any config_error threads ts of
                  Inl e \<Rightarrow> Inl e
                | Inr rest \<Rightarrow> Inr (socks # rest))))"

subsection \<open>The program\<close>

text \<open>
  How \<^verbatim>\<open>main\<close> goes on: it prints a message and the usage and exits, ends in \<^verbatim>\<open>fatalf!\<close>, panics,
  or serves, with its settings, the socket of the control port and the sockets of the
  workers. The environment: the system's \<^verbatim>\<open>bind\<close> for UDP and TCP, the number of CPUs,
  and the errors of the certificate and the configuration.
\<close>

datatype server_start =
  SExit string | SFatal string | SPanic | Serving settings bound "bound list list"

record server_env =
  se_bind_udp :: "bound \<Rightarrow> string option"
  se_bind_tcp :: "bound \<Rightarrow> string option"
  se_cpus :: "nat option"
  se_cert_error :: "string option"
  se_config_error :: "string option"

definition control_start :: "(bound \<Rightarrow> string option) \<Rightarrow> nat \<Rightarrow> string + bound" where
  "control_start bind_any port =
     (case bind_any (Bound_V6 port) of
        None \<Rightarrow> Inr (Bound_V6 port)
      | Some _ \<Rightarrow>
          (case bind_any (Bound_V4 port) of
             None \<Rightarrow> Inr (Bound_V4 port)
           | Some e \<Rightarrow> Inl (''control server on :'' @ show_nat port @ '': '' @ e)))"

definition server_main :: "server_env \<Rightarrow> string \<Rightarrow> string list \<Rightarrow> server_start" where
  "server_main E program args =
     (case parse_flags args server_flags of
        (Some FlagPanic, _) \<Rightarrow> SPanic
      | (Some (Message e), f) \<Rightarrow> SExit ((if e \<noteq> [] then e @ [CHR 0x0A] else []) @ usage f program)
      | (None, f) \<Rightarrow>
          (case control_start (se_bind_tcp E) (snd PORTS + 1) of
             Inl e \<Rightarrow> SFatal e
           | Inr ctl \<Rightarrow>
               (case se_cert_error E of
                  Some e \<Rightarrow> SFatal (''generating the TLS certificate failed: '' @ e)
                | None \<Rightarrow>
                    (let threads = server_threads f (se_cpus E) in
                     case start_workers (se_bind_udp E) (se_config_error E) threads [0..<threads] of
                       Inl e \<Rightarrow> SFatal e
                     | Inr socks \<Rightarrow> Serving (server_settings f) ctl socks))))"

subsection \<open>Every port once\<close>

lemma filter_dvd_shift:
  assumes "0 < n"
  shows "filter (\<lambda>i. n dvd i) [0..<Suc m] = 0 # map (\<lambda>i. i + n) (filter (\<lambda>i. n dvd i) [0..<Suc m - n])"
proof (cases "n \<le> m")
  case True
  have "[0..<Suc m] = 0 # [1..<n] @ map (\<lambda>i. i + n) [0..<Suc m - n]"
  proof -
    have "[0..<Suc m] = [0..<n] @ [n..<Suc m]" using True upt_add_eq_append [of 0 n "Suc m - n"] by simp
    moreover have "[n..<Suc m] = map (\<lambda>i. i + n) [0..<Suc m - n]" using True by (simp add: map_add_upt)
    moreover have "[0..<n] = 0 # [1..<n]" using assms by (simp add: upt_rec [of 0])
    ultimately show ?thesis by simp
  qed
  moreover have "filter (\<lambda>i. n dvd i) [1..<n] = []" by (auto simp: filter_empty_conv dest: dvd_imp_le)
  ultimately show ?thesis by (simp add: filter_map comp_def)
next
  case False
  have "[0..<Suc m] = 0 # [1..<Suc m]" by (simp add: upt_rec [of 0] del: upt_Suc)
  moreover have "filter (\<lambda>i. n dvd i) [1..<Suc m] = []"
    using False by (auto simp: filter_empty_conv dest: dvd_imp_le simp del: upt_Suc)
  ultimately show ?thesis using False by (simp del: upt_Suc)
qed

lemma step_by_filter:
  assumes "0 < n"
  shows "step_by n xs = map (\<lambda>i. xs ! i) (filter (\<lambda>i. n dvd i) [0..<length xs])"
  using assms
proof (induction n xs rule: step_by.induct)
  case (2 n x xs)
  have "map (\<lambda>i. (x # xs) ! (i + n)) (filter (\<lambda>i. n dvd i) [0..<Suc (length xs) - n]) =
      map (\<lambda>i. drop (n - 1) xs ! i) (filter (\<lambda>i. n dvd i) [0..<length (drop (n - 1) xs)])"
    using 2(2) by (cases n) (auto simp: add.commute)
  then show ?case
    using 2 filter_dvd_shift [OF 2(2), of "length xs"] by (simp del: upt_Suc length_drop add: comp_def)
qed simp

lemma step_by_range:
  assumes "t < n"
  shows "step_by n (drop t [lo..<lo + m]) = filter (\<lambda>p. (p - lo) mod n = t) [lo..<lo + m]"
proof -
  have n: "0 < n" using assms by simp
  have "step_by n (drop t [lo..<lo + m]) = map (\<lambda>i. lo + t + i) (filter (\<lambda>i. n dvd i) [0..<m - t])"
    unfolding step_by_filter [OF n] by (auto intro!: map_cong simp: add.assoc)
  also have "\<dots> = map (\<lambda>i. lo + i) (filter (\<lambda>i. i mod n = t) [0..<m])"
  proof (cases "t < m")
    case True
    have "[0..<m] = [0..<t] @ map (\<lambda>i. t + i) [0..<m - t]"
      using True upt_add_eq_append [of 0 t "m - t"] by (simp add: map_add_upt add.commute)
    moreover have "filter (\<lambda>i. i mod n = t) [0..<t] = []" using assms by (auto simp: filter_empty_conv)
    moreover have "(t + i) mod n = t \<longleftrightarrow> n dvd i" for i
      using assms mod_eq_dvd_iff_nat [of t "t + i" n] by auto
    ultimately show ?thesis by (simp add: filter_map comp_def add.assoc)
  next
    case False
    have "filter (\<lambda>i. i mod n = t) [0..<m] = []" using assms False by (auto simp: filter_empty_conv)
    then show ?thesis using False by simp
  qed
  also have "\<dots> = filter (\<lambda>p. (p - lo) mod n = t) (map (\<lambda>i. i + lo) [0..<m])"
    by (simp add: filter_map comp_def add.commute)
  finally show ?thesis by (simp add: map_add_upt add.commute)
qed

lemma count_residues:
  assumes "t < n"
  shows "length (filter (\<lambda>i. i mod n = t) [0..<m]) = m div n + (if t < m mod n then 1 else 0)"
proof (induction m)
  case (Suc m)
  then show ?case using assms by (auto simp: div_Suc mod_Suc)
qed simp

lemma port_share_filter:
  "t < threads \<Longrightarrow> port_share threads t = filter (\<lambda>p. (p - 3301) mod threads = t) [3301..<3301 + 50]"
  using step_by_range [of t threads 3301 50] by (simp add: port_share_def PORTS_def del: upt_conv_Cons upt_Suc)

lemma step_by_range_set:
  "t < n \<Longrightarrow> p \<in> set (step_by n (drop t [lo..<lo + m])) \<longleftrightarrow> lo \<le> p \<and> p < lo + m \<and> (p - lo) mod n = t"
  unfolding step_by_range by auto

lemma port_share_set:
  assumes "t < threads"
  shows "p \<in> set (port_share threads t) \<longleftrightarrow> 3301 \<le> p \<and> p < 3351 \<and> (p - 3301) mod threads = t"
proof -
  have "port_share threads t = step_by threads (drop t [3301..<3301 + 50])" by (simp only: port_share_def PORTS_def) simp
  then show ?thesis using step_by_range_set [OF assms, of p 3301 50] by (simp only:) simp
qed

lemma port_share_length:
  assumes "t < threads"
  shows "length (port_share threads t) = 50 div threads + (if t < 50 mod threads then 1 else 0)"
proof -
  have "length (port_share threads t) = length (filter (\<lambda>i. i mod threads = t) [0..<50])"
    unfolding port_share_filter [OF assms] map_add_upt [of 3301 50, symmetric, unfolded add.commute [of 50]] by (simp add: filter_map comp_def del: upt_conv_Cons)
  then show ?thesis using count_residues [OF assms] by simp
qed

text \<open>The server's shares keep the contract too, for its fifty ports.\<close>

definition port_counts :: "nat \<Rightarrow> nat \<Rightarrow> nat list" where
  "port_counts tot n = map (\<lambda>t. length (port_share n t)) [0..<n]"

lemma sum_even_shares: "0 < n \<Longrightarrow> (\<Sum>t<n. m div n + (if t < m mod n then 1 else 0)) = m" for m n :: nat
proof -
  assume "0 < n"
  then have "t < n" if "t < m mod n" for t using that by (meson mod_less_divisor less_trans)
  then have "{..<n} \<inter> {t. t < m mod n} = {..<m mod n}" by auto
  then show ?thesis by (simp add: sum.distrib sum.If_cases)
qed

lemma port_counts_nth: "t < n \<Longrightarrow> port_counts tot n ! t = 50 div n + (if t < 50 mod n then 1 else 0)"
  by (simp only: port_counts_def nth_map length_upt diff_zero nth_upt add_0 port_share_length)

lemma port_counts_length: "length (port_counts tot n) = n"
  by (simp add: port_counts_def)

interpretation port_split: even_split "\<lambda>tot n. tot = 50 \<and> 0 < n" port_counts
proof unfold_locales
  show "length (port_counts tot n) = n" for tot n by (rule port_counts_length)
  fix tot n :: nat assume fits: "tot = 50 \<and> 0 < n"
  have "sum_list (port_counts tot n) = (\<Sum>t<n. tot div n + (if t < tot mod n then 1 else 0))"
    unfolding sum_list_sum_nth port_counts_length atLeast0LessThan using fits
    by (intro sum.cong) (simp_all only: port_counts_nth lessThan_iff)
  then show "sum_list (port_counts tot n) = tot" using sum_even_shares [of n tot] fits by (simp only:)
  fix p assume "p \<in> set (port_counts tot n)"
  then obtain t where "t < n" "p = port_counts tot n ! t" by (auto simp: in_set_conv_nth port_counts_length)
  then show "tot div n \<le> p \<and> p \<le> tot div n + 1" using fits by (auto simp only: port_counts_nth split: if_splits)
qed

lemma bind_ports: "bind bind_any p = Inr s \<Longrightarrow> bound_port s = p"
  by (auto simp: bind_def split: option.splits)

lemma bind_all_ports: "bind_all bind_any ps = Inr ss \<Longrightarrow> map bound_port ss = ps"
  by (induction ps arbitrary: ss) (auto dest: bind_ports split: sum.splits)

lemma start_workers_ports:
  "start_workers bind_any ce threads ts = Inr socks \<Longrightarrow> map (map bound_port) socks = map (port_share threads) ts"
  by (induction ts arbitrary: socks) (auto dest: bind_all_ports split: sum.splits option.splits)

lemmas server_flags_simps = server_flags_def flag_duration_def flag_int_def flag_add_def

lemma server_flags_ok: "flags_ok server_flags"
proof -
  have "flags_ok []" by (simp add: flags_ok_def)
  then show ?thesis
    unfolding server_flags_def flag_defs by (intro flags_ok_add check_int) (simp_all add: check_def Let_def default_durations)
qed

lemma server_threads_pos:
  assumes "f = snd (parse_flags args server_flags)" and "cpus \<noteq> Some 0"
  shows "0 < server_threads f cpus" and "server_threads f cpus \<le> 50"
proof -
  obtain fl where "map_of server_flags ''t'' = Some fl" by (simp add: server_flags_simps)
  from parse_get_int [OF this, of args] obtain n where n: "get_int f ''t'' = Some n" "n < 2 ^ 63"
    using assms(1) by blast
  then have "0 < n \<Longrightarrow> 0 < as_u64 n" by (simp add: as_u64_id)
  then show "0 < server_threads f cpus"
    using n(1) assms(2) by (auto simp: server_threads_def PORTS_def split: option.split)
  show "server_threads f cpus \<le> 50" by (simp add: server_threads_def PORTS_def)
qed

text \<open>
  C27. The server listens where the client dials. When the quiche server serves, whatever
  its flags and however many CPUs it has: it has between one and fifty workers, each with
  its even share of the ports and at least one; every address the client dials for it has a port that
  exactly one worker is bound to; the control address the client asks is the port of the
  control server; and the settings are those of the flags, the payload and the streams raised
  to at least one, the idle timeout as it was given.
\<close>

theorem server_listens:
  assumes "server_main E program args = Serving st ctl socks" and "se_cpus E \<noteq> Some 0"
    and "\<forall>h p. case resolve h p of Inl _ \<Rightarrow> True | Inr as \<Rightarrow> list_all (\<lambda>a. sa_port a = p) as"
  shows "0 < length socks \<and> length socks \<le> 50 \<and> 1 \<le> st_payload st \<and> 1 \<le> st_streams st \<and>
    get_duration (snd (parse_flags args server_flags)) ''idle'' = Some (st_idle st) \<and>
    (\<forall>t < length socks. length (socks ! t) = 50 div length socks + (if t < 50 mod length socks then 1 else 0) \<and>
       1 \<le> length (socks ! t)) \<and>
    (\<forall>addrs. benchmark_addrs resolve FRAMEWORK ip = Inr addrs \<longrightarrow>
       (\<forall>a \<in> set addrs. \<exists>!t. t < length socks \<and> sa_port a \<in> bound_port ` set (socks ! t))) \<and>
    (\<forall>c. control_addr resolve FRAMEWORK ip = Inr c \<longrightarrow> sa_port c = bound_port ctl)"
proof -
  define f where "f = snd (parse_flags args server_flags)"
  define n where "n = server_threads f (se_cpus E)"
  have run: "start_workers (se_bind_udp E) (se_config_error E) n [0..<n] = Inr socks" "st = server_settings f"
      "control_start (se_bind_tcp E) 3351 = Inr ctl"
    using assms(1) by (auto simp: server_main_def f_def n_def PORTS_def Let_def split: prod.splits option.splits
        flag_error.splits sum.splits)
  have n: "0 < n" "n \<le> 50" using server_threads_pos [OF f_def assms(2)] by (simp_all add: n_def)
  have ps: "map (map bound_port) socks = map (port_share n) [0..<n]" by (rule start_workers_ports [OF run(1)])
  then have len: "length socks = n" by (metis length_map length_upt minus_nat.diff_0)
  have share: "map bound_port (socks ! t) = port_share n t" if "t < n" for t
    using ps that len by (metis (no_types, lifting) add_0 diff_zero length_upt nth_map nth_upt)
  have sets: "bound_port ` set (socks ! t) = set (port_share n t)" if "t < n" for t
    using share [OF that] by (metis list.set_map)
  have one: "\<exists>!t. t < n \<and> p \<in> bound_port ` set (socks ! t)" if "p \<in> {3301..<3351}" for p
  proof (rule ex1I [of _ "(p - 3301) mod n"])
    show "(p - 3301) mod n < n \<and> p \<in> bound_port ` set (socks ! ((p - 3301) mod n))"
      using n that by (simp add: sets port_share_set)
    show "t = (p - 3301) mod n" if "t < n \<and> p \<in> bound_port ` set (socks ! t)" for t
      using that sets [of t] port_share_set [of t n p] by auto
  qed
  have "length (socks ! t) = 50 div n + (if t < 50 mod n then 1 else 0)" if "t < n" for t
    using port_share_length [OF that] share [OF that] by (metis length_map)
  moreover have "1 \<le> length (socks ! t)" if "t < n" for t
  proof (rule port_split.everyone [of 50 n])
    have "length (socks ! t) = port_counts 50 n ! t" using share [OF that] that by (metis length_map port_counts_def diff_zero length_upt nth_map nth_upt add_0)
    then show "length (socks ! t) \<in> set (port_counts 50 n)" using that by (simp add: port_counts_length)
  qed (use n in simp_all)
  moreover have "\<forall>a \<in> set addrs. sa_port a \<in> {3301..<3351}" if "benchmark_addrs resolve FRAMEWORK ip = Inr addrs" for addrs
    using that by (auto simp: benchmark_addrs_def FRAMEWORK_def ports_simps simp del: upt_conv_Cons split: sum.splits)
  moreover have "sa_port c = bound_port ctl" if "control_addr resolve FRAMEWORK ip = Inr c" for c
    using that run(3) spec [OF spec [OF assms(3), of "bare_host ip"], of 3351]
    by (auto simp: control_addr_def FRAMEWORK_def ports_simps first_addr_def control_start_def
        split: sum.splits list.splits option.splits)
  moreover have "1 \<le> st_payload st" "1 \<le> st_streams st"
    using positive_setting(1) [of server_flags "''b''" _ args] positive_setting(1) [of server_flags "''streams''" _ args]
    by (simp_all add: run(2) server_settings_def f_def server_flags_simps)
  moreover have "get_duration (snd (parse_flags args server_flags)) ''idle'' = Some (st_idle st)"
  proof -
    obtain fl where "map_of server_flags ''idle'' = Some fl" "fl_kind fl = FDuration" by (simp add: server_flags_simps)
    from get_duration_checked [OF server_flags_ok this, of args] show ?thesis
      by (auto simp: run(2) server_settings_def f_def)
  qed
  ultimately show ?thesis using n one by (simp add: len)
qed

text \<open>A machine of two CPUs where nothing fails.\<close>

definition quiet_env :: server_env where
  "quiet_env = \<lparr>se_bind_udp = \<lambda>_. None, se_bind_tcp = \<lambda>_. None, se_cpus = Some 2, se_cert_error = None,
     se_config_error = None\<rparr>"

lemma bind_all_quiet: "bind_all (\<lambda>_. None) ps = Inr (map Bound_V6 ps)"
  by (induction ps) (simp_all add: bind_def)

lemma start_workers_quiet: "start_workers (\<lambda>_. None) None n ts = Inr (map (map Bound_V6 \<circ> port_share n) ts)"
  by (induction ts) (simp_all add: bind_all_quiet)

theorem server_listens_witness:
  "\<exists>st ctl socks. server_main quiet_env ''quiche.server'' [''-t=3''] = Serving st ctl socks \<and>
     0 < length socks \<and> 1 \<le> st_payload st \<and> length (socks ! 0) = 17"
proof -
  define f where "f = snd (parse_flags [''-t=3''] server_flags)"
  obtain fl where fl: "map_of server_flags ''t'' = Some fl" "fl_kind fl = FInt" by (simp add: server_flags_simps)
  have c: "parse_i64 ''3'' = Some 3" by code_simp
  have p: "parse_flags [''-t=3''] server_flags = (None, set_flag ''t'' fl ''3'' server_flags)"
    using parse_inline [of "''t''" server_flags fl 1 "''3''" "[]"] fl c
    by (simp add: good_name_def check_def Let_def parse_flags.simps [of "[]"])
  then have f: "parse_flags [''-t=3''] server_flags = (None, f)" "get_int f ''t'' = Some 3"
    by (simp_all add: f_def get_int_def raw_def map_of_set_flag c)
  have t: "server_threads f (Some 2) = 3" by (simp add: server_threads_def f(2) PORTS_def as_u64_def)
  obtain st ctl socks where m: "server_main quiet_env ''quiche.server'' [''-t=3''] = Serving st ctl socks" "length socks = 3"
    using f(1) t by (simp add: server_main_def quiet_env_def control_start_def start_workers_quiet)
  have "\<forall>h p. case loopback_resolver h p of Inl _ \<Rightarrow> True | Inr as \<Rightarrow> list_all (\<lambda>a. sa_port a = p) as"
    by (simp add: loopback_resolver_def)
  from server_listens [OF m(1) _ this] m show ?thesis by (auto simp: quiet_env_def)
qed

end
