(* ===== verification/Procstat.thy ===== *)
theory Procstat
  imports Text Float64
begin

text \<open>
  \<^verbatim>\<open>benchkit/src/procstat.rs\<close>: finding a process by its name, reading its CPU time and
  resident memory on Linux, and the sampler, a thread that turns the readings into a
  series of CPU percentages and memory sizes. The files of \<^verbatim>\<open>/proc\<close> and the output of \<^verbatim>\<open>ps\<close>
  are arguments. The theorems: what a sample says, that a benchmark reads the samples
  taken since its mark and no others, and what a failed reading does to the next sample.
\<close>

subsection \<open>Processes\<close>

text \<open>
  What the system shows: whether there is a \<^verbatim>\<open>/proc\<close> and its entries, the files of a
  process, the output of \<^verbatim>\<open>ps\<close> where there is none, and two numbers of \<^verbatim>\<open>sysconf\<close>.
\<close>

record proc_os =
  po_has_proc :: bool
  po_entries :: "string + string list"
  po_cmdline :: "int \<Rightarrow> string option"
  po_ps_all :: "string + string"
  po_ps_comm :: "int \<Rightarrow> string option"
  po_stat :: "int \<Rightarrow> string + string"
  po_statm :: "int \<Rightarrow> string + string"
  po_hz :: int
  po_page :: int

definition basename :: "string \<Rightarrow> string" where
  "basename path = after_last (CHR ''/'') path"

definition process_name :: "proc_os \<Rightarrow> int \<Rightarrow> string option" where
  "process_name P pid =
     (case po_cmdline P pid of
        Some cmdline \<Rightarrow>
          (let argv0 = takeWhile (\<lambda>c. c \<noteq> CHR 0x00) cmdline in
           if argv0 = [] then None else Some (basename (from_utf8_lossy argv0)))
      | None \<Rightarrow>
          (case po_ps_comm P pid of
             None \<Rightarrow> None
           | Some out \<Rightarrow>
               (let comm = trim (from_utf8_lossy out) in if comm = [] then None else Some (basename comm))))"

text \<open>One line of \<^verbatim>\<open>ps\<close>: the pid, white space, and the path to the end of the line.\<close>

definition ps_line :: "string \<Rightarrow> string \<Rightarrow> int option" where
  "ps_line name line =
     (let t = trim_start line; pid = first_word t; rest = drop (length pid) t in
      if rest = [] then None
      else if basename (trim (drop (ws_len rest) rest)) = name then parse_i32 pid else None)"

definition processes_named :: "proc_os \<Rightarrow> string \<Rightarrow> string + int list" where
  "processes_named P name =
     (if po_has_proc P then
        (case po_entries P of
           Inl e \<Rightarrow> Inl e
         | Inr entries \<Rightarrow>
             Inr (filter (\<lambda>pid. process_name P pid = Some name)
               (List.map_filter (\<lambda>entry. parse_i32 (from_utf8_lossy entry)) entries)))
      else
        (case po_ps_all P of
           Inl e \<Rightarrow> Inl (''ps: '' @ e)
         | Inr out \<Rightarrow> Inr (List.map_filter (ps_line name) (lines (from_utf8_lossy out)))))"

text \<open>
  \<^verbatim>\<open>cpu_and_rss\<close> on Linux. The sums and products are those of a release build, which wrap.
\<close>

definition stat_ticks :: "string list \<Rightarrow> nat \<Rightarrow> string + nat" where
  "stat_ticks words i =
     (case (if i < length words then parse_u64 (words ! i) else None) of
        None \<Rightarrow> Inl ''malformed stat''
      | Some n \<Rightarrow> Inr n)"

definition cpu_and_rss :: "proc_os \<Rightarrow> int \<Rightarrow> string + duration \<times> nat" where
  "cpu_and_rss P pid =
     (case po_stat P pid of
        Inl e \<Rightarrow> Inl e
      | Inr stat \<Rightarrow>
          if CHR '')'' \<notin> set stat then Inl ''malformed stat''
          else
            (let words = split_whitespace (after_last (CHR '')'') stat); hz = nat (max (po_hz P) 1) in
             case stat_ticks words 11 of
               Inl e \<Rightarrow> Inl e
             | Inr user \<Rightarrow>
                 (case stat_ticks words 12 of
                    Inl e \<Rightarrow> Inl e
                  | Inr system \<Rightarrow>
                      (case po_statm P pid of
                         Inl e \<Rightarrow> Inl e
                       | Inr statm \<Rightarrow>
                           (case stat_ticks (split_whitespace statm) 1 of
                              Inl _ \<Rightarrow> Inl ''malformed statm''
                            | Inr pages \<Rightarrow>
                                Inr ((user + system) mod 2 ^ 64 * 1000000000 mod 2 ^ 64 div hz,
                                     pages * nat (max (po_page P) 1) mod 2 ^ 64))))))"

subsection \<open>The sampler\<close>

text \<open>
  The state of the sampler's thread with the samples it shares, and what a turn of its
  loop sees: the clock when the loop asks whether the interval is over, the flag that
  tells it to stop, the clock after that, and what reading the process gave.
\<close>

record sampler =
  sm_pid :: int
  sm_interval :: duration
  sm_last :: instant
  sm_last_cpu :: duration
  sm_failures :: nat
  sm_cpu :: "f64 list"
  sm_rss :: "nat list"
  sm_done :: bool

record turn =
  tn_check :: instant
  tn_stop :: bool
  tn_now :: instant
  tn_reading :: "string + duration \<times> nat"

definition percent :: "duration \<Rightarrow> duration \<Rightarrow> f64" where
  "percent cpu wall = fmul (fdiv (as_secs_f64 cpu) (as_secs_f64 wall)) 100"

text \<open>
  A turn: a sleep when the interval is not over, or the end when it is to stop; otherwise
  a sample. The clock decides how many turns a sleep lasts.
\<close>

definition take_sample :: "instant \<Rightarrow> string + duration \<times> nat \<Rightarrow> sampler \<Rightarrow> sampler" where
  "take_sample now reading s =
     (case reading of
        Inr (cpu, rss) \<Rightarrow>
          s\<lparr>sm_failures := 0,
            sm_cpu := sm_cpu s @ [percent (cpu - sm_last_cpu s) (now - sm_last s)],
            sm_rss := sm_rss s @ [rss], sm_last_cpu := cpu, sm_last := now\<rparr>
      | Inl _ \<Rightarrow>
          (let failures = sm_failures s + 1 in
           if 5 \<le> failures then s\<lparr>sm_failures := failures, sm_done := True\<rparr>
           else s\<lparr>sm_failures := failures, sm_last := now\<rparr>))"

definition sampler_turn :: "sampler \<Rightarrow> turn \<Rightarrow> sampler" where
  "sampler_turn s t =
     (if sm_done s then s
      else if tn_check t < sm_last s + sm_interval s then
        if tn_stop t then s\<lparr>sm_done := True\<rparr> else s
      else take_sample (tn_now t) (tn_reading t) s)"

definition sampler_run :: "turn list \<Rightarrow> sampler \<Rightarrow> sampler" where
  "sampler_run ts s = foldl sampler_turn s ts"

text \<open>\<^verbatim>\<open>Sampler::start\<close>: one reading first; then the thread, which may fail to start.\<close>

definition sampler_start :: "proc_os \<Rightarrow> string option \<Rightarrow> int \<Rightarrow> duration \<Rightarrow> instant \<Rightarrow> string + sampler" where
  "sampler_start P spawn_error pid interval now =
     (case cpu_and_rss P pid of
        Inl e \<Rightarrow> Inl (''pid '' @ show_int pid @ '': '' @ e)
      | Inr (cpu, _) \<Rightarrow>
          (case spawn_error of
             Some e \<Rightarrow> Inl e
           | None \<Rightarrow>
               Inr \<lparr>sm_pid = pid, sm_interval = (if interval = 0 then secs 1 else interval), sm_last = now,
                    sm_last_cpu = cpu, sm_failures = 0, sm_cpu = [], sm_rss = [], sm_done = False\<rparr>))"

text \<open>\<^verbatim>\<open>drop\<close> sets the flag and joins the thread: its remaining turns see the flag.\<close>

definition sampler_drop :: "turn list \<Rightarrow> sampler \<Rightarrow> sampler" where
  "sampler_drop ts s = sampler_run (map (\<lambda>t. t\<lparr>tn_stop := True\<rparr>) ts) s"

definition sampler_len :: "sampler \<Rightarrow> nat \<times> nat" where
  "sampler_len s = (length (sm_cpu s), length (sm_rss s))"

definition sampler_since :: "sampler \<Rightarrow> nat \<Rightarrow> nat \<Rightarrow> f64 list \<times> nat list" where
  "sampler_since s cpu mem =
     (drop (min cpu (length (sm_cpu s))) (sm_cpu s), drop (min mem (length (sm_rss s))) (sm_rss s))"

subsection \<open>What a sample says\<close>

text \<open>
  The turns of a thread follow its clock: a reading of the clock is not before an
  earlier one.
\<close>

fun clock_ok :: "instant \<Rightarrow> turn list \<Rightarrow> bool" where
  "clock_ok t0 [] = True"
| "clock_ok t0 (t # ts) = (t0 \<le> tn_check t \<and> tn_check t \<le> tn_now t \<and> clock_ok (tn_now t) ts)"

definition sampler_inv :: "sampler \<Rightarrow> bool" where
  "sampler_inv s \<longleftrightarrow> 0 < sm_interval s \<and> length (sm_cpu s) = length (sm_rss s) \<and> list_all (\<lambda>c. 0 \<le> c) (sm_cpu s)"

lemma percent_nonneg: "0 \<le> percent cpu wall"
  by (simp add: percent_def fmul_def fdiv_def f64_rnd_nonneg as_secs_f64_nonneg)

lemma sampler_turn_inv: "sampler_inv s \<Longrightarrow> sampler_inv (sampler_turn s t)"
  by (auto simp: sampler_inv_def sampler_turn_def take_sample_def percent_nonneg Let_def split: sum.split)

lemma sampler_turn_grows:
  "\<exists>cs rs. sm_cpu (sampler_turn s t) = sm_cpu s @ cs \<and> sm_rss (sampler_turn s t) = sm_rss s @ rs"
  by (auto simp: sampler_turn_def take_sample_def Let_def split: sum.split)

text \<open>
  What the sampler promises those who read its samples, the client's benchmarks and the
  control server: a turn of the thread only adds samples, and \<^verbatim>\<open>since\<close> gives those past a
  mark that \<^verbatim>\<open>len\<close> gave.
\<close>

locale sample_log =
  fixes turn_of :: "'s \<Rightarrow> 't \<Rightarrow> 's" and cpu_of :: "'s \<Rightarrow> 'c list" and mem_of :: "'s \<Rightarrow> 'm list"
    and len :: "'s \<Rightarrow> nat \<times> nat" and since :: "'s \<Rightarrow> nat \<Rightarrow> nat \<Rightarrow> 'c list \<times> 'm list"
  assumes appends: "\<exists>cs ms. cpu_of (turn_of s t) = cpu_of s @ cs \<and> mem_of (turn_of s t) = mem_of s @ ms"
    and len_law: "len s = (length (cpu_of s), length (mem_of s))"
    and since_law: "since s c m = (drop c (cpu_of s), drop m (mem_of s))"
begin

lemma run_appends: "\<exists>cs ms. cpu_of (foldl turn_of s ts) = cpu_of s @ cs \<and> mem_of (foldl turn_of s ts) = mem_of s @ ms"
proof (induction ts arbitrary: s)
  case (Cons t ts)
  from appends [of s t] Cons.IH [of "turn_of s t"] show ?case by auto
qed simp

lemma since_mark:
  assumes "cpu_of s' = cpu_of s @ cs" and "mem_of s' = mem_of s @ ms" and "len s = (c, m)"
  shows "since s' c m = (cs, ms)"
  using assms by (simp add: since_law len_law)

text \<open>The samples since a mark are those of the time up to a later mark and those since it.\<close>

lemma since_run:
  assumes "len s = (c, m)" and "len (foldl turn_of s ts) = (c', m')"
    and "since (foldl turn_of s ts) c m = (cs, ms)" and "since (foldl turn_of s (ts @ us)) c' m' = (cs', ms')"
  shows "since (foldl turn_of s (ts @ us)) c m = (cs @ cs', ms @ ms')"
  using assms run_appends [of s ts] run_appends [of "foldl turn_of s ts" us]
  by (auto simp: since_law len_law)

end

interpretation samples: sample_log sampler_turn sm_cpu sm_rss sampler_len sampler_since
proof unfold_locales
  show "\<exists>cs ms. sm_cpu (sampler_turn s t) = sm_cpu s @ cs \<and> sm_rss (sampler_turn s t) = sm_rss s @ ms" for s t
    by (rule sampler_turn_grows)
  show "sampler_since s c m = (drop c (sm_cpu s), drop m (sm_rss s))" for s c m
    by (auto simp: sampler_since_def min_def)
qed (simp add: sampler_len_def)

lemma sampler_run_Cons [simp]: "sampler_run (t # ts) s = sampler_run ts (sampler_turn s t)"
  by (simp add: sampler_run_def)

lemma sampler_run_Nil [simp]: "sampler_run [] s = s"
  by (simp add: sampler_run_def)

lemma sampler_run_inv: "sampler_inv s \<Longrightarrow> sampler_inv (sampler_run ts s)"
  by (induction ts arbitrary: s) (simp_all add: sampler_turn_inv)

lemma sampler_run_done: "sm_done s \<Longrightarrow> sampler_run ts s = s"
  by (induction ts) (simp_all add: sampler_turn_def)

text \<open>The thread ends at the first turn that finds the interval not over, and keeps its samples.\<close>

lemma sampler_drop_ends:
  "tn_check t < sm_last s + sm_interval s \<Longrightarrow> sampler_drop (t # ts) s = s\<lparr>sm_done := True\<rparr>"
  by (cases "sm_done s") (simp_all add: sampler_drop_def sampler_turn_def sampler_run_done)

lemma sampler_start_inv: "sampler_start P se pid interval now = Inr s \<Longrightarrow> sampler_inv s"
  by (auto simp: sampler_start_def sampler_inv_def split: sum.splits option.splits)

lemma near_percent:
  assumes "0 < wall" and "wall < 2 ^ 63" and "cpu < 2 ^ 63"
  shows "near 10 (percent cpu wall) (100 * of_nat cpu / of_nat wall)"
proof (cases "cpu = 0")
  case True
  then show ?thesis
    by (simp add: percent_def as_secs_f64_def fadd_def fdiv_def fmul_def f64_of_nat_def)
next
  case False
  have d: "d div 1000000000 < 2 ^ 53" if "d < 2 ^ 63" for d :: nat
    using that by (auto simp: div_less_iff_less_mult)
  have w: "(0 :: rat) < of_nat wall" using assms(1) by simp
  have "near (2 * (2 + 2)) (as_secs_f64 cpu / as_secs_f64 wall) ((of_nat cpu / 10 ^ 9) / (of_nat wall / 10 ^ 9))"
    using w by (intro near_div near_as_secs d assms) simp_all
  then have n8: "near 8 (as_secs_f64 cpu / as_secs_f64 wall) (of_nat cpu / of_nat wall)" by simp
  have "1 \<le> cpu" using False by simp
  then have "(1 :: rat) \<le> of_nat cpu" by simp
  moreover have "(of_nat wall :: rat) \<le> 2 ^ 63"
    using assms(2) by (metis less_imp_le of_nat_le_iff of_nat_numeral of_nat_power)
  ultimately have "1 / 2 ^ 63 \<le> (of_nat cpu / of_nat wall :: rat)" using w by (intro frac_le) simp_all
  moreover have "(2 :: rat) powi (- 1021) \<le> 2 powi (- 63)" by (rule power_int_increasing) simp_all
  then have "(2 :: rat) powi (- 1021) \<le> 1 / 2 ^ 63" by (simp add: power_int_minus inverse_eq_divide)
  ultimately have big: "2 powi (- 1021) \<le> (of_nat cpu / of_nat wall :: rat)" by linarith
  then have "near (8 + 1) (fdiv (as_secs_f64 cpu) (as_secs_f64 wall)) (of_nat cpu / of_nat wall)"
    unfolding fdiv_def by (intro near_rnd [OF n8]) simp_all
  from near_scale [OF this, of 100]
  have "near (8 + 1) (fdiv (as_secs_f64 cpu) (as_secs_f64 wall) * 100) (100 * of_nat cpu / of_nat wall)"
    by (simp add: mult.commute)
  moreover have "2 powi (- 1021) \<le> (100 * of_nat cpu / of_nat wall :: rat)"
    using big by (simp add: order_trans [OF big])
  ultimately have "near (8 + 1 + 1) (percent cpu wall) (100 * of_nat cpu / of_nat wall)"
    unfolding percent_def fmul_def by (intro near_rnd) simp_all
  then show ?thesis by simp
qed

text \<open>
  The reference: the moments the thread sampled at with what it read, and the CPU time and
  wall-clock time between each of them and the one before.
\<close>

fun sampled :: "sampler \<Rightarrow> turn list \<Rightarrow> (instant \<times> (string + duration \<times> nat)) list" where
  "sampled s [] = []"
| "sampled s (t # ts) =
     (if \<not> sm_done s \<and> sm_last s + sm_interval s \<le> tn_check t then [(tn_now t, tn_reading t)] else []) @
     sampled (sampler_turn s t) ts"

fun intervals :: "instant \<Rightarrow> duration \<Rightarrow> (instant \<times> duration \<times> nat) list \<Rightarrow> (duration \<times> duration) list" where
  "intervals t0 c0 [] = []"
| "intervals t0 c0 ((t, c, r) # xs) = (c - c0, t - t0) # intervals t c xs"

lemma sampler_turn_idle:
  "\<not> (\<not> sm_done s \<and> sm_last s + sm_interval s \<le> tn_check t) \<Longrightarrow>
     sm_last (sampler_turn s t) = sm_last s \<and> sm_last_cpu (sampler_turn s t) = sm_last_cpu s \<and>
     sm_interval (sampler_turn s t) = sm_interval s \<and>
     sm_cpu (sampler_turn s t) = sm_cpu s \<and> sm_rss (sampler_turn s t) = sm_rss s"
  by (auto simp: sampler_turn_def)

lemma sampler_run_ok:
  assumes "sampled s ts = map (\<lambda>(t, cr). (t, Inr cr)) xs"
  shows "sm_cpu (sampler_run ts s) = sm_cpu s @ map (\<lambda>(c, w). percent c w) (intervals (sm_last s) (sm_last_cpu s) xs) \<and>
    sm_rss (sampler_run ts s) = sm_rss s @ map (\<lambda>(t, c, r). r) xs"
  using assms
proof (induction ts arbitrary: s xs)
  case (Cons t ts)
  show ?case
  proof (cases "\<not> sm_done s \<and> sm_last s + sm_interval s \<le> tn_check t")
    case True
    then obtain c r xs' where xs: "xs = (tn_now t, c, r) # xs'" "tn_reading t = Inr (c, r)"
      using Cons.prems by (cases xs) auto
    have "sampled (sampler_turn s t) ts = map (\<lambda>(t, cr). (t, Inr cr)) xs'"
      using Cons.prems True xs by simp
    from Cons.IH [OF this] show ?thesis
      using True xs by (simp add: sampler_turn_def take_sample_def)
  next
    case False
    then have "sampled (sampler_turn s t) ts = map (\<lambda>(t, cr). (t, Inr cr)) xs" using Cons.prems by auto
    from Cons.IH [OF this] show ?thesis using sampler_turn_idle [OF False] by simp
  qed
qed simp

lemma clock_ok_mono: "clock_ok t0 ts \<Longrightarrow> t1 \<le> t0 \<Longrightarrow> clock_ok t1 ts"
  by (cases ts) auto

lemma sampled_walls:
  assumes "sampled s ts = map (\<lambda>(t, cr). (t, Inr cr)) xs" and "clock_ok (sm_last s) ts"
  shows "list_all (\<lambda>(c, w). sm_interval s \<le> w) (intervals (sm_last s) c0 xs) \<and>
    sum_list (map snd (intervals (sm_last s) c0 xs)) = last (sm_last s # map fst xs) - sm_last s \<and>
    sm_last s \<le> last (sm_last s # map fst xs)"
  using assms
proof (induction ts arbitrary: s xs c0)
  case (Cons t ts)
  show ?case
  proof (cases "\<not> sm_done s \<and> sm_last s + sm_interval s \<le> tn_check t")
    case True
    then obtain c r xs' where xs: "xs = (tn_now t, c, r) # xs'" "tn_reading t = Inr (c, r)"
      using Cons.prems by (cases xs) auto
    have s: "sampled (sampler_turn s t) ts = map (\<lambda>(t, cr). (t, Inr cr)) xs'"
      "sm_last (sampler_turn s t) = tn_now t" "sm_interval (sampler_turn s t) = sm_interval s"
      using Cons.prems True xs by (simp_all add: sampler_turn_def take_sample_def)
    have "clock_ok (sm_last (sampler_turn s t)) ts" using Cons.prems(2) s(2) by simp
    from Cons.IH [OF s(1) this, of c] show ?thesis
      using True xs(1) s(2,3) Cons.prems(2) by auto
  next
    case False
    note i = sampler_turn_idle [OF False]
    have "clock_ok (sm_last (sampler_turn s t)) ts" using Cons.prems(2) i by (auto intro: clock_ok_mono)
    then show ?thesis using Cons.IH [of "sampler_turn s t" xs c0] Cons.prems(1) False i by simp
  qed
qed simp

lemma intervals_bound:
  "list_all (\<lambda>(t, c, r). t < b \<and> c < b) xs \<Longrightarrow> list_all (\<lambda>(c, w). c < b \<and> w < b) (intervals t0 c0 xs)"
  by (induction t0 c0 xs rule: intervals.induct) auto

lemma intervals_cpu:
  "sorted (c0 # map (\<lambda>(t, c, r). c) xs) \<Longrightarrow>
     sum_list (map fst (intervals t0 c0 xs)) = last (c0 # map (\<lambda>(t, c, r). c) xs) - c0 \<and>
     c0 \<le> last (c0 # map (\<lambda>(t, c, r). c) xs)"
  by (induction t0 c0 xs rule: intervals.induct) auto

text \<open>
  C28. What a series of samples says. As long as reading the process does not fail, there
  is one CPU and one memory sample for each reading. A CPU sample is the CPU time used
  since the reading before, over the wall-clock time since then, in percent of one core,
  to within ten units of relative error \<open>2 ^ -52\<close>; the time it covers is at least the
  interval, so nothing is divided by zero. The samples cover all of the time and count
  all of the CPU time from the start to the last reading, each once.
\<close>

theorem sampler_measures:
  assumes "sampler_start P spawn_error pid interval t0 = Inr s0" and "clock_ok t0 ts"
    and "sampled s0 ts = map (\<lambda>(t, cr). (t, Inr cr)) xs"
    and "list_all (\<lambda>(t, c, r). t < 2 ^ 63 \<and> c < 2 ^ 63) xs"
    and "sorted (sm_last_cpu s0 # map (\<lambda>(t, c, r). c) xs)"
    and "ivs = intervals t0 (sm_last_cpu s0) xs"
  shows "sm_rss (sampler_run ts s0) = map (\<lambda>(t, c, r). r) xs \<and>
    list_all2 (\<lambda>p (c, w). 0 < w \<and> interval \<le> w \<and> near 10 p (100 * of_nat c / of_nat w)) (sm_cpu (sampler_run ts s0)) ivs \<and>
    sum_list (map fst ivs) = last (sm_last_cpu s0 # map (\<lambda>(t, c, r). c) xs) - sm_last_cpu s0 \<and>
    sum_list (map snd ivs) = last (t0 # map fst xs) - t0"
proof -
  have s0: "sm_last s0 = t0" "sm_cpu s0 = []" "sm_rss s0 = []" "0 < sm_interval s0" "interval \<le> sm_interval s0"
    using assms(1) by (auto simp: sampler_start_def split: sum.splits option.splits)
  note w = sampled_walls [OF assms(3), of "sm_last_cpu s0", unfolded s0(1), OF assms(2)]
  have b: "list_all (\<lambda>(c, w). c < 2 ^ 63 \<and> w < 2 ^ 63) ivs" unfolding assms(6) by (rule intervals_bound [OF assms(4)])
  have "list_all2 (\<lambda>p (c, w). 0 < w \<and> interval \<le> w \<and> near 10 p (100 * of_nat c / of_nat w))
      (map (\<lambda>(c, w). percent c w) ivs) ivs"
    unfolding list.rel_map
  proof (rule list.rel_refl_strong)
    fix iv assume iv: "iv \<in> set ivs"
    obtain c wl where "iv = (c, wl)" by fastforce
    moreover have "c < 2 ^ 63" "wl < 2 ^ 63" "sm_interval s0 \<le> wl"
      using iv b w \<open>iv = (c, wl)\<close> by (auto simp: list_all_iff assms(6))
    ultimately show "case iv of (c, w) \<Rightarrow> 0 < w \<and> interval \<le> w \<and>
        near 10 (case iv of (c, w) \<Rightarrow> percent c w) (100 * of_nat c / of_nat w)"
      using s0(4,5) near_percent [of wl c] by simp
  qed
  then show ?thesis
    using sampler_run_ok [OF assms(3)] w intervals_cpu [OF assms(5), of t0] s0 assms(6) by simp
qed

text \<open>
  C29. A reading that fails spoils the next sample. The time of the failed reading becomes
  the start of the next interval, the CPU time at its start does not: the sample after a
  failure counts the CPU time of both intervals against the time of the second one, so
  a process that keeps one core busy throughout is reported at more than 100 percent.
\<close>

theorem failed_reading_inflates:
  assumes "\<not> sm_done s" and "sm_failures s < 4" and "0 < sm_interval s" and "clock_ok (sm_last s) [f, t]"
    and "sm_last s + sm_interval s \<le> tn_check f" and "tn_reading f = Inl e"
    and "tn_now f + sm_interval s \<le> tn_check t" and "tn_reading t = Inr (cpu, rss)"
    and "cpu = sm_last_cpu s + (tn_now t - sm_last s)" and "cpu < 2 ^ 63" and "tn_now t < 2 ^ 63"
  shows "\<exists>p. sm_cpu (sampler_run [f, t] s) = sm_cpu s @ [p] \<and>
    near 10 p (100 * of_nat (tn_now t - sm_last s) / of_nat (tn_now t - tn_now f)) \<and>
    tn_now t - tn_now f < tn_now t - sm_last s"
proof -
  have "sampler_turn s f = s\<lparr>sm_failures := sm_failures s + 1, sm_last := tn_now f\<rparr>"
    using assms(1,2,5,6) by (simp add: sampler_turn_def take_sample_def)
  then have "sm_cpu (sampler_run [f, t] s) = sm_cpu s @ [percent (cpu - sm_last_cpu s) (tn_now t - tn_now f)]"
    using assms(1,7,8) by (simp add: sampler_turn_def take_sample_def)
  moreover have "near 10 (percent (cpu - sm_last_cpu s) (tn_now t - tn_now f))
      (100 * of_nat (cpu - sm_last_cpu s) / of_nat (tn_now t - tn_now f))"
    using assms by (intro near_percent) auto
  ultimately show ?thesis using assms by auto
qed

text \<open>A process that keeps one core busy, sampled once a second; the reading after two seconds fails.\<close>

definition busy_sampler :: sampler where
  "busy_sampler = \<lparr>sm_pid = 7, sm_interval = secs 1, sm_last = secs 1, sm_last_cpu = secs 1, sm_failures = 0,
     sm_cpu = [100], sm_rss = [4096], sm_done = False\<rparr>"

theorem failed_reading_inflates_witness:
  "\<exists>p. sm_cpu (sampler_run
      [\<lparr>tn_check = secs 2, tn_stop = False, tn_now = secs 2, tn_reading = Inl ''busy''\<rparr>,
       \<lparr>tn_check = secs 3, tn_stop = False, tn_now = secs 3, tn_reading = Inr (secs 3, 4096)\<rparr>] busy_sampler) = [100, p] \<and>
    near 10 p 200"
  using failed_reading_inflates [of busy_sampler "\<lparr>tn_check = secs 2, tn_stop = False, tn_now = secs 2, tn_reading = Inl ''busy''\<rparr>"
      "\<lparr>tn_check = secs 3, tn_stop = False, tn_now = secs 3, tn_reading = Inr (secs 3, 4096)\<rparr>" "''busy''" "secs 3" 4096]
  by (simp add: busy_sampler_def)

text \<open>A process that has used two seconds, on a system with a hundred ticks a second.\<close>

definition test_os :: proc_os where
  "test_os = \<lparr>po_has_proc = True, po_entries = Inr [''7''], po_cmdline = \<lambda>_. Some ''/bin/quiche.server'',
     po_ps_all = Inl [], po_ps_comm = \<lambda>_. None,
     po_stat = \<lambda>_. Inr ''7 (quiche.server) S 1 2 3 4 5 6 7 8 9 10 150 50'', po_statm = \<lambda>_. Inr ''90 10'',
     po_hz = 100, po_page = 4096\<rparr>"

lemma test_os_reads: "cpu_and_rss test_os 7 = Inr (secs 2, 40960)"
proof -
  have "after_last (CHR '')'') ''7 (quiche.server) S 1 2 3 4 5 6 7 8 9 10 150 50'' = '' S 1 2 3 4 5 6 7 8 9 10 150 50''"
    by code_simp
  moreover have "split_whitespace '' S 1 2 3 4 5 6 7 8 9 10 150 50'' =
      [''S'', ''1'', ''2'', ''3'', ''4'', ''5'', ''6'', ''7'', ''8'', ''9'', ''10'', ''150'', ''50'']"
    and "split_whitespace ''90 10'' = [''90'', ''10'']" by code_simp+
  ultimately show ?thesis
    by (simp add: cpu_and_rss_def test_os_def stat_ticks_def parse_u64_def parse_unsigned_def parse_digits_def
        is_ascii_digit_def digit_val_def)
qed

lemma test_os_start:
  "sampler_start test_os None 7 0 0 = Inr \<lparr>sm_pid = 7, sm_interval = secs 1, sm_last = 0, sm_last_cpu = secs 2,
     sm_failures = 0, sm_cpu = [], sm_rss = [], sm_done = False\<rparr>"
  by (simp add: sampler_start_def test_os_reads)

theorem sampler_measures_witness:
  "\<exists>s0 p. sampler_start test_os None 7 0 0 = Inr s0 \<and>
     sm_cpu (sampler_run [\<lparr>tn_check = 5, tn_stop = False, tn_now = 6, tn_reading = Inl []\<rparr>,
       \<lparr>tn_check = secs 1, tn_stop = False, tn_now = secs 2, tn_reading = Inr (secs 3, 8192)\<rparr>] s0) = [p] \<and> near 10 p 50"
proof -
  let ?ts = "[\<lparr>tn_check = 5, tn_stop = False, tn_now = 6, tn_reading = Inl []\<rparr>,
       \<lparr>tn_check = secs 1, tn_stop = False, tn_now = secs 2, tn_reading = Inr (secs 3, 8192)\<rparr>]"
  let ?s0 = "\<lparr>sm_pid = 7, sm_interval = secs 1, sm_last = 0, sm_last_cpu = secs 2,
     sm_failures = 0, sm_cpu = [], sm_rss = [], sm_done = False\<rparr>"
  have "sampled ?s0 ?ts = map (\<lambda>(t, cr). (t, Inr cr)) [(secs 2, secs 3, 8192)]"
    by (simp add: sampler_turn_def)
  from sampler_measures [OF test_os_start _ this _ _ refl]
  have "list_all2 (\<lambda>p (c, w). 0 < w \<and> 0 \<le> w \<and> near 10 p (100 * of_nat c / of_nat w)) (sm_cpu (sampler_run ?ts ?s0)) [(secs 1, secs 2)]"
    by simp
  then show ?thesis using test_os_start by (auto simp: list_all2_Cons2)
qed

end
