(* ===== verification/Control.thy ===== *)
theory Control
  imports Procstat
begin

text \<open>
  The control server of the quiche server, \<^verbatim>\<open>frameworks/quiche/src/control.rs\<close>: reading an
  HTTP/1 request, the routes \<^verbatim>\<open>/init\<close> and \<^verbatim>\<open>/ps\<close>, and the reply. A connection is the bytes
  that arrive on it and how it ends. JSON is serde's: reading the arguments of \<^verbatim>\<open>/init\<close>
  and printing the samples are arguments. The theorem: sampling starts once however often
  \<^verbatim>\<open>/init\<close> arrives.
\<close>

subsection \<open>Reading a request\<close>

text \<open>
  The bytes that are still to arrive, and what happens after them: the other side closes
  the connection, or reading fails, with a timeout for instance.
\<close>

type_synonym stream = "string \<times> string option"

abbreviation nl :: char where "nl \<equiv> CHR 0x0A"

abbreviation crlf :: string where "crlf \<equiv> [CHR 0x0D, CHR 0x0A]"

definition bad_utf8 :: string where "bad_utf8 = ''stream did not contain valid UTF-8''"

definition read_line :: "stream \<Rightarrow> string + string \<times> stream" where
  "read_line st =
     (case st of (s, e) \<Rightarrow>
        if nl \<in> set s then
          (let line = takeWhile (\<lambda>c. c \<noteq> nl) s @ [nl] in
           if utf8_valid line then Inr (line, drop (length line) s, e) else Inl bad_utf8)
        else
          (case e of
             Some err \<Rightarrow> Inl err
           | None \<Rightarrow> if utf8_valid s then Inr (s, [], e) else Inl bad_utf8))"

text \<open>The content length after a header line.\<close>

definition header_length :: "string \<Rightarrow> nat \<Rightarrow> nat" where
  "header_length h len =
     (case split_once (CHR '':'') h of
        None \<Rightarrow> len
      | Some (name, value) \<Rightarrow>
          if eq_ignore_ascii_case name ''content-length''
          then (case parse_u64 (trim value) of Some n \<Rightarrow> n | None \<Rightarrow> 0)
          else len)"

lemma read_line_shorter:
  "read_line st = Inr (h, st') \<Longrightarrow> h \<noteq> [] \<Longrightarrow> length (fst st') < length (fst st)"
proof -
  have "length s - Suc k < length s" if "c \<in> set s" for s :: string and k c
    using that by (cases s) auto
  then show "read_line st = Inr (h, st') \<Longrightarrow> h \<noteq> [] \<Longrightarrow> length (fst st') < length (fst st)"
    by (fastforce simp: read_line_def Let_def split: prod.splits if_splits option.splits)
qed

function read_headers :: "stream \<Rightarrow> nat \<Rightarrow> string + nat \<times> stream" where
  "read_headers st len =
     (case read_line st of
        Inl e \<Rightarrow> Inl e
      | Inr (h, st') \<Rightarrow>
          if h = [] \<or> h = crlf \<or> h = [nl] then Inr (len, st') else read_headers st' (header_length h len))"
  by pat_completeness auto

termination
  by (relation "measure (\<lambda>(st, len). length (fst st))") (auto dest: read_line_shorter)

declare read_headers.simps [simp del]

definition read_exact :: "nat \<Rightarrow> stream \<Rightarrow> string + string" where
  "read_exact n st =
     (if n \<le> length (fst st) then Inr (take n (fst st))
      else Inl (case snd st of Some e \<Rightarrow> e | None \<Rightarrow> ''failed to fill whole buffer''))"

text \<open>The method, the path and the body, or the error of reading them.\<close>

definition read_request :: "stream \<Rightarrow> string + string \<times> string \<times> string" where
  "read_request st =
     (case read_line st of
        Inl e \<Rightarrow> Inl e
      | Inr (line, st1) \<Rightarrow>
          (let words = split_whitespace line;
               meth = (if 0 < length words then words ! 0 else []);
               target = (if 1 < length words then words ! 1 else []);
               path = takeWhile (\<lambda>c. c \<noteq> CHR ''?'') target
           in case read_headers st1 0 of
                Inl e \<Rightarrow> Inl e
              | Inr (len, st2) \<Rightarrow>
                  (case read_exact (min len (2 ^ 20)) st2 of
                     Inl e \<Rightarrow> Inl e
                   | Inr body \<Rightarrow> Inr (meth, path, body))))"

subsection \<open>The routes\<close>

text \<open>
  The rest of the world: the processes, the pid of the server, whether a thread starts,
  the clock, and serde's reading of \<^verbatim>\<open>InitArgs\<close> (the default, zero, for what it does not
  understand) and printing of the samples.
\<close>

record ctl_env =
  ce_os :: proc_os
  ce_pid :: int
  ce_spawn_error :: "string option"
  ce_now :: instant
  ce_init_args :: "string \<Rightarrow> nat"
  ce_ps_json :: "f64 list \<Rightarrow> nat list \<Rightarrow> string"
  ce_stream_error :: "string option"
  ce_write_error :: "string option"

definition init :: "ctl_env \<Rightarrow> string \<Rightarrow> sampler option \<Rightarrow> string \<times> sampler option" where
  "init E body smp =
     (show_int (ce_pid E),
      case smp of
        Some s \<Rightarrow> Some s
      | None \<Rightarrow>
          (case sampler_start (ce_os E) (ce_spawn_error E) (ce_pid E) (ce_init_args E body) (ce_now E) of
             Inr s \<Rightarrow> Some s
           | Inl _ \<Rightarrow> None))"

definition ps :: "ctl_env \<Rightarrow> sampler option \<Rightarrow> string" where
  "ps E smp =
     (case (case smp of Some s \<Rightarrow> sampler_since s 0 0 | None \<Rightarrow> ([], [])) of (cpu, rss) \<Rightarrow> ce_ps_json E cpu rss)"

definition reply_text :: "nat \<Rightarrow> string \<Rightarrow> string" where
  "reply_text status reply =
     ''HTTP/1.1 '' @ show_nat status @ '' '' @ (if status = 200 then ''OK'' else ''Not Found'') @ crlf @
     ''Content-Type: text/plain; charset=utf-8'' @ crlf @
     ''Content-Length: '' @ show_nat (length reply) @ crlf @
     ''Connection: close'' @ crlf @ crlf @ reply"

definition route :: "ctl_env \<Rightarrow> string \<Rightarrow> string \<Rightarrow> sampler option \<Rightarrow> (nat \<times> string) \<times> sampler option" where
  "route E path body smp =
     (if path = ''/init'' then (case init E body smp of (reply, smp') \<Rightarrow> ((200, reply), smp'))
      else if path = ''/ps'' then ((200, ps E smp), smp)
      else ((404, ''404 page not found'' @ [nl]), smp))"

definition serve :: "ctl_env \<Rightarrow> stream \<Rightarrow> sampler option \<Rightarrow> (string + string) \<times> sampler option" where
  "serve E st smp =
     (case ce_stream_error E of
        Some e \<Rightarrow> (Inl e, smp)
      | None \<Rightarrow>
          (case read_request st of
             Inl e \<Rightarrow> (Inl e, smp)
           | Inr (meth, path, body) \<Rightarrow>
               (case route E path body smp of ((status, reply), smp') \<Rightarrow>
                  (case ce_write_error E of
                     Some e \<Rightarrow> (Inl e, smp')
                   | None \<Rightarrow> (Inr (reply_text status reply), smp')))))"

text \<open>The connections of the control server, one after the other.\<close>

definition serve_all :: "(ctl_env \<times> stream) list \<Rightarrow> sampler option \<Rightarrow> sampler option" where
  "serve_all conns smp = foldl (\<lambda>smp (E, st). snd (serve E st smp)) smp conns"

lemma serve_keeps: "snd (serve E st (Some s)) = Some s"
  by (auto simp: serve_def route_def init_def split: option.split sum.split prod.split)

text \<open>
  C30. Sampling starts once. Once a sampler runs, no request, well formed or not, delivered
  once or again by a client that tries again, replaces it or takes its samples away:
  the state after any number of connections has the same sampler with the same samples,
  and every \<^verbatim>\<open>/init\<close> is answered with the pid of the server.
\<close>

theorem sampling_starts_once:
  "serve_all conns (Some s) = Some s \<and> init E body (Some s) = (show_int (ce_pid E), Some s) \<and>
   (case init E body None of (reply, smp) \<Rightarrow> reply = show_int (ce_pid E) \<and>
      (case smp of None \<Rightarrow> True | Some s' \<Rightarrow> sm_pid s' = ce_pid E \<and> sm_cpu s' = [] \<and> 0 < sm_interval s'))"
proof -
  have "serve_all conns (Some s) = Some s"
    by (induction conns) (auto simp: serve_all_def serve_keeps)
  then show ?thesis
    by (auto simp: init_def sampler_start_def split: option.split sum.split)
qed

end
