(* ===== verification/Ps.thy ===== *)
theory Ps
  imports Procstat Config Stats
begin

text \<open>
  The client's side of the resource statistics, \<^verbatim>\<open>benchcli-rust/src/ps.rs\<close>: requests to the
  control port of a server and their retries, the samples a server takes of itself, and
  the source of a run's samples with the statistics over them. The network is an
  argument: an exchange takes the bytes of a request and returns the bytes of the whole
  reply, or an error. So is serde's reading of the \<^verbatim>\<open>/ps\<close> body.
\<close>

subsection \<open>Statistics\<close>

definition MODE_AUTO :: string where "MODE_AUTO = ''auto''"
definition MODE_LOCAL :: string where "MODE_LOCAL = ''local''"
definition MODE_REMOTE :: string where "MODE_REMOTE = ''remote''"

definition validate_mode :: "string \<Rightarrow> string option" where
  "validate_mode mode =
     (if mode = MODE_AUTO \<or> mode = MODE_LOCAL \<or> mode = MODE_REMOTE then None
      else Some (''unsupported -ps value '' @ show_debug mode @ '' (want '' @ MODE_AUTO @ '', '' @ MODE_LOCAL @
        '' or '' @ MODE_REMOTE @ '')''))"

record ps_stats =
  ps_cpu_min :: f64
  ps_cpu_avg :: f64
  ps_cpu_max :: f64
  ps_mem_min :: nat
  ps_mem_avg :: nat
  ps_mem_max :: nat

definition ps_default :: ps_stats where
  "ps_default = \<lparr>ps_cpu_min = 0, ps_cpu_avg = 0, ps_cpu_max = 0, ps_mem_min = 0, ps_mem_avg = 0, ps_mem_max = 0\<rparr>"

text \<open>\<^verbatim>\<open>f64::MAX\<close>, and the sum of an iterator of \<^verbatim>\<open>f64\<close>: from the left, each addition rounded.\<close>

definition f64_MAX :: f64 where "f64_MAX = (2 ^ 53 - 1) * 2 ^ 971"

definition fsum :: "f64 list \<Rightarrow> f64" where "fsum xs = foldl fadd 0 xs"

text \<open>
  The sum of the memory samples is one of a release build, which wraps. The sum of the CPU
  samples is taken to stay below infinity, which percentages of a CPU are far from.
\<close>

definition stats :: "f64 list \<Rightarrow> nat list \<Rightarrow> ps_stats" where
  "stats cpu rss =
     (let s = (case cpu of
                 [] \<Rightarrow> ps_default
               | [c] \<Rightarrow> ps_default\<lparr>ps_cpu_min := c, ps_cpu_avg := c, ps_cpu_max := c\<rparr>
               | _ # cs \<Rightarrow> ps_default\<lparr>ps_cpu_min := foldl min f64_MAX cs,
                     ps_cpu_avg := fdiv (fsum cs) (f64_of_nat (length cpu - 1)),
                     ps_cpu_max := foldl max 0 cpu\<rparr>)
      in case rss of
           [] \<Rightarrow> s
         | [r] \<Rightarrow> s\<lparr>ps_mem_min := r, ps_mem_avg := r, ps_mem_max := r\<rparr>
         | _ # rs \<Rightarrow> s\<lparr>ps_mem_min := sort rss ! 1, ps_mem_avg := sum_list rs mod 2 ^ 64 div (length rss - 1),
               ps_mem_max := sort rss ! (length rss - 1)\<rparr>)"

subsection \<open>Control requests\<close>

type_synonym exchange = "string \<Rightarrow> string + string"

abbreviation crlf2 :: string where "crlf2 \<equiv> [CHR 0x0D, CHR 0x0A, CHR 0x0D, CHR 0x0A]"

text \<open>An address is given as it is printed.\<close>

definition request_text :: "string \<Rightarrow> string \<Rightarrow> string \<Rightarrow> string \<Rightarrow> string" where
  "request_text addr meth path body =
     meth @ '' '' @ path @ '' HTTP/1.0'' @ [CHR 0x0D, CHR 0x0A] @ ''Host: '' @ addr @ [CHR 0x0D, CHR 0x0A] @
     (if meth = ''POST'' then ''Content-Length: '' @ show_nat (length body) @ [CHR 0x0D, CHR 0x0A] else []) @
     [CHR 0x0D, CHR 0x0A] @ body"

text \<open>The position of the blank line: \<^verbatim>\<open>windows(4).position(..)\<close>.\<close>

fun find_split :: "string \<Rightarrow> nat option" where
  "find_split [] = None"
| "find_split (c # s) = (if prefix crlf2 (c # s) then Some 0 else map_option Suc (find_split s))"

definition show_debug_option :: "string option \<Rightarrow> string" where
  "show_debug_option v = (case v of None \<Rightarrow> ''None'' | Some s \<Rightarrow> ''Some('' @ show_debug s @ '')'')"

definition control_once :: "exchange \<Rightarrow> string \<Rightarrow> string \<Rightarrow> string \<Rightarrow> string \<Rightarrow> string + nat \<times> string" where
  "control_once X addr meth path body =
     (case X (request_text addr meth path body) of
        Inl e \<Rightarrow> Inl e
      | Inr resp \<Rightarrow>
          (case find_split resp of
             None \<Rightarrow> Inl ''malformed response''
           | Some n \<Rightarrow>
               (let head = from_utf8_lossy (take n resp); words = split_whitespace head in
                case (if 1 < length words then parse_u16 (words ! 1) else None) of
                  None \<Rightarrow> Inl (''malformed status line: '' @
                    show_debug_option (case lines head of [] \<Rightarrow> None | l # _ \<Rightarrow> Some l))
                | Some status \<Rightarrow> Inr (status, drop (n + 4) resp))))"

definition ATTEMPTS :: nat where "ATTEMPTS = 4"

text \<open>
  The loop over the attempts: the exchange of each of them, the result and how long the
  thread slept before each attempt after the first.
\<close>

fun control_try :: "(nat \<Rightarrow> exchange) \<Rightarrow> string \<Rightarrow> string \<Rightarrow> string \<Rightarrow> string \<Rightarrow> nat \<Rightarrow> nat \<Rightarrow> string \<Rightarrow>
    (string + string) \<times> duration list" where
  "control_try X addr meth path body attempt 0 err = (Inl err, [])"
| "control_try X addr meth path body attempt (Suc n) err =
     (let wait = (if 1 < attempt then [secs (2 * (attempt - 1))] else []) in
      case control_once (X attempt) addr meth path body of
        Inr (status, reply) \<Rightarrow>
          (if status = 200 then Inr reply
           else Inl (''http://'' @ addr @ path @ '': status '' @ show_nat status @ '': '' @
                     trim (from_utf8_lossy reply)), wait)
      | Inl e \<Rightarrow>
          (case control_try X addr meth path body (attempt + 1) n (''http://'' @ addr @ path @ '': '' @ e) of
             (r, waits) \<Rightarrow> (r, wait @ waits)))"

definition control_request :: "(nat \<Rightarrow> exchange) \<Rightarrow> string \<Rightarrow> string \<Rightarrow> string \<Rightarrow> string \<Rightarrow>
    (string + string) \<times> duration list" where
  "control_request X addr meth path body = control_try X addr meth path body 1 ATTEMPTS []"

subsection \<open>A server that samples itself\<close>

text \<open>How \<^verbatim>\<open>ParseIntError\<close> prints, for a signed type.\<close>

definition int_error :: "nat \<Rightarrow> string \<Rightarrow> string" where
  "int_error bits s =
     (let t = (case s of c # u \<Rightarrow> if c = CHR ''-'' \<or> c = CHR ''+'' then u else s | [] \<Rightarrow> s) in
      if s = [] then ''cannot parse integer from empty string''
      else if parse_digits t = None then ''invalid digit found in string''
      else if prefix ''-'' s then ''number too small to fit in target type''
      else ''number too large to fit in target type'')"

definition remote_init :: "(nat \<Rightarrow> exchange) \<Rightarrow> string \<Rightarrow> duration \<Rightarrow> string + int" where
  "remote_init X addr interval =
     (case fst (control_request X addr ''POST'' ''/init''
          ([CHR 0x7B, CHR 0x22] @ ''PsInterval'' @ [CHR 0x22] @ '':'' @ show_nat interval @ [CHR 0x7D])) of
        Inl e \<Rightarrow> Inl e
      | Inr resp \<Rightarrow>
          (let text = trim (from_utf8_lossy resp) in
           case parse_i32 text of
             Some pid \<Rightarrow> Inr pid
           | None \<Rightarrow> Inl (''http://'' @ addr @ ''/init answered '' @ show_debug (from_utf8_lossy resp) @ '': '' @
               int_error 32 text)))"

text \<open>\<open>ps_body\<close> is serde's reading of \<^verbatim>\<open>PsBody\<close>, each field of which may be missing.\<close>

type_synonym ps_body = "string \<Rightarrow> string + f64 list option \<times> nat list option"

definition remote_samples :: "ps_body \<Rightarrow> (nat \<Rightarrow> exchange) \<Rightarrow> string \<Rightarrow> string + f64 list \<times> nat list" where
  "remote_samples B X addr =
     (case fst (control_request X addr ''GET'' ''/ps'' []) of
        Inl e \<Rightarrow> Inl e
      | Inr resp \<Rightarrow>
          (case B resp of
             Inl e \<Rightarrow> Inl (''http://'' @ addr @ ''/ps: '' @ e)
           | Inr (cpu, mem) \<Rightarrow>
               Inr (case cpu of None \<Rightarrow> [] | Some c \<Rightarrow> c, case mem of None \<Rightarrow> [] | Some r \<Rightarrow> r)))"

definition find_server_process :: "proc_os \<Rightarrow> string \<Rightarrow> string + int" where
  "find_server_process P framework =
     (let name = framework @ ''.server'' in
      case processes_named P name of
        Inl e \<Rightarrow> Inl e
      | Inr [] \<Rightarrow> Inl (''no '' @ name @ '' process on this machine'')
      | Inr [pid] \<Rightarrow> Inr pid
      | Inr pids \<Rightarrow> Inl (show_nat (length pids) @ '' '' @ name @ '' processes on this machine (['' @
          concat (map (\<lambda>p. show_int p @ '', '') (butlast pids)) @ show_int (last pids) @
          '']): stop the leftovers of earlier runs, e.g. with script/killall.sh''))"

subsection \<open>The source of the samples\<close>

datatype ps_source = LocalSource sampler "string option" | RemoteSource string

record mark_pos =
  mk_cpu :: nat
  mk_mem :: nat

definition mark_default :: mark_pos where "mark_default = \<lparr>mk_cpu = 0, mk_mem = 0\<rparr>"

definition describe :: "ps_source \<Rightarrow> string" where
  "describe src =
     (case src of
        LocalSource s None \<Rightarrow> ''sampled here, from pid '' @ show_int (sm_pid s)
      | LocalSource s (Some _) \<Rightarrow> ''sampled here, from pid '' @ show_int (sm_pid s) @
          '', with the server'' @ [CHR 0x27] @ ''s own /ps as the fallback''
      | RemoteSource addr \<Rightarrow> ''sampled by the server, read from '' @ addr @ '' over /ps'')"

text \<open>\<open>samples\<close> is \<open>remote_samples\<close> as the network answers it at that moment.\<close>

type_synonym samples_fun = "string \<Rightarrow> string + f64 list \<times> nat list"

definition mark :: "samples_fun \<Rightarrow> ps_source \<Rightarrow> mark_pos" where
  "mark samples src =
     (case src of
        LocalSource s _ \<Rightarrow> (case sampler_len s of (cpu, mem) \<Rightarrow> \<lparr>mk_cpu = cpu, mk_mem = mem\<rparr>)
      | RemoteSource addr \<Rightarrow>
          (case samples addr of
             Inr (cpu, rss) \<Rightarrow> \<lparr>mk_cpu = length cpu, mk_mem = length rss\<rparr>
           | Inl _ \<Rightarrow> mark_default))"

definition remote_stats :: "samples_fun \<Rightarrow> string \<Rightarrow> mark_pos \<Rightarrow> ps_stats \<times> string option" where
  "remote_stats samples addr m =
     (case samples addr of
        Inr (cpu, rss) \<Rightarrow>
          (let s = stats (drop (min (mk_cpu m) (length cpu)) cpu) (drop (min (mk_mem m) (length rss)) rss) in
           if ps_cpu_avg s \<le> 0 then
             (s, Some (''http://'' @ addr @ ''/ps answered with no CPU samples, so either /init did not reach it '' @
                ''or the benchmark was shorter than the -pi sampling interval''))
           else (s, None))
      | Inl e \<Rightarrow> (ps_default, Some e))"

definition stats_since :: "samples_fun \<Rightarrow> ps_source \<Rightarrow> mark_pos \<Rightarrow> ps_stats \<times> string option" where
  "stats_since samples src m =
     (case src of
        LocalSource s fallback \<Rightarrow>
          (case sampler_since s (mk_cpu m) (mk_mem m) of (cpu, rss) \<Rightarrow>
             if cpu = [] then
               (case fallback of
                  Some addr \<Rightarrow> remote_stats samples addr mark_default
                | None \<Rightarrow> (stats cpu rss, Some (''pid '' @ show_int (sm_pid s) @
                    '': no CPU samples in this benchmark, so it was shorter than the -pi sampling interval'')))
             else (stats cpu rss, None))
      | RemoteSource addr \<Rightarrow> remote_stats samples addr m)"

text \<open>
  \<^verbatim>\<open>setup\<close>: the control address, whether the server is on this machine, its processes, the
  thread of a sampler and the exchanges with the server are the environment's.
\<close>

record setup_env =
  su_control :: "string + string"
  su_is_local :: bool
  su_os :: proc_os
  su_spawn_error :: "string option"
  su_now :: instant
  su_exchange :: "nat \<Rightarrow> exchange"

definition ps_setup :: "setup_env \<Rightarrow> string \<Rightarrow> string \<Rightarrow> duration \<Rightarrow> ps_source \<times> string option" where
  "ps_setup E framework mode interval =
     (case su_control E of
        Inl e \<Rightarrow> (RemoteSource ''127.0.0.1:0'', Some e)
      | Inr addr \<Rightarrow>
          (let want_local = (mode = MODE_LOCAL \<or> mode = MODE_AUTO \<and> su_is_local E);
               sample = (\<lambda>pid. sampler_start (su_os E) (su_spawn_error E) pid interval (su_now E));
               started = (case find_server_process (su_os E) framework of Inl e \<Rightarrow> Inl e | Inr pid \<Rightarrow> sample pid)
           in case (if want_local then started else Inl []) of
                Inr s \<Rightarrow> (LocalSource s None, None)
              | Inl _ \<Rightarrow>
                  (case remote_init (su_exchange E) addr interval of
                     Inl e \<Rightarrow> (RemoteSource addr, Some e)
                   | Inr pid \<Rightarrow>
                       (case (if want_local \<and> process_name (su_os E) pid = Some (framework @ ''.server'')
                              then sample pid else Inl []) of
                          Inr s \<Rightarrow> (LocalSource s (Some addr), None)
                        | Inl _ \<Rightarrow> (RemoteSource addr, None)))))"

subsection \<open>The statistics are those of the samples\<close>

lemma foldl_min: "foldl min m xs = Min (set (m # xs))" for m :: "'a::linorder"
proof -
  have "(\<lambda>x s. min s x) = (min :: 'a \<Rightarrow> 'a \<Rightarrow> 'a)" by (intro ext) (simp add: min.commute)
  then show ?thesis by (simp only: Min.set_eq_fold foldl_conv_fold)
qed

lemma foldl_max: "foldl max m xs = Max (set (m # xs))" for m :: "'a::linorder"
proof -
  have "(\<lambda>x s. max s x) = (max :: 'a \<Rightarrow> 'a \<Rightarrow> 'a)" by (intro ext) (simp add: max.commute)
  then show ?thesis by (simp only: Max.set_eq_fold foldl_conv_fold)
qed

lemma near_fsum:
  assumes "near k acc y" and "0 \<le> y" and "y = 0 \<or> 2 powi (- 1021) \<le> y"
    and "list_all (\<lambda>c. c = 0 \<or> 2 powi (- 1021) \<le> c) xs" and "k + length xs < 2 ^ 51"
  shows "near (k + length xs) (foldl fadd acc xs) (y + sum_list xs) \<and>
    (y + sum_list xs = 0 \<or> 2 powi (- 1021) \<le> y + sum_list xs)"
  using assms
proof (induction xs arbitrary: k acc y)
  case (Cons x xs)
  have pos: "0 < (2 :: rat) powi (- 1021)" by simp
  have x: "0 \<le> x" "x = 0 \<or> 2 powi (- 1021) \<le> x"
    using Cons.prems(4) less_imp_le [OF pos] by (auto intro: order_trans)
  have yx: "y + x = 0 \<or> 2 powi (- 1021) \<le> y + x" using x Cons.prems(2,3) by auto
  have "near k (acc + x) (y + x)"
    using near_add [OF Cons.prems(1), of x x] x(1) by (simp add: near_def)
  then have "near (k + 1) (fadd acc x) (y + x)"
  proof (cases "y + x = 0")
    case True
    then show ?thesis using \<open>near k (acc + x) (y + x)\<close> by (simp add: fadd_def)
  next
    case False
    then have "2 powi (- 1021) \<le> y + x" using yx by blast
    from near_rnd [OF \<open>near k (acc + x) (y + x)\<close> this] Cons.prems(5) show ?thesis by (simp add: fadd_def)
  qed
  from Cons.IH [OF this _ yx] x(1) Cons.prems show ?case by (simp add: add.assoc)
qed simp

lemma sort_second:
  fixes xs :: "nat list"
  assumes "2 \<le> length xs"
  shows "length (filter (\<lambda>x. x < sort xs ! 1) xs) \<le> 1 \<and> 2 \<le> length (filter (\<lambda>x. x \<le> sort xs ! 1) xs)"
proof -
  have "1 < length (sort xs)" using assms by simp
  from sorted_rank [OF sorted_sort this] show ?thesis by (simp add: length_filter_sort)
qed

lemma sorted_last: "sorted ys \<Longrightarrow> ys \<noteq> [] \<Longrightarrow> last ys = Max (set ys)" for ys :: "nat list"
  by (intro Max_eqI [symmetric] last_in_set) (auto simp: last_conv_nth in_set_conv_nth intro!: sorted_nth_mono)

lemma sort_last: "xs \<noteq> [] \<Longrightarrow> sort xs ! (length xs - 1) = Max (set xs)" for xs :: "nat list"
proof -
  assume "xs \<noteq> []"
  then have "sort xs \<noteq> []" by (metis length_0_conv length_sort)
  then have "sort xs ! (length xs - 1) = last (sort xs)" by (simp add: last_conv_nth)
  also have "\<dots> = Max (set (sort xs))" using \<open>sort xs \<noteq> []\<close> by (intro sorted_last sorted_sort)
  finally show ?thesis by simp
qed

lemma mean_between:
  fixes xs :: "nat list"
  assumes "xs \<noteq> []"
  shows "Min (set xs) \<le> sum_list xs div length xs" and "sum_list xs div length xs \<le> Max (set xs)"
proof -
  have "length xs * Min (set xs) \<le> sum_list xs"
    using sum_list_mono [of xs "\<lambda>_. Min (set xs)" "\<lambda>x. x"] by (simp add: sum_list_triv)
  then show "Min (set xs) \<le> sum_list xs div length xs"
    using assms by (simp add: less_eq_div_iff_mult_less_eq mult.commute)
  have "sum_list xs \<le> length xs * Max (set xs)"
    using sum_list_mono [of xs "\<lambda>x. x" "\<lambda>_. Max (set xs)"] by (simp add: sum_list_triv)
  then have "sum_list xs div length xs \<le> length xs * Max (set xs) div length xs" by (rule div_le_mono)
  then show "sum_list xs div length xs \<le> Max (set xs)" using assms by simp
qed

text \<open>
  C31. The statistics of a benchmark, for two samples or more: the CPU minimum and average
  are those of the samples after the first, the average to within a relative error of
  \<open>2 ^ -52\<close> for each sample, and the maximum is that of all; the memory minimum is the
  second smallest sample, no more than one sample being smaller, the average is the
  rounded-down mean of the samples after the first and lies between their smallest and
  the maximum, and the maximum is that of all.
\<close>

theorem ps_statistics:
  assumes "2 \<le> length cpu" and "length cpu < 2 ^ 50"
    and "list_all (\<lambda>c. c \<le> f64_MAX \<and> (c = 0 \<or> 1 / 2 ^ 60 \<le> c)) cpu"
    and "2 \<le> length rss" and "sum_list rss < 2 ^ 64"
    and "s = stats cpu rss"
  shows "ps_cpu_min s = Min (set (tl cpu)) \<and> ps_cpu_max s = Max (set cpu) \<and>
    near (length cpu) (ps_cpu_avg s) (sum_list (tl cpu) / of_nat (length cpu - 1)) \<and>
    ps_mem_min s \<in> set rss \<and> length (filter (\<lambda>r. r < ps_mem_min s) rss) \<le> 1 \<and>
    2 \<le> length (filter (\<lambda>r. r \<le> ps_mem_min s) rss) \<and>
    ps_mem_avg s = sum_list (tl rss) div (length rss - 1) \<and>
    Min (set (tl rss)) \<le> ps_mem_avg s \<and> ps_mem_avg s \<le> ps_mem_max s \<and> ps_mem_max s = Max (set rss)"
proof -
  obtain c0 c1 cs where cpu: "cpu = c0 # c1 # cs" using assms(1) by (cases cpu; cases "tl cpu") auto
  obtain r0 r1 rs where rss: "rss = r0 # r1 # rs" using assms(4) by (cases rss; cases "tl rss") auto
  have s: "s = \<lparr>ps_cpu_min = foldl min f64_MAX (tl cpu), ps_cpu_avg = fdiv (fsum (tl cpu)) (f64_of_nat (length cpu - 1)),
      ps_cpu_max = foldl max 0 cpu, ps_mem_min = sort rss ! 1, ps_mem_avg = sum_list (tl rss) mod 2 ^ 64 div (length rss - 1),
      ps_mem_max = sort rss ! (length rss - 1)\<rparr>"
    unfolding assms(6) stats_def cpu rss ps_default_def by (simp del: sort_key_simps foldl_Cons)
  have ge0: "0 \<le> c" if "c \<in> set cpu" for c
    using assms(3) that by (auto simp: list_all_iff intro: order_trans [of _ "1 / 2 ^ 60"])
  have cmin: "ps_cpu_min s = Min (set (tl cpu))"
  proof -
    have "c1 \<le> f64_MAX" "Min (set (tl cpu)) \<le> c1" using assms(3) by (simp_all add: cpu)
    then have "Min (set (tl cpu)) \<le> f64_MAX" by (rule order_trans [rotated])
    then show ?thesis unfolding s foldl_min by (simp add: cpu min.absorb2)
  qed
  have cmax: "ps_cpu_max s = Max (set cpu)"
  proof -
    have "0 \<le> c0" "c0 \<le> Max (set cpu)" using ge0 by (simp_all add: cpu)
    then have "0 \<le> Max (set cpu)" by (rule order_trans)
    moreover have "set cpu \<noteq> {}" by (simp add: cpu)
    ultimately show ?thesis unfolding s foldl_max by (simp add: max.absorb2)
  qed
  have tiny: "(2 :: rat) powi (- 1021) \<le> 1 / 2 ^ 60"
    using power_int_increasing [of "- 1021" "- 60" "2 :: rat"] by (simp add: power_int_minus inverse_eq_divide)
  have "list_all (\<lambda>c. c = 0 \<or> 2 powi (- 1021) \<le> c) (tl cpu)"
    using assms(3) tiny by (auto simp: cpu list_all_iff intro: order_trans)
  from near_fsum [of 0 0 0, OF _ _ _ this] assms(2)
  have sum: "near (length (tl cpu)) (fsum (tl cpu)) (sum_list (tl cpu))"
    by (simp add: fsum_def near_def)
  have len: "f64_of_nat (length cpu - 1) = of_nat (length cpu - 1)" using assms(2) by (intro f64_of_nat_exact) simp
  define m where "m = length cpu - 1"
  have m: "0 < m" "m < 2 ^ 50" "length (tl cpu) = m" "length cpu = m + 1" using assms(1,2) by (auto simp: m_def)
  have q: "near m (fsum (tl cpu) / of_nat m) (sum_list (tl cpu) / of_nat m)"
    using near_scale [OF sum, of "1 / of_nat m"] m by simp
  have tl_sum: "sum_list (tl cpu) = 0 \<or> 1 / 2 ^ 60 \<le> sum_list (tl cpu)"
  proof (cases "\<forall>c \<in> set (tl cpu). c = 0")
    case True
    then show ?thesis by (metis sum_list_0 map_ident map_cong)
  next
    case False
    then obtain c where c: "c \<in> set (tl cpu)" "1 / 2 ^ 60 \<le> c" using assms(3) by (auto simp: cpu list_all_iff)
    have "c \<le> sum_list (tl cpu)" using ge0 c(1) by (intro member_le_sum_list) (auto simp: cpu)
    then show ?thesis using c(2) by simp
  qed
  have "near (m + 1) (f64_rnd (fsum (tl cpu) / of_nat m)) (sum_list (tl cpu) / of_nat m)"
  proof (cases "sum_list (tl cpu) = 0")
    case True
    then show ?thesis using q by (auto simp: f64_rnd_0)
  next
    case False
    have "(of_nat m :: rat) \<le> 2 ^ 50" using m(2) by (metis less_imp_le of_nat_le_iff of_nat_numeral of_nat_power)
    then have "1 / 2 ^ 60 / 2 ^ 50 \<le> sum_list (tl cpu) / of_nat m"
      using tl_sum False m(1) by (intro frac_le) simp_all
    moreover have "(2 :: rat) powi (- 1021) \<le> 1 / 2 ^ 60 / 2 ^ 50"
      using power_int_increasing [of "- 1021" "- 110" "2 :: rat"] by (simp add: power_int_minus inverse_eq_divide)
    ultimately have "2 powi (- 1021) \<le> sum_list (tl cpu) / of_nat m" by (rule order_trans [rotated])
    from near_rnd [OF q this] m(2) show ?thesis by simp
  qed
  then have avg: "near (length cpu) (ps_cpu_avg s) (sum_list (tl cpu) / of_nat (length cpu - 1))"
    unfolding s using len m by (simp add: fdiv_def)
  have "sum_list (tl rss) < 2 ^ 64" using assms(5) rss by simp
  then have mavg: "ps_mem_avg s = sum_list (tl rss) div (length rss - 1)" by (simp add: s)
  have mmax: "ps_mem_max s = Max (set rss)" using sort_last [of rss] rss by (simp add: s)
  have "ps_mem_min s \<in> set rss"
    using nth_mem [of 1 "sort rss"] assms(4) by (simp add: s)
  moreover have "sum_list (tl rss) div length (tl rss) \<le> Max (set (tl rss))" "Max (set (tl rss)) \<le> Max (set rss)"
    "Min (set (tl rss)) \<le> sum_list (tl rss) div length (tl rss)"
    using mean_between [of "tl rss"] rss by (auto intro: Max_mono)
  ultimately show ?thesis
    using cmin cmax avg mavg mmax sort_second [OF assms(4)] by (simp add: s)
qed

theorem ps_statistics_witness:
  "ps_cpu_min (stats [500, 100, 300] [10, 30, 20]) = 100 \<and> ps_cpu_max (stats [500, 100, 300] [10, 30, 20]) = 500 \<and>
   near 3 (ps_cpu_avg (stats [500, 100, 300] [10, 30, 20])) 200 \<and> ps_mem_avg (stats [500, 100, 300] [10, 30, 20]) = 25"
  using ps_statistics [of "[500, 100, 300]" "[10, 30, 20]", OF _ _ _ _ _ refl] by (simp add: f64_MAX_def flip: numeral_2_eq_2 numeral_3_eq_3)

subsection \<open>Retries\<close>

definition answered_by :: "(nat \<Rightarrow> exchange) \<Rightarrow> string \<Rightarrow> string \<Rightarrow> string \<Rightarrow> string \<Rightarrow> nat \<Rightarrow> bool" where
  "answered_by X addr meth path body k = (case control_once (X k) addr meth path body of Inl _ \<Rightarrow> False | Inr _ \<Rightarrow> True)"

definition reply_result :: "string \<Rightarrow> string \<Rightarrow> string + nat \<times> string \<Rightarrow> string + string" where
  "reply_result addr path r =
     (case r of
        Inl e \<Rightarrow> Inl (''http://'' @ addr @ path @ '': '' @ e)
      | Inr (status, reply) \<Rightarrow>
          if status = 200 then Inr reply
          else Inl (''http://'' @ addr @ path @ '': status '' @ show_nat status @ '': '' @ trim (from_utf8_lossy reply)))"

definition attempt_waits :: "nat \<Rightarrow> nat \<Rightarrow> duration list" where
  "attempt_waits a k = map (\<lambda>i. secs (2 * (i - 1))) (filter (\<lambda>i. 1 < i) [a..<k + 1])"

lemma attempt_waits_step:
  "a \<le> k \<Longrightarrow> attempt_waits a k = (if 1 < a then [secs (2 * (a - 1))] else []) @ attempt_waits (a + 1) k"
  by (simp add: attempt_waits_def upt_conv_Cons del: upt_Suc)

lemma control_try_spec:
  "0 < n \<Longrightarrow> control_try X addr meth path body a n err =
     (case find (answered_by X addr meth path body) [a..<a + n] of
        Some k \<Rightarrow> (reply_result addr path (control_once (X k) addr meth path body), attempt_waits a k)
      | None \<Rightarrow> (reply_result addr path (control_once (X (a + n - 1)) addr meth path body), attempt_waits a (a + n - 1)))"
proof (induction n arbitrary: a err)
  case (Suc n)
  have up: "[a..<a + Suc n] = a # [a + 1..<(a + 1) + n]" by (simp add: upt_conv_Cons del: upt_Suc)
  have w: "attempt_waits a a = (if 1 < a then [secs (2 * (a - 1))] else [])"
    using attempt_waits_step [of a a] by (simp add: attempt_waits_def)
  show ?case
  proof (cases "control_once (X a) addr meth path body")
    case (Inr q)
    then show ?thesis unfolding up by (cases q) (simp add: answered_by_def reply_result_def w)
  next
    case (Inl e)
    let ?f = "find (answered_by X addr meth path body) [a + 1..<(a + 1) + n]"
    have f: "find (answered_by X addr meth path body) [a..<a + Suc n] = ?f"
      unfolding up using Inl by (simp add: answered_by_def)
    show ?thesis
    proof (cases "n = 0")
      case True
      then show ?thesis unfolding up using Inl by (simp add: answered_by_def reply_result_def w)
    next
      case False
      have k: "a \<le> k" if "?f = Some k" for k using that by (auto simp: find_Some_iff simp del: upt_Suc)
      show ?thesis
        unfolding f using Suc.IH [of "a + 1"] False Inl k attempt_waits_step [of a]
        by (cases ?f) (simp_all add: Let_def)
    qed
  qed
qed simp

text \<open>
  C32. A control request is tried four times at most. The first attempt a server answers
  decides: a reply of status 200 is the result, any other is the error that names the
  status and the body, and no other attempt is made. Only when all four fail is the result
  the error of the last one. Before the attempts after the first the thread sleeps two,
  four and six seconds: twelve seconds at most.
\<close>

theorem control_request_attempts:
  assumes "control_request X addr meth path body = (r, waits)"
  shows "(case find (answered_by X addr meth path body) [1..<5] of
      Some k \<Rightarrow> waits = map (\<lambda>i. secs (2 * i)) [1..<k] \<and>
        (\<exists>status reply. control_once (X k) addr meth path body = Inr (status, reply) \<and>
           r = (if status = 200 then Inr reply
                else Inl (''http://'' @ addr @ path @ '': status '' @ show_nat status @ '': '' @ trim (from_utf8_lossy reply))))
    | None \<Rightarrow> waits = map (\<lambda>i. secs (2 * i)) [1..<4] \<and>
        (\<exists>e. control_once (X 4) addr meth path body = Inl e \<and> r = Inl (''http://'' @ addr @ path @ '': '' @ e))) \<and>
    length waits \<le> 3 \<and> sum_list waits \<le> secs 12"
proof -
  let ?f = "find (answered_by X addr meth path body) [1..<5]"
  have w: "attempt_waits 1 k = map (\<lambda>i. secs (2 * i)) [1..<k]" for k
  proof -
    have "filter (\<lambda>i. 1 < i) [1..<k + 1] = map Suc [1..<k]" unfolding map_Suc_upt by (induction k) auto
    then show ?thesis by (simp add: attempt_waits_def comp_def)
  qed
  have c: "(r, waits) = (case ?f of
      Some k \<Rightarrow> (reply_result addr path (control_once (X k) addr meth path body), attempt_waits 1 k)
    | None \<Rightarrow> (reply_result addr path (control_once (X 4) addr meth path body), attempt_waits 1 4))"
  proof -
    have n: "1 + 4 = (5 :: nat)" "5 - 1 = (4 :: nat)" by simp_all
    show ?thesis
      using control_try_spec [of 4 X addr meth path body 1 "[]", unfolded n] assms
      by (simp add: control_request_def ATTEMPTS_def)
  qed
  have bound: "length (attempt_waits 1 k) \<le> 3 \<and> sum_list (attempt_waits 1 k) \<le> secs 12" if "k \<le> 4" for k
  proof -
    have "prefix [1..<k] [1..<4]" using that by (simp add: prefix_def le_Suc_ex flip: upt_add_eq_append) (metis le_add_diff_inverse nat_le_linear upt_add_eq_append upt_conv_Nil append_Nil)
    then have "prefix (attempt_waits 1 k) [secs 2, secs 4, secs 6]"
      unfolding w by (auto dest: map_mono_prefix [of _ _ "\<lambda>i. secs (2 * i)"] simp: upt_conv_Cons)
    then show ?thesis by (auto simp: prefix_Cons)
  qed
  show ?thesis
  proof (cases ?f)
    case None
    then have "\<not> answered_by X addr meth path body 4" by (auto simp: find_None_iff)
    then obtain e where "control_once (X 4) addr meth path body = Inl e"
      by (auto simp: answered_by_def split: sum.splits)
    then show ?thesis using None c bound [of 4] w [of 4] by (simp add: reply_result_def)
  next
    case (Some k)
    then have "answered_by X addr meth path body k" "k \<le> 4" by (auto simp: find_Some_iff)
    then obtain status reply where "control_once (X k) addr meth path body = Inr (status, reply)"
      by (auto simp: answered_by_def split: sum.splits)
    then show ?thesis using Some c bound [of k] w [of k] \<open>k \<le> 4\<close> by (simp add: reply_result_def)
  qed
qed

subsection \<open>What the client expects of a control server\<close>

definition init_body :: "duration \<Rightarrow> string" where
  "init_body interval = [CHR 0x7B, CHR 0x22] @ ''PsInterval'' @ [CHR 0x22] @ '':'' @ show_nat interval @ [CHR 0x7D]"

lemma control_request_first:
  assumes "control_once (X 1) addr meth path body = Inr (200, reply)"
  shows "control_request X addr meth path body = (Inr reply, [])"
proof -
  have n: "ATTEMPTS = Suc 3" by (simp add: ATTEMPTS_def)
  show ?thesis unfolding control_request_def n control_try.simps assms by simp
qed

text \<open>
  The contract: where the connections work, \<^verbatim>\<open>/init\<close> is answered with a pid, \<^verbatim>\<open>/ps\<close> with the
  samples as JSON, and another path with 404. The client's side is proved from it.
\<close>

locale control_server =
  fixes works :: "'e \<Rightarrow> string \<Rightarrow> bool" and exchange_with :: "'e \<Rightarrow> 'st \<Rightarrow> exchange"
    and pid_of :: "'e \<Rightarrow> int" and samples_json :: "'e \<Rightarrow> 'st \<Rightarrow> string"
  assumes pid_range: "works e addr \<Longrightarrow> - (2 ^ 31) \<le> pid_of e \<and> pid_of e < 2 ^ 31"
    and init_answer: "works e addr \<Longrightarrow> interval < 2 ^ 64 \<Longrightarrow>
      control_once (exchange_with e st) addr ''POST'' ''/init'' (init_body interval) = Inr (200, show_int (pid_of e))"
    and ps_answer: "works e addr \<Longrightarrow>
      control_once (exchange_with e st) addr ''GET'' ''/ps'' [] = Inr (200, samples_json e st)"
    and other_answer: "works e addr \<Longrightarrow> list_all plain path \<Longrightarrow> path \<noteq> [] \<Longrightarrow> CHR ''?'' \<notin> set path \<Longrightarrow>
      path \<noteq> ''/init'' \<Longrightarrow> path \<noteq> ''/ps'' \<Longrightarrow>
      control_once (exchange_with e st) addr ''GET'' path [] = Inr (404, ''404 page not found'' @ [CHR 0x0A])"
begin

lemma init_pid:
  assumes "works e addr" and "interval < 2 ^ 64"
  shows "remote_init (\<lambda>_. exchange_with e st) addr interval = Inr (pid_of e)"
proof -
  have "parse_i32 (trim (from_utf8_lossy (show_int (pid_of e)))) = Some (pid_of e)"
    using pid_range [OF assms(1)]
    by (simp add: lossy_ascii plain_ascii plain_show_int trim_plain parse_i32_def parse_signed_show_int)
  then show ?thesis
    unfolding remote_init_def init_body_def [symmetric]
    using control_request_first [of "\<lambda>_. exchange_with e st", OF init_answer [OF assms]] by (simp add: Let_def)
qed

lemma samples_read:
  assumes "works e addr" and "B (samples_json e st) = Inr (cpu, mem)"
  shows "remote_samples B (\<lambda>_. exchange_with e st) addr =
    Inr (case cpu of None \<Rightarrow> [] | Some c \<Rightarrow> c, case mem of None \<Rightarrow> [] | Some r \<Rightarrow> r)"
  using control_request_first [of "\<lambda>_. exchange_with e st", OF ps_answer [OF assms(1)]] assms(2)
  by (simp add: remote_samples_def)

lemma not_found:
  assumes "works e addr" and "list_all plain path" "path \<noteq> []" "CHR ''?'' \<notin> set path" "path \<noteq> ''/init''" "path \<noteq> ''/ps''"
  shows "fst (control_request (\<lambda>_. exchange_with e st) addr ''GET'' path []) =
    Inl (''http://'' @ addr @ path @ '': status 404: 404 page not found'')"
proof -
  have n: "ATTEMPTS = Suc 3" by (simp add: ATTEMPTS_def)
  have "trim (from_utf8_lossy (''404 page not found'' @ [CHR 0x0A])) = ''404 page not found''" by code_simp
  then show ?thesis
    unfolding control_request_def n control_try.simps other_answer [OF assms] by (simp add: show_nat.simps digit_chars)
qed

text \<open>With \<^verbatim>\<open>-ps=remote\<close> the samples come from such a server, and setting that up does not fail.\<close>

lemma setup_remote:
  assumes "works e addr" and "interval < 2 ^ 64" and "su_control E = Inr addr"
    and "su_exchange E = (\<lambda>_. exchange_with e st)"
  shows "ps_setup E framework MODE_REMOTE interval = (RemoteSource addr, None)"
  using init_pid [OF assms(1,2)] assms(3,4)
  by (simp add: ps_setup_def MODE_REMOTE_def MODE_LOCAL_def MODE_AUTO_def)

end

subsection \<open>The samples of a benchmark\<close>

text \<open>
  C33. A benchmark reads the samples taken while it ran. With a local sampler that has no
  fallback: the statistics are over the readings its thread made between the mark and
  the end, each with the CPU time since the one before, and there is an error exactly
  when it made none. With a server that samples itself, whose answer at the end has the
  samples of its answer at the mark first: over the ones that follow.
\<close>

theorem mark_isolates:
  assumes "sampled s ts = map (\<lambda>(t, cr). (t, Inr cr)) xs"
    and "cs = map (\<lambda>(c, w). percent c w) (intervals (sm_last s) (sm_last_cpu s) xs)" and "rs = map (\<lambda>(t, c, r). r) xs"
    and "before addr = Inr (cpu, rss)" and "after addr = Inr (cpu @ cs', rss @ rs')"
  shows "fst (stats_since after (LocalSource (sampler_run ts s) None) (mark before (LocalSource s None))) = stats cs rs \<and>
    (snd (stats_since after (LocalSource (sampler_run ts s) None) (mark before (LocalSource s None))) \<noteq> None \<longleftrightarrow> xs = []) \<and>
    fst (stats_since after (RemoteSource addr) (mark before (RemoteSource addr))) = stats cs' rs'"
proof -
  have run: "sm_cpu (sampler_run ts s) = sm_cpu s @ cs" "sm_rss (sampler_run ts s) = sm_rss s @ rs"
    using sampler_run_ok [OF assms(1)] assms(2,3) by simp_all
  have since: "sampler_since (sampler_run ts s) c m = (cs, rs)" if "sampler_len s = (c, m)" for c m
    by (rule samples.since_mark [OF run that])
  have "cs = [] \<longleftrightarrow> xs = []" using assms(2) by (cases xs) auto
  then show ?thesis
    using assms(4,5) by (auto simp: stats_since_def mark_def remote_stats_def Let_def since split: prod.split)
qed

theorem mark_isolates_witness:
  "fst (stats_since (\<lambda>_. Inr ([10, 20], [1, 2]))
      (LocalSource (sampler_run [\<lparr>tn_check = secs 2, tn_stop = False, tn_now = secs 2, tn_reading = Inr (secs 2, 8192)\<rparr>] busy_sampler) None)
      (mark (\<lambda>_. Inr ([10], [1])) (LocalSource busy_sampler None))) = stats [percent (secs 1) (secs 1)] [8192] \<and>
   fst (stats_since (\<lambda>_. Inr ([10, 20], [1, 2])) (RemoteSource ''[::1]:3351'')
      (mark (\<lambda>_. Inr ([10], [1])) (RemoteSource ''[::1]:3351''))) = stats [20] [2]"
proof -
  have "sampled busy_sampler [\<lparr>tn_check = secs 2, tn_stop = False, tn_now = secs 2, tn_reading = Inr (secs 2, 8192)\<rparr>] =
      map (\<lambda>(t, cr). (t, Inr cr)) [(secs 2, secs 2, 8192)]" by (simp add: busy_sampler_def)
  from mark_isolates [OF this refl refl, where before = "\<lambda>_. Inr ([10], [1])" and after = "\<lambda>_. Inr ([10, 20], [1, 2])"
      and cpu = "[10]" and rss = "[1]" and cs' = "[20]" and rs' = "[2]"]
  show ?thesis by (simp add: busy_sampler_def)
qed

text \<open>
  C34. The fallback does not. When the local sampler added nothing since the mark and there
  is a fallback, the statistics are over all samples the server ever took of itself, the
  ones before the mark included. The same holds, for a server that samples itself, when
  asking it for its samples failed at the mark.
\<close>

theorem fallback_reads_all:
  assumes "sm_cpu later = sm_cpu s" and "sm_rss later = sm_rss s" and "after addr = Inr (cpu, rss)"
  shows "fst (stats_since after (LocalSource later (Some addr)) (mark before (LocalSource s (Some addr)))) = stats cpu rss \<and>
    (before addr = Inl e \<longrightarrow>
     fst (stats_since after (RemoteSource addr) (mark before (RemoteSource addr))) = stats cpu rss)"
  using assms
  by (auto simp: stats_since_def mark_def mark_default_def sampler_len_def sampler_since_def remote_stats_def Let_def)

theorem fallback_reads_all_witness:
  "fst (stats_since (\<lambda>_. Inr ([500, 10], [9, 1])) (LocalSource busy_sampler (Some ''[::1]:3351''))
      (mark (\<lambda>_. Inr ([500, 10], [9, 1])) (LocalSource busy_sampler (Some ''[::1]:3351'')))) = stats [500, 10] [9, 1]"
  using fallback_reads_all [of busy_sampler busy_sampler "\<lambda>_. Inr ([500, 10], [9, 1])" "''[::1]:3351''" "[500, 10]" "[9, 1]"
      "\<lambda>_. Inr ([500, 10], [9, 1])"] by simp

text \<open>A server that answers the second attempt.\<close>

definition second_time :: "nat \<Rightarrow> exchange" where
  "second_time k req =
     (if k = 1 then Inl ''timed out'' else Inr (''HTTP/1.1 200 OK'' @ crlf2 @ ''42''))"

theorem control_request_attempts_witness:
  "\<exists>r waits. control_request second_time ''[::1]:3351'' ''GET'' ''/ps'' [] = (r, waits) \<and> r = Inr ''42'' \<and> sum_list waits \<le> secs 12"
proof -
  have split: "find_split (''HTTP/1.1 200 OK'' @ crlf2 @ ''42'') = Some 15"
    and words: "split_whitespace ''HTTP/1.1 200 OK'' = [''HTTP/1.1'', ''200'', ''OK'']" by code_simp+
  have "from_utf8_lossy ''HTTP/1.1 200 OK'' = ''HTTP/1.1 200 OK''" by (rule lossy_ascii) (simp add: ascii_def)
  moreover have "parse_u16 ''200'' = Some 200"
    by (simp add: parse_u16_def parse_unsigned_def parse_digits_def is_ascii_digit_def digit_val_def)
  ultimately have two: "control_once (second_time (1 + 1)) ''[::1]:3351'' ''GET'' ''/ps'' [] = Inr (200, ''42'')"
    using split words by (simp add: control_once_def second_time_def)
  have one: "control_once (second_time 1) ''[::1]:3351'' ''GET'' ''/ps'' [] = Inl ''timed out''"
    by (simp add: control_once_def second_time_def)
  have n: "ATTEMPTS = Suc (Suc 2)" by (simp add: ATTEMPTS_def)
  have r: "control_request second_time ''[::1]:3351'' ''GET'' ''/ps'' [] = (Inr ''42'', [secs 2])"
    by (simp only: control_request_def n control_try.simps one two Let_def sum.case prod.case) simp
  from control_request_attempts [OF r] r show ?thesis by blast
qed

end
