(* ===== verification/Control_Ps.thy ===== *)
theory Control_Ps
  imports Control Ps
begin

text \<open>
  The client's control requests against the control server of the quiche server: what
  \<^verbatim>\<open>control_once\<close> writes is what \<^verbatim>\<open>serve\<close> reads, and what \<^verbatim>\<open>serve\<close> writes is what \<^verbatim>\<open>control_once\<close>
  reads, so that \<^verbatim>\<open>/init\<close> gives the client the server's pid and \<^verbatim>\<open>/ps\<close> its samples.
\<close>

subsection \<open>Lines\<close>

lemma read_line_ascii:
  assumes "list_all ascii l" and "nl \<notin> set l"
  shows "read_line (l @ nl # s, e) = Inr (l @ [nl], s, e)"
proof -
  have "takeWhile (\<lambda>c. c \<noteq> nl) (l @ nl # s) = l" using assms(2) by (rule takeWhile_neq_append)
  moreover have "utf8_valid (l @ [nl])" using assms(1) by (intro utf8_valid_ascii) (simp add: ascii_def)
  ultimately show ?thesis by (simp add: read_line_def)
qed

lemma plain_not_special: "list_all plain w \<Longrightarrow> nl \<notin> set w \<and> CHR 0x0D \<notin> set w \<and> CHR '' '' \<notin> set w"
  by (auto simp: list_all_iff plain_def)

lemma ws_end: "trim_end [CHR 0x0D, nl] = []"
  by (simp add: trim_end.simps)

lemma trim_end_line: "list_all plain w \<Longrightarrow> trim_end (w @ [CHR 0x0D, nl]) = w"
proof (induction w)
  case Nil
  then show ?case by (simp add: ws_end)
next
  case (Cons c w)
  then show ?case by (subst trim_end.simps) simp
qed

lemma trim_value:
  assumes "list_all plain w" and "w \<noteq> []"
  shows "trim ('' '' @ w @ [CHR 0x0D, nl]) = w"
proof -
  have "trim_start ('' '' @ w @ [CHR 0x0D, nl]) = w @ [CHR 0x0D, nl]"
    using trim_start_plain [OF assms] by (subst trim_start.simps) simp
  then show ?thesis by (simp add: trim_def trim_end_line [OF assms(1)])
qed

subsection \<open>The request\<close>

lemma request_words:
  assumes "list_all plain meth" and "meth \<noteq> []" and "list_all plain path" and "path \<noteq> []"
  shows "split_whitespace (meth @ '' '' @ path @ '' HTTP/1.0'' @ [CHR 0x0D, nl]) = [meth, path, ''HTTP/1.0'']"
proof -
  have ws: "split_whitespace (CHR '' '' # s) = split_whitespace s" for s
    using split_whitespace_ws [of "CHR '' '' # s"] by simp
  have p: "list_all plain ''HTTP/1.0''" by (simp add: plain_def)
  have "split_whitespace [CHR 0x0D, nl] = []"
    using split_whitespace_ws [of "[CHR 0x0D, nl]"] split_whitespace_ws [of "[nl]"] by simp
  then have "split_whitespace (''HTTP/1.0'' @ [CHR 0x0D, nl]) = [''HTTP/1.0'']"
    using split_whitespace_word [OF p, of "[CHR 0x0D, nl]"] by simp
  then have "split_whitespace (path @ '' HTTP/1.0'' @ [CHR 0x0D, nl]) = [path, ''HTTP/1.0'']"
    using split_whitespace_word [OF assms(3,4), of "'' HTTP/1.0'' @ [CHR 0x0D, nl]"] ws by simp
  then show ?thesis
    using split_whitespace_word [OF assms(1,2), of "'' '' @ path @ '' HTTP/1.0'' @ [CHR 0x0D, nl]"] ws by simp
qed

lemma read_headers_end: "read_headers ([CHR 0x0D, nl] @ body, e) len = Inr (len, body, e)"
  using read_line_ascii [of "[CHR 0x0D]" body e] by (subst read_headers.simps) (simp add: ascii_def)

lemma header_step:
  assumes "list_all ascii h" and "nl \<notin> set h" and "CHR 0x0D \<notin> set h" and "h \<noteq> []"
  shows "read_headers (h @ [CHR 0x0D, nl] @ s, e) len = read_headers (s, e) (header_length (h @ [CHR 0x0D, nl]) len)"
proof -
  have "read_line (h @ [CHR 0x0D, nl] @ s, e) = Inr (h @ [CHR 0x0D, nl], s, e)"
    using read_line_ascii [of "h @ [CHR 0x0D]" s e] assms by (simp add: ascii_def)
  moreover have "h @ [CHR 0x0D, nl] \<noteq> crlf" "h @ [CHR 0x0D, nl] \<noteq> [nl]" using assms(4) by auto
  ultimately show ?thesis by (subst read_headers.simps) simp
qed

lemma read_headers_request:
  assumes "list_all plain addr" and "length body < 2 ^ 64"
  shows "read_headers (''Host: '' @ addr @ [CHR 0x0D, nl] @
      (if post then ''Content-Length: '' @ show_nat (length body) @ [CHR 0x0D, nl] else []) @ [CHR 0x0D, nl] @ body, e) 0 =
    Inr (if post then length body else 0, body, e)"
proof -
  let ?n = "show_nat (length body)"
  have a: "list_all ascii (''Host: '' @ addr)" "nl \<notin> set (''Host: '' @ addr)" "CHR 0x0D \<notin> set (''Host: '' @ addr)"
    using plain_ascii [OF assms(1)] plain_not_special [OF assms(1)] by (simp_all add: ascii_def)
  have host: "header_length (''Host: '' @ t) 0 = 0" for t
    using split_once_append [of "CHR '':''" "''Host''"] by (simp add: header_length_def eq_ignore_ascii_case_def)
  have n: "list_all ascii (''Content-Length: '' @ ?n)" "nl \<notin> set (''Content-Length: '' @ ?n)"
      "CHR 0x0D \<notin> set (''Content-Length: '' @ ?n)"
    using plain_ascii [OF plain_digits] plain_not_special [OF plain_digits [of "length body"]] by (simp_all add: ascii_def)
  have "split_once (CHR '':'') (''Content-Length: '' @ ?n @ [CHR 0x0D, nl]) = Some (''Content-Length'', '' '' @ ?n @ [CHR 0x0D, nl])"
    using split_once_append [of "CHR '':''" "''Content-Length''" "'' '' @ ?n @ [CHR 0x0D, nl]"] by simp
  moreover have "eq_ignore_ascii_case ''Content-Length'' ''content-length''" by code_simp
  moreover have "parse_u64 (trim ('' '' @ ?n @ [CHR 0x0D, nl])) = Some (length body)"
    unfolding trim_value [OF plain_digits show_nat_nonempty] using assms(2) by (simp add: parse_u64_def)
  ultimately have len: "header_length (''Content-Length: '' @ ?n @ [CHR 0x0D, nl]) 0 = length body"
    by (simp add: header_length_def)
  show ?thesis
  proof (cases post)
    case True
    then show ?thesis
      using header_step [OF a, of "(''Content-Length: '' @ ?n) @ [CHR 0x0D, nl] @ [CHR 0x0D, nl] @ body" e 0]
        header_step [OF n, of "[CHR 0x0D, nl] @ body" e 0] host [of "addr @ [CHR 0x0D, nl]"] len read_headers_end [of body e]
      by simp
  next
    case False
    then show ?thesis
      using header_step [OF a, of "[CHR 0x0D, nl] @ body" e 0] host [of "addr @ [CHR 0x0D, nl]"] read_headers_end [of body e]
      by simp
  qed
qed

text \<open>Reading back what the client writes.\<close>

lemma read_request_text:
  assumes "list_all plain addr" and "list_all plain path" and "path \<noteq> []" and "CHR ''?'' \<notin> set path"
    and "meth = ''POST'' \<or> meth = ''GET'' \<and> body = []" and "length body \<le> 2 ^ 20"
  shows "read_request (request_text addr meth path body, e) = Inr (meth, path, body)"
proof -
  have meth: "list_all plain meth" "meth \<noteq> []" using assms(5) by (auto simp: plain_def)
  let ?line = "meth @ '' '' @ path @ '' HTTP/1.0'' @ [CHR 0x0D]"
  have "list_all ascii ?line" "nl \<notin> set ?line"
    using plain_ascii [OF meth(1)] plain_ascii [OF assms(2)] plain_not_special [OF meth(1)] plain_not_special [OF assms(2)]
    by (simp_all add: ascii_def)
  from read_line_ascii [OF this]
  have l: "read_line (request_text addr meth path body, e) =
      Inr (?line @ [nl], ''Host: '' @ addr @ [CHR 0x0D, nl] @
        (if meth = ''POST'' then ''Content-Length: '' @ show_nat (length body) @ [CHR 0x0D, nl] else []) @ [CHR 0x0D, nl] @ body, e)"
    by (simp add: request_text_def)
  have path: "takeWhile (\<lambda>c. c \<noteq> CHR ''?'') path = path" using assms(4) by (auto intro: takeWhile_eq_all_conv [THEN iffD2])
  have b: "length body < 2 ^ 64" using assms(6) by simp
  have w: "split_whitespace (?line @ [nl]) = [meth, path, ''HTTP/1.0'']"
    using request_words [OF meth assms(2,3)] by simp
  have body: "read_exact (min (if meth = ''POST'' then length body else 0) (2 ^ 20)) (body, e) = Inr body"
    using assms(5,6) by (auto simp: read_exact_def min_def)
  show ?thesis
    unfolding read_request_def l sum.case prod.case w read_headers_request [OF assms(1) b, of "meth = ''POST''" e] Let_def
    by (simp only: body sum.case) (simp add: path)
qed

subsection \<open>The reply\<close>

lemma find_split_line: "CHR 0x0D \<notin> set l \<Longrightarrow> find_split (l @ s) = map_option (\<lambda>n. length l + n) (find_split s)"
  by (cases "find_split s"; induction l) auto

lemma find_split_crlf: "find_split ([CHR 0x0D, nl] @ c # s) = (if c = CHR 0x0D \<and> prefix [nl] s then Some 0
    else map_option (\<lambda>n. 2 + n) (find_split (c # s)))"
  by (auto simp: option.map_comp comp_def numeral_2_eq_2)

text \<open>Header lines, none of them empty, then the blank line.\<close>

definition head_lines :: "string list \<Rightarrow> bool" where
  "head_lines ls \<longleftrightarrow> list_all (\<lambda>l. l \<noteq> [] \<and> CHR 0x0D \<notin> set l) ls"

lemma find_split_head:
  assumes "head_lines (l # ls)"
  shows "find_split (l @ concat (map (\<lambda>h. [CHR 0x0D, nl] @ h) ls) @ crlf2 @ s) =
    Some (length (l @ concat (map (\<lambda>h. [CHR 0x0D, nl] @ h) ls)))"
  using assms
proof (induction ls arbitrary: l)
  case Nil
  then show ?case by (simp add: find_split_line head_lines_def)
next
  case (Cons h ls)
  obtain c t where h: "h = c # t" "c \<noteq> CHR 0x0D" using Cons.prems by (cases h) (auto simp: head_lines_def)
  have "find_split (h @ concat (map (\<lambda>h. [CHR 0x0D, nl] @ h) ls) @ crlf2 @ s) =
      Some (length (h @ concat (map (\<lambda>h. [CHR 0x0D, nl] @ h) ls)))"
    by (rule Cons.IH) (use Cons.prems in \<open>simp add: head_lines_def\<close>)
  then have "find_split ([CHR 0x0D, nl] @ h @ concat (map (\<lambda>h. [CHR 0x0D, nl] @ h) ls) @ crlf2 @ s) =
      Some (2 + length (h @ concat (map (\<lambda>h. [CHR 0x0D, nl] @ h) ls)))"
    using find_split_crlf [of c "t @ concat (map (\<lambda>h. [CHR 0x0D, nl] @ h) ls) @ crlf2 @ s"] h by simp
  then show ?case
    using find_split_line [of l] Cons.prems by (simp add: head_lines_def)
qed

lemma reply_read:
  assumes "X (request_text addr meth path body) = Inr (reply_text status reply)" and "status < 2 ^ 16"
  shows "control_once X addr meth path body = Inr (status, reply)"
proof -
  define line where "line = ''HTTP/1.1 '' @ show_nat status @ '' '' @ (if status = 200 then ''OK'' else ''Not Found'')"
  define hs where "hs = [''Content-Type: text/plain; charset=utf-8'', ''Content-Length: '' @ show_nat (length reply),
    ''Connection: close'']"
  define head where "head = line @ concat (map (\<lambda>h. [CHR 0x0D, nl] @ h) hs)"
  have t: "reply_text status reply = head @ crlf2 @ reply"
    by (simp add: reply_text_def head_def line_def hs_def)
  have digits: "list_all ascii (show_nat n)" "CHR 0x0D \<notin> set (show_nat n)" for n
    using plain_ascii [OF plain_digits] plain_not_special [OF plain_digits [of n]] by auto
  have "head_lines (line # hs)" using digits by (simp add: head_lines_def line_def hs_def)
  from find_split_head [OF this] have split: "find_split (reply_text status reply) = Some (length head)"
    by (simp add: t head_def)
  have "list_all ascii head" using digits by (simp add: head_def line_def hs_def ascii_def)
  then have lossy: "from_utf8_lossy (take (length head) (reply_text status reply)) = head"
    by (simp add: t lossy_ascii)
  have sp: "split_whitespace (CHR '' '' # s) = split_whitespace s" for s
    using split_whitespace_ws [of "CHR '' '' # s"] by simp
  have "list_all plain ''HTTP/1.1''" by (simp add: plain_def)
  from split_whitespace_word [OF this] split_whitespace_word [OF plain_digits [of status] show_nat_nonempty] sp
  obtain ws where ws: "split_whitespace head = ''HTTP/1.1'' # show_nat status # ws"
    by (simp add: head_def line_def)
  show ?thesis
    using assms split lossy ws by (simp add: control_once_def parse_u16_def) (simp add: t)
qed

subsection \<open>Client and server\<close>

text \<open>
  An exchange with the control server in the state \<open>smp\<close>: the client keeps its side of the
  connection open, and a server that fails closes it without a reply.
\<close>

definition connect :: "ctl_env \<Rightarrow> sampler option \<Rightarrow> exchange" where
  "connect E smp req =
     Inr (case fst (serve E (req, Some ''timed out'') smp) of Inl _ \<Rightarrow> [] | Inr text \<Rightarrow> text)"

lemma connect_route:
  assumes "list_all plain addr" and "list_all plain path" and "path \<noteq> []" and "CHR ''?'' \<notin> set path"
    and "meth = ''POST'' \<or> meth = ''GET'' \<and> body = []" and "length body \<le> 2 ^ 20"
    and "ce_stream_error E = None" and "ce_write_error E = None"
    and "route E path body smp = ((status, reply), smp')" and "status < 2 ^ 16"
  shows "control_once (connect E smp) addr meth path body = Inr (status, reply) \<and>
    snd (serve E (request_text addr meth path body, Some ''timed out'') smp) = smp'"
proof -
  have "serve E (request_text addr meth path body, Some ''timed out'') smp = (Inr (reply_text status reply), smp')"
    unfolding serve_def using read_request_text [OF assms(1-6)] assms(7-9) by simp
  then show ?thesis using reply_read [OF _ assms(10)] by (simp add: connect_def)
qed

lemma init_body_length:
  assumes "interval < 2 ^ 64"
  shows "length (init_body interval) \<le> 2 ^ 20"
proof -
  have "length (show_nat n) \<le> Suc k" if "n < 10 ^ Suc k" for n k
    using that
  proof (induction k arbitrary: n)
    case 0
    then show ?case by (subst show_nat.simps) simp
  next
    case (Suc k)
    have "n div 10 < 10 ^ Suc k" using Suc.prems by (simp add: div_less_iff_less_mult)
    from Suc.IH [OF this] show ?case by (subst show_nat.simps) simp
  qed
  from this [of interval 19] assms show ?thesis by (simp add: init_body_def)
qed

text \<open>The connections to the control server work, and its pid is one of the system's.\<close>

definition ctl_works :: "ctl_env \<Rightarrow> string \<Rightarrow> bool" where
  "ctl_works E addr \<longleftrightarrow> list_all plain addr \<and> ce_stream_error E = None \<and> ce_write_error E = None \<and>
     - (2 ^ 31) \<le> ce_pid E \<and> ce_pid E < 2 ^ 31"

lemma connect_get:
  assumes "ctl_works E addr" and "list_all plain path" and "path \<noteq> []" and "CHR ''?'' \<notin> set path"
    and "route E path [] smp = ((status, reply), smp')" and "status < 2 ^ 16"
  shows "control_once (connect E smp) addr ''GET'' path [] = Inr (status, reply)"
  using connect_route [of addr path "''GET''" "[]" E smp status reply smp'] assms by (simp add: ctl_works_def)

lemma connect_init:
  assumes "ctl_works E addr" and "interval < 2 ^ 64"
  shows "control_once (connect E smp) addr ''POST'' ''/init'' (init_body interval) = Inr (200, show_int (ce_pid E)) \<and>
    snd (serve E (request_text addr ''POST'' ''/init'' (init_body interval), Some ''timed out'') smp) =
      snd (init E (init_body interval) smp)"
proof -
  have "route E ''/init'' (init_body interval) smp = ((200, show_int (ce_pid E)), snd (init E (init_body interval) smp))"
    by (simp add: route_def init_def)
  then show ?thesis
    using connect_route [of addr "''/init''" "''POST''" "init_body interval" E smp] init_body_length [OF assms(2)] assms(1)
    by (simp add: ctl_works_def plain_def)
qed

interpretation quiche_control: control_server ctl_works connect ce_pid ps
proof unfold_locales
  fix E addr interval smp path assume ok: "ctl_works E addr"
  then show "- (2 ^ 31) \<le> ce_pid E \<and> ce_pid E < 2 ^ 31" by (simp add: ctl_works_def)
  show "control_once (connect E smp) addr ''GET'' ''/ps'' [] = Inr (200, ps E smp)"
    by (rule connect_get [OF ok]) (simp_all add: route_def plain_def)
  show "control_once (connect E smp) addr ''POST'' ''/init'' (init_body interval) = Inr (200, show_int (ce_pid E))"
    if "interval < 2 ^ 64" using connect_init [OF ok that] by blast
  show "control_once (connect E smp) addr ''GET'' path [] = Inr (404, ''404 page not found'' @ [CHR 0x0A])"
    if "list_all plain path" "path \<noteq> []" "CHR ''?'' \<notin> set path" "path \<noteq> ''/init''" "path \<noteq> ''/ps''"
    by (rule connect_get [OF ok that(1-3)]) (use that in \<open>simp_all add: route_def\<close>)
qed

text \<open>
  C35. Client and control server understand each other. Against a control server whose
  connections work: \<^verbatim>\<open>Remote::init\<close> returns the pid of the server at the first attempt
  and leaves a sampler with the interval the client asked for, or the one that was
  running; \<^verbatim>\<open>Remote::samples\<close> returns the samples of the sampler as serde reads back what
  it printed; a request for any path of printable characters that is no route, without a
  query, is answered with status 404, which is the client's error; and with \<^verbatim>\<open>-ps=remote\<close> the client sets the source of its samples up
  without an error.
\<close>

theorem control_roundtrip:
  assumes "list_all plain addr" and "ce_stream_error E = None" and "ce_write_error E = None"
    and "- (2 ^ 31) \<le> ce_pid E" and "ce_pid E < 2 ^ 31" and "interval < 2 ^ 64"
    and "ce_init_args E (init_body interval) = interval"
    and "B (ce_ps_json E (sm_cpu s) (sm_rss s)) = Inr (Some cpu, Some rss)"
  shows "remote_init (\<lambda>_. connect E smp) addr interval = Inr (ce_pid E) \<and>
    snd (serve E (request_text addr ''POST'' ''/init'' (init_body interval), Some ''timed out'') smp) =
      (case smp of Some s' \<Rightarrow> Some s'
       | None \<Rightarrow> (case sampler_start (ce_os E) (ce_spawn_error E) (ce_pid E) interval (ce_now E) of Inr s' \<Rightarrow> Some s' | Inl _ \<Rightarrow> None)) \<and>
    remote_samples B (\<lambda>_. connect E (Some s)) addr = Inr (cpu, rss) \<and>
    (list_all plain path \<and> path \<noteq> [] \<and> CHR ''?'' \<notin> set path \<and> path \<noteq> ''/init'' \<and> path \<noteq> ''/ps'' \<longrightarrow>
       fst (control_request (\<lambda>_. connect E smp) addr ''GET'' path []) =
         Inl (''http://'' @ addr @ path @ '': status 404: 404 page not found'')) \<and>
    (su_control Z = Inr addr \<and> su_exchange Z = (\<lambda>_. connect E smp) \<longrightarrow>
       ps_setup Z framework MODE_REMOTE interval = (RemoteSource addr, None))"
proof -
  have ok: "ctl_works E addr" using assms by (simp add: ctl_works_def)
  have "B (ps E (Some s)) = Inr (Some cpu, Some rss)" using assms(8) by (simp add: ps_def sampler_since_def)
  from quiche_control.samples_read [OF ok, of B, OF this]
  have "remote_samples B (\<lambda>_. connect E (Some s)) addr = Inr (cpu, rss)" by simp
  moreover have "list_all plain path \<and> path \<noteq> [] \<and> CHR ''?'' \<notin> set path \<and> path \<noteq> ''/init'' \<and> path \<noteq> ''/ps'' \<longrightarrow>
      fst (control_request (\<lambda>_. connect E smp) addr ''GET'' path []) =
        Inl (''http://'' @ addr @ path @ '': status 404: 404 page not found'')"
    using quiche_control.not_found [OF ok] by blast
  moreover have "su_control Z = Inr addr \<and> su_exchange Z = (\<lambda>_. connect E smp) \<longrightarrow>
      ps_setup Z framework MODE_REMOTE interval = (RemoteSource addr, None)"
    by (intro impI quiche_control.setup_remote [OF ok assms(6)]) simp_all
  ultimately show ?thesis
    using quiche_control.init_pid [OF ok assms(6)] connect_init [OF ok assms(6)] assms(7)
    by (auto simp: init_def split: option.split sum.split)
qed

text \<open>A server with one sample of each kind; its numbers are read from the digits of a body.\<close>

definition digits_arg :: "string \<Rightarrow> nat" where
  "digits_arg b = (case parse_digits (filter is_ascii_digit b) of Some n \<Rightarrow> n | None \<Rightarrow> 0)"

definition test_ctl :: ctl_env where
  "test_ctl = \<lparr>ce_os = test_os, ce_pid = 7, ce_spawn_error = None, ce_now = 0, ce_init_args = digits_arg,
     ce_ps_json = \<lambda>cpu rss. concat (map show_nat rss), ce_stream_error = None, ce_write_error = None\<rparr>"

lemma digits_arg_body: "digits_arg (init_body n) = n"
proof -
  have "filter is_ascii_digit (show_nat n) = show_nat n" using show_nat_digits [of n] by (simp add: filter_id_conv)
  moreover have "filter is_ascii_digit ([CHR 0x7B, CHR 0x22] @ ''PsInterval'' @ [CHR 0x22] @ '':'') = []" by code_simp
  ultimately have "filter is_ascii_digit (init_body n) = show_nat n"
    by (simp add: init_body_def is_ascii_digit_def)
  then show ?thesis by (simp add: digits_arg_def)
qed

theorem control_roundtrip_witness:
  "remote_init (\<lambda>_. connect test_ctl None) ''[::1]:3351'' (secs 1) = Inr 7 \<and>
   remote_samples (\<lambda>text. Inr (Some [100], Some [digits_arg text])) (\<lambda>_. connect test_ctl (Some busy_sampler)) ''[::1]:3351'' =
     Inr ([100], [4096]) \<and>
   fst (control_request (\<lambda>_. connect test_ctl None) ''[::1]:3351'' ''GET'' ''/debug'' []) =
     Inl (''http://[::1]:3351/debug: status 404: 404 page not found'')"
proof -
  have "list_all plain ''[::1]:3351''" by (simp add: plain_def)
  moreover have "digits_arg (show_nat 4096) = 4096"
    using show_nat_digits [of 4096] by (simp add: digits_arg_def filter_id_conv [THEN iffD2])
  ultimately show ?thesis
    using control_roundtrip [of "''[::1]:3351''" test_ctl "secs 1" "\<lambda>text. Inr (Some [100], Some [digits_arg text])" busy_sampler
        "[100]" "[4096]" None "''/debug''"] digits_arg_body [of "secs 1"]
    by (simp add: test_ctl_def busy_sampler_def plain_def)
qed

end
