(* ===== verification/Engine_Ticks.thy ===== *)
theory Engine_Ticks
  imports Engine_Worker
begin

text \<open>
  The ticks of \<^verbatim>\<open>BenchMultiplex\<close>: the loop of \<^verbatim>\<open>drive_rate\<close> that skips the ticks the worker
  was too busy for, \<open>catch_up\<close> here. It ends exactly when the tick is not zero or nothing
  is to be skipped.
\<close>

lemma catch_up_ends:
  assumes "0 < tick"
  shows "\<exists>t. catch_up tick now next_tick = Some t \<and> now < t \<and> next_tick \<le> t \<and> (next_tick \<le> now \<longrightarrow> t \<le> now + tick) \<and>
    tick dvd t - next_tick"
proof (induction "now + 1 - next_tick" arbitrary: next_tick rule: less_induct)
  case less
  show ?case
  proof (cases "next_tick \<le> now")
    case False
    then show ?thesis by (subst catch_up.simps) auto
  next
    case True
    then have "now + 1 - (next_tick + tick) < now + 1 - next_tick" using assms by simp
    from less [OF this] obtain t where t: "catch_up tick now (next_tick + tick) = Some t" "now < t"
      "next_tick + tick \<le> t" "next_tick + tick \<le> now \<longrightarrow> t \<le> now + tick" "tick dvd t - (next_tick + tick)" by blast
    have "t \<le> now + tick"
    proof (cases "next_tick + tick \<le> now")
      case True
      then show ?thesis using t(4) by simp
    next
      case False
      then have "catch_up tick now (next_tick + tick) = Some (next_tick + tick)" by (subst catch_up.simps) simp
      then show ?thesis using t(1) True by simp
    qed
    moreover have "tick dvd t - next_tick"
      using t(3,5) dvd_add [OF t(5), of tick] by simp
    ultimately show ?thesis using t True by (subst catch_up.simps) auto
  qed
qed

lemma catch_up_stuck:
  assumes "next_tick \<le> now"
  shows "catch_up 0 now next_tick = None"
proof (rule ccontr)
  assume "catch_up 0 now next_tick \<noteq> None"
  then obtain t where t: "catch_up 0 now next_tick = Some t" by blast
  have "0 = (0 :: nat) \<longrightarrow> now < next_tick"
    by (rule catch_up.raw_induct [where P = "\<lambda>tick now next_tick t. tick = 0 \<longrightarrow> now < next_tick", OF _ t])
      (fastforce split: if_splits)
  then show False using assms by simp
qed

text \<open>
  C26. Skipping ticks ends. With a positive tick the loop returns the first time after now
  that is a whole number of ticks after the tick that was due, at most one tick from now
  when a tick was due. With a tick of zero, which more than a thousand million bursts a
  second give, the loop never returns once a tick is due, and the worker is stuck in it.
\<close>

theorem ticks_catch_up:
  "(if 0 < tick
    then \<exists>t. catch_up tick now next_tick = Some t \<and> now < t \<and> next_tick \<le> t \<and> (next_tick \<le> now \<longrightarrow> t \<le> now + tick) \<and>
           tick dvd t - next_tick
    else catch_up tick now next_tick = (if next_tick \<le> now then None else Some next_tick)) \<and>
   (w_phase w = PRate p \<and> rp_grace_until p = None \<and> now < rp_deadline p \<and> rp_next_tick p \<le> now \<and> rj_tick (rp_job p) = 0 \<longrightarrow>
    drive_rate D now w = raise_fault Diverge w)"
proof -
  have "catch_up 0 now next_tick = Some next_tick" if "now < next_tick" using that by (subst catch_up.simps) simp
  then show ?thesis using catch_up_ends catch_up_stuck by (auto simp: drive_rate_def)
qed

theorem ticks_catch_up_witness:
  "(\<exists>t. catch_up 10 35 20 = Some t \<and> 35 < t \<and> t \<le> 45 \<and> 10 dvd t - 20) \<and> catch_up 0 35 20 = None"
proof
  show "\<exists>t. catch_up 10 35 20 = Some t \<and> 35 < t \<and> t \<le> 45 \<and> 10 dvd t - 20"
    using ticks_catch_up [of 10 35 20 undefined undefined undefined] by auto
  show "catch_up 0 35 20 = None"
    using ticks_catch_up [of 0 35 20 undefined undefined undefined] by auto
qed

end
