(* ===== verification/Loops.thy ===== *)
theory Loops
  imports Engine_Worker Server
begin

text \<open>
  The loops of the event loops and the fuel the model gives them. The loops whose end the
  program decides, the rounds of \<^verbatim>\<open>drive_echo\<close> and the queue of a connection, always end
  and their fuel is enough. When the loops over quiche and the sockets end is up to these; the
  model cuts such a loop off after \<open>fuel\<close> rounds and says so. Here: the fuel does not show
  in what a loop that was not cut off returns, for any quiche and any socket.
\<close>

subsection \<open>More fuel changes nothing\<close>

lemma recv_loop_more:
  "recv_loop D check n sid h c = (h', c', True) \<Longrightarrow> n \<le> m \<Longrightarrow>
     recv_loop (D\<lparr>fuel := k\<rparr>) check m sid h c = (h', c', True)"
proof (induction n arbitrary: m h c)
  case (Suc n)
  then obtain m' where m: "m = Suc m'" "n \<le> m'" by (cases m) auto
  obtain r h1 q1 where r: "h3_recv_body (h3api D) h (c_q c) sid = (r, h1, q1)" by (metis prod_cases3)
  show ?case using Suc.prems(1) Suc.IH m r by (cases r) auto
qed simp

lemma poll_event_more:
  assumes "poll_event D check sid ev h c evs = (h', c', evs', True)" and "fuel D \<le> k"
  shows "poll_event (D\<lparr>fuel := k\<rparr>) check sid ev h c evs = (h', c', evs', True)"
proof (cases ev)
  case EvData
  then have "recv_loop D check (fuel D) sid h c = (h', c', True)" "evs' = evs"
    using assms(1) by (auto split: prod.splits)
  with recv_loop_more [OF this(1) assms(2)] EvData show ?thesis by simp
qed (use assms(1) in auto)

lemma poll_loop_more:
  "poll_loop D check n h c evs = (h', c', evs', True) \<Longrightarrow> n \<le> m \<Longrightarrow> fuel D \<le> k \<Longrightarrow>
     poll_loop (D\<lparr>fuel := k\<rparr>) check m h c evs = (h', c', evs', True)"
proof (induction n arbitrary: m h c evs)
  case (Suc n)
  then obtain m' where m: "m = Suc m'" "n \<le> m'" by (cases m) auto
  obtain r h1 q1 where r: "h3_poll (h3api D) h (c_q c) = (r, h1, q1)" by (metis prod_cases3)
  show ?case
  proof (cases r)
    case (Inl e)
    then show ?thesis using Suc.prems(1) r m by auto
  next
    case (Inr x)
    obtain sid ev where x: "x = (sid, ev)" by (cases x)
    obtain h2 c2 evs2 ok where p: "poll_event D check sid ev h1 (c\<lparr>c_q := q1\<rparr>) evs = (h2, c2, evs2, ok)"
      by (metis prod_cases4)
    then have "ok" "poll_loop D check n h2 c2 evs2 = (h', c', evs', True)"
      using Suc.prems(1) r Inr x by (auto split: if_splits)
    then show ?thesis
      using Suc.IH [of h2 c2 evs2 m'] m Suc.prems(3) r Inr x p poll_event_more [of D check sid ev h1 "c\<lparr>c_q := q1\<rparr>" evs h2 c2 evs2 k]
      by simp
  qed
qed simp

lemma retain_pending_fuel [simp]: "retain_pending (D\<lparr>fuel := k\<rparr>) h q ps = retain_pending D h q ps"
  by (induction D h q ps rule: retain_pending.induct) (auto split: prod.split sum.split)

lemma close_reason_fuel [simp]: "close_reason (D\<lparr>fuel := k\<rparr>) q = close_reason D q"
  by (simp add: close_reason_def split: option.split)

lemma process_h3_more:
  assumes "snd (snd (process_h3 D check h c evs))" and "fuel D \<le> k"
  shows "process_h3 (D\<lparr>fuel := k\<rparr>) check h c evs = process_h3 D check h c evs"
proof -
  obtain h1 c1 evs1 ok where p: "poll_loop D check (fuel D) h c evs = (h1, c1, evs1, ok)" by (metis prod_cases4)
  then have ok using assms(1) by (auto simp: process_h3_def Let_def split: prod.splits if_splits)
  with p poll_loop_more [of D check "fuel D" h c evs h1 c1 evs1 k k] assms(2)
  show ?thesis by (simp add: process_h3_def Let_def split: prod.split)
qed

lemma process_conn_more:
  assumes "snd (snd (process_conn D check c))" and "fuel D \<le> k"
  shows "process_conn (D\<lparr>fuel := k\<rparr>) check c = process_conn D check c"
  using assms(1) process_h3_more [OF _ assms(2)]
  by (auto simp: process_conn_def Let_def split: option.split prod.split sum.split)

lemma send_loop_more:
  "snd (snd (snd (send_loop D n c sent))) \<Longrightarrow> n \<le> m \<Longrightarrow> send_loop (D\<lparr>fuel := k\<rparr>) m c sent = send_loop D n c sent"
proof (induction n arbitrary: m c sent)
  case (Suc n)
  then obtain m' where m: "m = Suc m'" "n \<le> m'" by (cases m) auto
  show ?case using Suc.prems(1) Suc.IH m
    by (auto simp: would_block_def split: prod.splits send_packet.splits option.splits if_splits)
qed simp

lemma recv_datagrams_more:
  "snd (snd (recv_datagrams D n c got)) \<Longrightarrow> n \<le> m \<Longrightarrow> recv_datagrams (D\<lparr>fuel := k\<rparr>) m c got = recv_datagrams D n c got"
proof (induction n arbitrary: m c got)
  case (Suc n)
  then obtain m' where m: "m = Suc m'" "n \<le> m'" by (cases m) auto
  show ?case using Suc.prems(1) Suc.IH m by (auto simp: would_block_def split: prod.splits sum.splits if_splits)
qed simp

subsection \<open>The rounds of a benchmark\<close>

text \<open>The echo job of the phase; no operation but the rounds themselves changes it.\<close>

fun job_of :: "phase \<Rightarrow> echo_job option" where
  "job_of (PEcho p) = Some (ep_job p)"
| "job_of _ = None"

lemma job_frame [simp]:
  "w_phase (raise_fault f w) = w_phase w" "w_phase (put i c w) = w_phase w" "w_phase (put_dirty i c w) = w_phase w"
  "w_phase (snd (get_now D w)) = w_phase w"
  by (simp_all add: raise_fault_def put_def put_dirty_def get_now_def split: prod.split)

lemma get_now_phase: "get_now D w = (t, w') \<Longrightarrow> w_phase w' = w_phase w"
  using job_frame(4) [of D w] by simp

lemma decr_phase: "(\<And>k. job_of (w_phase (f k)) = j) \<Longrightarrow> job_of (w_phase (decr n f)) = j"
  by (simp add: decr_def)

lemma echo_done_job [simp]: "job_of (w_phase (echo_done D i r t0 w)) = job_of (w_phase w)"
  by (auto simp: echo_done_def intro!: decr_phase dest!: get_now_phase split: prod.split phase.split)

lemma dial_failed_job_job [simp]: "job_of (w_phase (dial_failed_job D job err w)) = job_of (w_phase w)"
  by (auto simp: dial_failed_job_def Let_def intro!: decr_phase dest!: get_now_phase
      split: prod.split phase.split purpose.split option.split)

lemma dial_failed_job2 [simp]: "job_of (w_phase (dial_failed D i err w)) = job_of (w_phase w)"
  by (auto simp: dial_failed_def Let_def split: option.split prod.split)

lemma try_send_phase: "try_send D i k b w = (e, w') \<Longrightarrow> w_phase w' = w_phase w"
  by (auto simp: try_send_def Let_def split: option.splits prod.splits if_splits)

lemma send_request_phase: "send_request D i k b w = (e, w') \<Longrightarrow> w_phase w' = w_phase w"
  by (auto simp: send_request_def dest!: try_send_phase split: option.splits prod.splits if_splits send_error.splits)

lemma dial_ok_job [simp]: "job_of (w_phase (dial_ok D i w)) = job_of (w_phase w)"
  by (auto simp: dial_ok_def Let_def intro!: decr_phase dest!: get_now_phase send_request_phase
      split: option.split prod.split purpose.split phase.split list.split)

lemma response_job [simp]: "job_of (w_phase (response D i k r w)) = job_of (w_phase w)"
  by (cases k) (auto simp: Let_def split: sum.split option.split phase.split)

lemma send_queued_loop_job: "job_of (w_phase (send_queued_loop D n i w)) = job_of (w_phase w)"
  by (induction D n i w rule: send_queued_loop.induct)
    (auto dest!: try_send_phase split: option.split list.split prod.split send_error.split)

lemma send_queued_job [simp]: "job_of (w_phase (send_queued D i w)) = job_of (w_phase w)"
  by (simp only: send_queued_def send_queued_loop_job)

lemma handle_event_job [simp]: "job_of (w_phase (handle_event D i ev w)) = job_of (w_phase w)"
  by (cases ev) (auto dest!: send_request_phase split: option.split prod.split cstate.split)

lemma process_job [simp]: "job_of (w_phase (process D i w)) = job_of (w_phase w)"
proof -
  have f: "job_of (w_phase (fold (handle_event D i) evs u)) = job_of (w_phase u)" for evs u
    by (induction evs arbitrary: u) simp_all
  show ?thesis by (auto simp: process_def f Let_def split: option.split prod.split)
qed

lemma schedule_phase [simp]: "w_phase (schedule D i w) = w_phase w"
  by (auto simp: schedule_def Let_def split: option.split)

lemma flush_job [simp]: "job_of (w_phase (flush D i w)) = job_of (w_phase w)"
  by (auto simp: flush_def Let_def dest!: get_now_phase split: option.split prod.split)

lemma open_conn_phase: "open_conn D peer w = (r, w') \<Longrightarrow> w_phase w' = w_phase w"
  by (auto simp: open_conn_def Let_def split: prod.splits sum.splits option.splits)

lemma dial_slot_phase: "dial_slot D job w = (i, w') \<Longrightarrow> w_phase w' = w_phase w"
  by (auto simp: dial_slot_def alloc_slot_def Let_def split: prod.splits option.splits if_splits)

lemma try_dial_job: "try_dial D job w = (e, w') \<Longrightarrow> job_of (w_phase w') = job_of (w_phase w)"
  by (auto simp: try_dial_def Let_def dest!: open_conn_phase dial_slot_phase get_now_phase
      split: if_splits prod.splits sum.splits option.splits)

lemma dial_job_of [simp]: "job_of (w_phase (dial D job w)) = job_of (w_phase w)"
  by (auto simp: dial_def dest!: try_dial_job split: prod.split option.split)

text \<open>A round that goes on has drawn a number, and the number past the last one ends the rounds.\<close>

lemma take_echo_phase: "take_echo D n lmt w = (r, lmt', w') \<Longrightarrow> w_phase w' = w_phase w"
  by (auto simp: take_echo_def dest!: get_now_phase split: option.splits prod.splits)

lemma echo_issue_again:
  assumes "echo_issue D p w = (w', True)"
  shows "(\<exists>job. job_of (w_phase w') = Some job \<and> ej_times job = ej_times (ep_job p) \<and> ej_numbers job = ej_numbers (ep_job p) \<and>
      ej_issued job = ej_issued (ep_job p) + 1) \<and>
    (ej_times (ep_job p) \<le> ej_numbers (ep_job p) (ej_issued (ep_job p)) \<longrightarrow>
       (\<exists>p'. w_phase w' = PEcho p' \<and> ep_exhausted p'))"
  using assms
  by (auto simp: echo_issue_def Let_def dest!: get_now_phase send_request_phase
      split: list.splits if_splits option.splits prod.splits)

lemma echo_round_again:
  assumes "echo_round D now w = (w', True)"
  obtains job job' where "job_of (w_phase w) = Some job" "job_of (w_phase w') = Some job'"
    "ej_times job' = ej_times job" "ej_numbers job' = ej_numbers job" "ej_issued job' = ej_issued job + 1"
    "ej_times job \<le> ej_numbers job (ej_issued job) \<Longrightarrow> \<not> snd (echo_round D now w')"
proof -
  obtain p where p: "w_phase w = PEcho p" using assms by (auto simp: echo_round_def split: phase.splits)
  obtain lmt w1 where i: "echo_issue D (p\<lparr>ep_wait_until := None, ep_job := (ep_job p)\<lparr>ej_limiter := lmt\<rparr>\<rparr>) w1 = (w', True)"
    using assms p by (auto simp: echo_round_def Let_def split: if_splits prod.splits take_result.splits)
  have stop: "\<not> snd (echo_round D now w')" if "w_phase w' = PEcho p'" "ep_exhausted p'" for p'
    using that by (simp add: echo_round_def)
  from echo_issue_again [OF i] p stop show ?thesis by (auto intro!: that)
qed

lemma drive_echo_rounds:
  assumes "job_of (w_phase w) = Some job" and "strict_mono (ej_numbers job)" and "ej_times job - ej_issued job + 1 < n"
  shows "\<exists>k. (\<forall>j<k. snd (echo_round D now (((\<lambda>w. fst (echo_round D now w)) ^^ j) w))) \<and>
    \<not> snd (echo_round D now (((\<lambda>w. fst (echo_round D now w)) ^^ k) w)) \<and>
    drive_echo D n now w = ((\<lambda>w. fst (echo_round D now w)) ^^ Suc k) w"
  using assms
proof (induction n arbitrary: w job)
  case (Suc n)
  let ?f = "\<lambda>w. fst (echo_round D now w)"
  obtain w' again where r: "echo_round D now w = (w', again)" by fastforce
  show ?case
  proof (cases again)
    case False
    then show ?thesis using r by (intro exI [of _ 0]) simp
  next
    case True
    from r True have "echo_round D now w = (w', True)" by simp
    then obtain job' where j: "job_of (w_phase w') = Some job'" "ej_times job' = ej_times job"
      "ej_numbers job' = ej_numbers job" "ej_issued job' = ej_issued job + 1"
      "ej_times job \<le> ej_numbers job (ej_issued job) \<Longrightarrow> \<not> snd (echo_round D now w')"
      using Suc.prems(1) by (auto elim: echo_round_again)
    have "\<exists>k. (\<forall>j<k. snd (echo_round D now ((?f ^^ j) w'))) \<and> \<not> snd (echo_round D now ((?f ^^ k) w')) \<and>
        drive_echo D n now w' = (?f ^^ Suc k) w'"
    proof (cases "ej_times job \<le> ej_issued job")
      case True
      then have "\<not> snd (echo_round D now w')"
        using j(5) strict_mono_imp_increasing [OF Suc.prems(2), of "ej_issued job"] by simp
      moreover obtain m where "n = Suc m" using Suc.prems(3) by (cases n) auto
      ultimately show ?thesis by (intro exI [of _ 0]) (auto split: prod.split)
    next
      case False
      then have "ej_times job' - ej_issued job' + 1 < n" using Suc.prems(3) j(2,4) by simp
      then show ?thesis using Suc.IH [OF j(1)] j(3) Suc.prems(2) by simp
    qed
    then obtain k where k: "\<forall>j<k. snd (echo_round D now ((?f ^^ j) w'))" "\<not> snd (echo_round D now ((?f ^^ k) w'))"
      "drive_echo D n now w' = (?f ^^ Suc k) w'" by blast
    have w': "?f w = w'" using r by simp
    have it: "(?f ^^ Suc j) w = (?f ^^ j) w'" for j by (simp only: funpow_Suc_right comp_apply w')
    have "snd (echo_round D now ((?f ^^ j) w))" if "j < Suc k" for j
      using that r True k(1) it by (cases j) auto
    moreover have "drive_echo D (Suc n) now w = (?f ^^ Suc (Suc k)) w"
      unfolding it using r True k(3) by simp
    ultimately show ?thesis using k(2) it [of k] by (intro exI [of _ "Suc k"]) metis
  qed
qed simp

subsection \<open>The queue of a connection\<close>

definition queue :: "nat \<Rightarrow> ('w, 's, 'q, 'h) worker \<Rightarrow> nat" where
  "queue i w = (case slot w i of None \<Rightarrow> 0 | Some c \<Rightarrow> length (c_queued c))"

definition starved :: "('w, 's, 'q, 'h) worker \<Rightarrow> bool" where
  "starved w \<longleftrightarrow> w_fault w = Some OutOfFuel"

lemma starved_simps [simp]:
  "starved (raise_fault Panic w) = starved w" "starved (put i c w) = starved w" "starved (put_dirty i c w) = starved w"
  "starved (w\<lparr>w_phase := ph\<rparr>) = starved w" "starved (w\<lparr>w_retries := rs\<rparr>) = starved w"
  "starved (w\<lparr>w_slots := sl, w_free := fr, w_world := wd\<rparr>) = starved w"
  by (auto simp: starved_def raise_fault_def put_def put_dirty_def split: option.split prod.split)

lemma queue_simps [simp]:
  "queue i (raise_fault Panic w) = queue i w" "queue i (w\<lparr>w_phase := ph\<rparr>) = queue i w" "queue i (w\<lparr>w_retries := rs\<rparr>) = queue i w"
  by (auto simp: queue_def slot_def raise_fault_def)

lemma slot_after_put: "i < length (w_slots w) \<Longrightarrow> slot (put i c w) i = Some c" "i < length (w_slots w) \<Longrightarrow> slot (put_dirty i c w) i = Some (if c_dirty c then c else c\<lparr>c_dirty := True\<rparr>)"
  by (auto simp: slot_def put_def put_dirty_def mark_dirty_def slot_get_def)

lemma get_now_queue: "get_now D w = (t, w') \<Longrightarrow> queue i w' = queue i w \<and> starved w' = starved w"
  by (auto simp: get_now_def queue_def slot_def starved_def split: prod.splits)

lemma echo_done_queue [simp]: "queue i (echo_done D j r t0 w) = queue i w" "starved (echo_done D j r t0 w) = starved w"
  by (auto simp: echo_done_def decr_def dest!: get_now_queue split: prod.split phase.split)

lemma dial_failed_job_queue [simp]:
  "queue i (dial_failed_job D job err w) = queue i w" "starved (dial_failed_job D job err w) = starved w"
  by (auto simp: dial_failed_job_def Let_def decr_def dest!: get_now_queue split: prod.split phase.split purpose.split option.split)

lemma queue_put:
  "i < length (w_slots w) \<Longrightarrow> queue i (put i c w) = length (c_queued c)"
  "i < length (w_slots w) \<Longrightarrow> queue i (put_dirty i c w) = length (c_queued c)"
  "i < length (w_slots w) \<Longrightarrow> queue i (w\<lparr>w_slots := (w_slots w)[i := None], w_free := fr, w_world := wd\<rparr>) = 0"
  by (simp_all add: queue_def slot_after_put) (simp add: slot_def)

lemma dial_failed_queue: "queue i (dial_failed D i err w) \<le> queue i w" "starved (dial_failed D i err w) = starved w"
  by (auto simp: dial_failed_def Let_def table_release_def queue_put split: option.split prod.split)

lemma response_queue:
  "queue i (response D i k (Inl e) w) \<le> queue i w" "starved (response D i k (Inl e) w) = starved w"
proof -
  have put: "queue i (put i (c\<lparr>c_in_flight := n\<rparr>) w) = queue i w" if "slot w i = Some c" for c n
  proof -
    have "i < length (w_slots w)" using that by (auto simp: slot_def dest: slot_get_bound)
    then show ?thesis using that by (simp add: queue_put) (simp add: queue_def)
  qed
  show "queue i (response D i k (Inl e) w) \<le> queue i w" "starved (response D i k (Inl e) w) = starved w"
    by (cases k; auto simp: dial_failed_queue Let_def put split: option.split phase.split)+
qed

lemma try_send_queue:
  assumes "try_send D i k b w = (e, w')" and "slot w i = Some c"
  shows "queue i w' = queue i w \<and> starved w' = starved w \<and> (\<exists>c'. slot w' i = Some c')"
proof -
  have len: "i < length (w_slots w)" using assms(2) by (auto simp: slot_def dest: slot_get_bound)
  obtain c' d where t: "try_send_conn D (w_get_headers w) (w_post_headers w) c k b = (e, c', d)"
    "w' = (if d then put_dirty i c' w else put i c' w)"
    using assms by (auto simp: try_send_def split: prod.splits)
  have "c_queued c' = c_queued c"
    using t(1) by (auto simp: try_send_conn_def Let_def split: option.splits prod.splits sum.splits if_splits)
  then show ?thesis using assms(2) t(2) len by (auto simp: queue_put slot_after_put) (simp_all add: queue_def)
qed

lemma send_queued_loop_fed:
  "queue i w < n \<Longrightarrow> starved (send_queued_loop D n i w) = starved w"
proof (induction n arbitrary: w)
  case (Suc n)
  show ?case
  proof (cases "slot w i")
    case (Some c)
    then have len: "i < length (w_slots w)" by (auto simp: slot_def dest: slot_get_bound)
    show ?thesis
    proof (cases "q_is_closed (quic D) (c_q c) \<or> c_queued c = []")
      case True
      then show ?thesis using Some len by auto
    next
      case False
      then obtain kind body rest where q: "c_queued c = (kind, body) # rest" by (cases "c_queued c") auto
      obtain e w' where t: "try_send D i kind body (put i (c\<lparr>c_queued := rest\<rparr>) w) = (e, w')" by fastforce
      from try_send_queue [OF t] len have w': "queue i w' = length rest" "starved w' = starved w" "\<exists>c'. slot w' i = Some c'"
        by (auto simp: slot_after_put queue_put)
      have less: "queue i w' < n" using Suc.prems Some q w'(1) by (simp add: queue_def)
      then have "starved (send_queued_loop D n i w') = starved w" using Suc.IH w'(2) by simp
      moreover have "starved (send_queued_loop D n i (response D i kind (Inl err) w')) = starved w" for err
        using Suc.IH [of "response D i kind (Inl err) w'"] less w'(2) response_queue(1) [of i D kind err w'] response_queue(2) [of D i kind err w'] by simp
      ultimately show ?thesis
        using Some False q t len w'(2,3) by (auto split: option.split send_error.split)
    qed
  qed auto
qed simp

lemma send_queued_fed: "starved (send_queued D i w) = starved w"
  unfolding send_queued_def by (rule send_queued_loop_fed) (simp add: queue_def)

subsection \<open>The server\<close>

lemma srv_recv_loop_more:
  "srv_recv_loop D n sid h c = (h', c', True) \<Longrightarrow> n \<le> m \<Longrightarrow> srv_recv_loop (D\<lparr>fuel := k\<rparr>) m sid h c = (h', c', True)"
proof (induction n arbitrary: m h c)
  case (Suc n)
  then obtain m' where m: "m = Suc m'" "n \<le> m'" by (cases m) auto
  obtain r h1 q1 where r: "h3_recv_body (h3api D) h (cl_conn c) sid = (r, h1, q1)" by (metis prod_cases3)
  show ?case using Suc.prems(1) Suc.IH m r by (cases r) auto
qed simp

lemma resume_body_fuel [simp]: "resume_body (D\<lparr>fuel := k\<rparr>) h q p = resume_body D h q p"
  by (simp add: resume_body_def)

lemma resume_fuel [simp]: "resume (D\<lparr>fuel := k\<rparr>) h q p = resume D h q p"
  by (simp add: resume_def split: option.split prod.split sum.split)

lemma resume_all_fuel [simp]: "resume_all (D\<lparr>fuel := k\<rparr>) h q ps = resume_all D h q ps"
  by (induction D h q ps rule: resume_all.induct) (auto split: prod.split)

lemma srv_poll_event_more:
  assumes "srv_poll_event D payload sid ev h c = (h', c', True)" and "fuel D \<le> k"
  shows "srv_poll_event (D\<lparr>fuel := k\<rparr>) payload sid ev h c = (h', c', True)"
proof (cases ev)
  case EvData
  then show ?thesis using assms srv_recv_loop_more [of D "fuel D" sid h c h' c' k k] by simp
next
  case EvFinished
  then show ?thesis using assms(1) by (auto simp: respond_def split: option.splits prod.splits)
qed (use assms(1) in auto)

lemma srv_poll_loop_more:
  "srv_poll_loop D payload n h c = (h', c', True) \<Longrightarrow> n \<le> m \<Longrightarrow> fuel D \<le> k \<Longrightarrow>
     srv_poll_loop (D\<lparr>fuel := k\<rparr>) payload m h c = (h', c', True)"
proof (induction n arbitrary: m h c)
  case (Suc n)
  then obtain m' where m: "m = Suc m'" "n \<le> m'" by (cases m) auto
  obtain r h1 q1 where r: "h3_poll (h3api D) h (cl_conn c) = (r, h1, q1)" by (metis prod_cases3)
  show ?case
  proof (cases r)
    case (Inl e)
    then show ?thesis using Suc.prems(1) r m by auto
  next
    case (Inr x)
    obtain sid ev where x: "x = (sid, ev)" by (cases x)
    obtain h2 c2 ok where p: "srv_poll_event D payload sid ev h1 (c\<lparr>cl_conn := q1\<rparr>) = (h2, c2, ok)" by (metis prod_cases3)
    then have "ok" "srv_poll_loop D payload n h2 c2 = (h', c', True)"
      using Suc.prems(1) r Inr x by (auto split: if_splits)
    then show ?thesis
      using Suc.IH [of h2 c2 m'] m Suc.prems(3) r Inr x p srv_poll_event_more [of D payload sid ev h1 "c\<lparr>cl_conn := q1\<rparr>" h2 c2 k]
      by simp
  qed
qed simp

lemma srv_process_h3_more:
  assumes "snd (srv_process_h3 D payload h c)" and "fuel D \<le> k"
  shows "srv_process_h3 (D\<lparr>fuel := k\<rparr>) payload h c = srv_process_h3 D payload h c"
proof -
  obtain h1 c1 ok where p: "srv_poll_loop D payload (fuel D) h c = (h1, c1, ok)" by (metis prod_cases3)
  then have ok using assms(1) by (auto simp: srv_process_h3_def Let_def split: prod.splits)
  with p srv_poll_loop_more [of D payload "fuel D" h c h1 c1 k k] assms(2)
  show ?thesis by (simp add: srv_process_h3_def)
qed

lemma srv_process_more:
  assumes "snd (srv_process D payload c)" and "fuel D \<le> k"
  shows "srv_process (D\<lparr>fuel := k\<rparr>) payload c = srv_process D payload c"
  using assms(1) srv_process_h3_more [OF _ assms(2)]
  by (auto simp: srv_process_def split: option.split prod.split sum.split)

lemma srv_send_loop_more:
  "snd (snd (srv_send_loop D A n q sk)) \<Longrightarrow> n \<le> m \<Longrightarrow> srv_send_loop (D\<lparr>fuel := k\<rparr>) A m q sk = srv_send_loop D A n q sk"
proof (induction n arbitrary: m q sk)
  case (Suc n)
  then obtain m' where m: "m = Suc m'" "n \<le> m'" by (cases m) auto
  show ?case using Suc.prems(1) Suc.IH m
    by (auto split: prod.splits send_packet.splits option.splits)
qed simp

text \<open>
  C22. The loops the program bounds itself end, and the fuel of the model is not seen. For
  any quiche, any sockets and any state: \<^verbatim>\<open>send_queued\<close> never runs out of fuel. \<^verbatim>\<open>drive_echo\<close>,
  when the counter goes up with every number it hands out, is exactly its rounds up
  to the first that says stop: there is one, and the fuel \<^verbatim>\<open>drive\<close> gives reaches it. And where the
  loops of \<^verbatim>\<open>process_conn\<close>, \<^verbatim>\<open>flush\<close> and \<^verbatim>\<open>on_readable\<close>, and those of the server, come to their end
  within the fuel, they return the same with any larger fuel.
\<close>

theorem loops_end:
  "(w_fault (send_queued D i w) = Some OutOfFuel \<longleftrightarrow> w_fault w = Some OutOfFuel) \<and>
   (w_phase w = PEcho p \<and> strict_mono (ej_numbers (ep_job p)) \<longrightarrow>
      (\<exists>k. (\<forall>j<k. snd (echo_round D now (((\<lambda>w. fst (echo_round D now w)) ^^ j) w))) \<and>
           \<not> snd (echo_round D now (((\<lambda>w. fst (echo_round D now w)) ^^ k) w)) \<and>
           drive D now w = ((\<lambda>w. fst (echo_round D now w)) ^^ Suc k) w)) \<and>
   (fuel D \<le> n \<longrightarrow>
      (snd (snd (process_conn D check c)) \<longrightarrow> process_conn (D\<lparr>fuel := n\<rparr>) check c = process_conn D check c) \<and>
      (snd (snd (snd (send_loop D (fuel D) c sent))) \<longrightarrow>
         send_loop (D\<lparr>fuel := n\<rparr>) n c sent = send_loop D (fuel D) c sent) \<and>
      (snd (snd (recv_datagrams D (fuel D) c got)) \<longrightarrow>
         recv_datagrams (D\<lparr>fuel := n\<rparr>) n c got = recv_datagrams D (fuel D) c got) \<and>
      (snd (srv_process D payload cl) \<longrightarrow> srv_process (D\<lparr>fuel := n\<rparr>) payload cl = srv_process D payload cl) \<and>
      (snd (snd (srv_send_loop D A (fuel D) q sk)) \<longrightarrow>
         srv_send_loop (D\<lparr>fuel := n\<rparr>) A n q sk = srv_send_loop D A (fuel D) q sk))"
proof -
  have "\<exists>k. (\<forall>j<k. snd (echo_round D now (((\<lambda>w. fst (echo_round D now w)) ^^ j) w))) \<and>
      \<not> snd (echo_round D now (((\<lambda>w. fst (echo_round D now w)) ^^ k) w)) \<and>
      drive D now w = ((\<lambda>w. fst (echo_round D now w)) ^^ Suc k) w"
    if "w_phase w = PEcho p" "strict_mono (ej_numbers (ep_job p))"
    using drive_echo_rounds [of w "ep_job p" "ej_times (ep_job p) - ej_issued (ep_job p) + 2" D now] that
    by (simp add: drive_def)
  then show ?thesis
    using process_conn_more [of D check c n] send_loop_more [of D "fuel D" c sent n n]
      recv_datagrams_more [of D "fuel D" c got n n] srv_process_more [of D payload cl n]
      srv_send_loop_more [of D A "fuel D" q sk n n] send_queued_fed [of D i w]
    by (auto simp: starved_def)
qed

text \<open>A connection of the server with a request to read, and a worker that has no round trip to draw.\<close>

definition waiting_client :: "(bool, loop_h3) client" where
  "waiting_client = (new_client False 0 [1] [2])\<lparr>cl_h3 := Some \<lparr>lh_next = 0,
     lh_events = [(0, EvHeaders []), (0, EvData)], lh_bodies = [(0, [1, 2, 3])]\<rparr>\<rparr>"

definition idle_echo :: echo_phase where
  "idle_echo = \<lparr>ep_job = \<lparr>ej_times = 0, ej_numbers = id, ej_issued = 0, ej_payloads = [[1]], ej_measure = True, ej_limiter = None\<rparr>,
     ep_slots = 1, ep_in_flight = 0, ep_idle = [0], ep_exhausted = False, ep_wait_until = None, ep_lat = lat_default\<rparr>"

definition echo_worker :: "(nat, unit, bool, loop_h3) worker" where
  "echo_worker = (worker_new (\<lambda>_. True) 0 \<lparr>cfg_addrs = [], cfg_authority = ''h'', cfg_dial_timeout = 1, cfg_dial_retries = 1,
     cfg_dial_retry_interval = 1, cfg_idle_timeout = 1, cfg_check = True\<rparr> id 0 0)\<lparr>w_phase := PEcho idle_echo\<rparr>"

lemma loop_receives:
  "h3_poll (h3api loop_deps) h q =
     (case lh_events h of [] \<Rightarrow> (Inl H3Done, h, q) | e # es \<Rightarrow> (Inr e, h\<lparr>lh_events := es\<rparr>, q))"
  "h3_recv_body (h3api loop_deps) h q sid =
     (case map_of (lh_bodies h) sid of
        None \<Rightarrow> (Inl H3Done, h, q)
      | Some b \<Rightarrow> (Inr b, h\<lparr>lh_bodies := AList.delete sid (lh_bodies h)\<rparr>, q))"
  by (simp_all add: loop_deps_def loop_h3api_def)

theorem loops_end_witness:
  "srv_process (loop_deps\<lparr>fuel := 1000\<rparr>) 1024 waiting_client = srv_process loop_deps 1024 waiting_client \<and>
   (\<exists>k. \<not> snd (echo_round loop_deps 0 (((\<lambda>w. fst (echo_round loop_deps 0 w)) ^^ k) echo_worker)) \<and>
        drive loop_deps 0 echo_worker = ((\<lambda>w. fst (echo_round loop_deps 0 w)) ^^ Suc k) echo_worker)"
proof -
  have "fuel loop_deps \<le> 1000" by (simp add: loop_deps_def)
  moreover obtain n where f: "fuel loop_deps = Suc (Suc (Suc (Suc n)))"
    by (rule that [of 16]) (simp add: loop_deps_def)
  have "snd (srv_process loop_deps 1024 waiting_client)"
    by (simp add: srv_process_def srv_process_h3_def waiting_client_def new_client_def f loop_receives)
  moreover have "w_phase echo_worker = PEcho idle_echo" "strict_mono (ej_numbers (ep_job idle_echo))"
    by (simp_all add: echo_worker_def idle_echo_def strict_mono_def)
  ultimately show ?thesis
    using loops_end [where D = loop_deps and n = 1000 and cl = waiting_client and payload = 1024 and w = echo_worker
        and p = idle_echo and now = 0] by blast
qed

end
