(* ===== verification/Report.thy ===== *)
theory Report
  imports Ps
begin

text \<open>
  The reports of the client, \<^verbatim>\<open>benchcli-rust/src/report.rs\<close>: one record per benchmark, the
  ratios of throughput to CPU and memory in it, the files it is written to and what is printed.
  Printing a record as JSON is serde's and an argument; the file system is two arguments
  that say which calls fail.
\<close>

definition CLIENT_NAME :: string where "CLIENT_NAME = ''benchcli-rust''"
definition BENCH_MULTIPLEX :: string where "BENCH_MULTIPLEX = ''BenchMultiplex''"

subsection \<open>Records\<close>

record connections_report =
  cr_framework :: string
  cr_bench_client :: string
  cr_threads :: nat
  cr_tps :: int
  cr_min :: int
  cr_avg :: int
  cr_max :: int
  cr_tp50 :: int
  cr_tp75 :: int
  cr_tp90 :: int
  cr_tp95 :: int
  cr_tp99 :: int
  cr_used :: int
  cr_total :: nat
  cr_success :: int
  cr_failed :: int
  cr_concurrency :: nat

record bench_echo_report =
  er_framework :: string
  er_bench_client :: string
  er_threads :: nat
  er_tps :: int
  er_cpu_eer :: f64
  er_mem_eer :: f64
  er_min :: int
  er_avg :: int
  er_max :: int
  er_tp50 :: int
  er_tp75 :: int
  er_tp90 :: int
  er_tp95 :: int
  er_tp99 :: int
  er_used :: int
  er_total :: nat
  er_success :: int
  er_failed :: int
  er_connections :: nat
  er_concurrency :: nat
  er_payload :: nat
  er_ps :: ps_stats
  er_pprof_on :: bool
  er_pprof :: "(string \<times> string) option"

record bench_rate_report =
  rr_framework :: string
  rr_bench_client :: string
  rr_threads :: nat
  rr_duration :: int
  rr_tps :: int
  rr_cpu_eer :: f64
  rr_mem_eer :: f64
  rr_send_times :: nat
  rr_send_bytes :: nat
  rr_recv_times :: nat
  rr_recv_bytes :: nat
  rr_connections :: nat
  rr_send_rate :: nat
  rr_batch :: nat
  rr_payload :: nat
  rr_ps :: ps_stats
  rr_pprof_on :: bool
  rr_pprof :: "(string \<times> string) option"

subsection \<open>Ratios\<close>

text \<open>
  \<^verbatim>\<open>is_finite\<close>: a number that rounding takes beyond the largest \<^verbatim>\<open>f64\<close>, from \<open>2 ^ 1024\<close> on,
  is infinite.
\<close>

definition is_finite :: "f64 \<Rightarrow> bool" where
  "is_finite x \<longleftrightarrow> \<bar>x\<bar> < 2 ^ 1024"

definition eer :: "f64 \<Rightarrow> f64 \<Rightarrow> f64" where
  "eer throughput cost =
     (if cost \<le> 0 \<or> \<not> is_finite cost \<or> \<not> is_finite throughput then 0
      else let v = fdiv throughput cost in if is_finite v then v else 0)"

definition cpu_eer :: "f64 \<Rightarrow> f64 \<Rightarrow> f64" where
  "cpu_eer throughput cpu_avg = eer throughput cpu_avg"

definition mem_eer :: "f64 \<Rightarrow> nat \<Rightarrow> f64" where
  "mem_eer throughput mem_avg = eer throughput (fdiv (f64_of_nat mem_avg) (1024 * 1024))"

subsection \<open>Files\<close>

definition filename :: "string \<Rightarrow> string \<Rightarrow> string \<Rightarrow> string" where
  "filename base preffix sufx = ''./output/report/'' @ preffix @ base @ sufx"

text \<open>
  The files to write, in order, until a write fails: the error, if there is one, and the
  files that were written.
\<close>

fun write_all :: "(string \<Rightarrow> string option) \<Rightarrow> (string \<times> string) list \<Rightarrow> string option \<times> (string \<times> string) list" where
  "write_all write [] = (None, [])"
| "write_all write ((path, content) # rest) =
     (case write path of
        Some e \<Rightarrow> (Some e, [])
      | None \<Rightarrow> (case write_all write rest of (r, done) \<Rightarrow> (r, (path, content) # done)))"

definition pprof_files :: "string \<Rightarrow> (string \<times> string) option \<Rightarrow> string \<Rightarrow> string \<Rightarrow> (string \<times> string) list" where
  "pprof_files name pprof preffix sufx =
     (case pprof of
        None \<Rightarrow> []
      | Some (cpu, mem) \<Rightarrow>
          (if cpu \<noteq> [] then [(filename name preffix (sufx @ ''.pprof.cpu''), cpu)] else []) @
          (if mem \<noteq> [] then [(filename name preffix (sufx @ ''.pprof.mem''), mem)] else []))"

text \<open>\<open>json\<close> is the report as serde prints it, or its error.\<close>

definition to_file :: "string option \<Rightarrow> (string \<Rightarrow> string option) \<Rightarrow> string + string \<Rightarrow> string \<Rightarrow>
    (string \<times> string) option \<Rightarrow> string \<Rightarrow> string \<Rightarrow> string option \<times> (string \<times> string) list" where
  "to_file mkdir write json name pprof preffix sufx =
     (case mkdir of
        Some e \<Rightarrow> (Some e, [])
      | None \<Rightarrow>
          (case write_all write (pprof_files name pprof preffix sufx) of
             (Some e, done) \<Rightarrow> (Some e, done)
           | (None, done) \<Rightarrow>
               (case json of
                  Inl e \<Rightarrow> (Some e, done)
                | Inr text \<Rightarrow>
                    (let path = filename name preffix (sufx @ ''.json'') in
                     case write path of
                       Some e \<Rightarrow> (Some e, done)
                     | None \<Rightarrow> (None, done @ [(path, text)])))))"

subsection \<open>The console\<close>

text \<open>\<^verbatim>\<open>trim_start_matches\<close> of a string.\<close>

function trim_start_str :: "string \<Rightarrow> string \<Rightarrow> string" where
  "trim_start_str p s = (if p \<noteq> [] \<and> prefix p s then trim_start_str p (drop (length p) s) else s)"
  by pat_completeness auto

termination
  by (relation "measure (\<lambda>(p, s). length s)") (auto simp: prefix_def)

declare trim_start_str.simps [simp del]

definition client_name :: string where
  "client_name = trim_start_str ''benchcli-'' CLIENT_NAME"

text \<open>\<^verbatim>\<open>{name:<width$}\<close>\<close>

definition pad :: "nat \<Rightarrow> string \<Rightarrow> string" where
  "pad width name = name @ replicate (width - length name) (CHR '' '')"

definition console_row :: "string \<Rightarrow> nat \<Rightarrow> string \<times> string \<Rightarrow> string" where
  "console_row bench_type width row =
     (if fst row = ''Framework'' then pad width ''BenchType'' @ '': '' @ bench_type @ [CHR 0x0A] else []) @
     pad width (fst row) @ '': '' @ snd row"

fun join_rows :: "string list \<Rightarrow> string" where
  "join_rows [] = []"
| "join_rows [r] = r"
| "join_rows (r # rs) = r @ [CHR 0x0A] @ join_rows rs"

definition console :: "string \<Rightarrow> (string \<times> string) list \<Rightarrow> string" where
  "console bench_type rows =
     (let width = max (foldl max 0 (map (\<lambda>r. length (fst r)) rows)) (length ''BenchType'')
      in join_rows (map (console_row bench_type width) rows))"

definition latency_rows :: "summary \<Rightarrow> bool \<Rightarrow> (string \<times> string) list" where
  "latency_rows s with_tpn =
     (if \<not> with_tpn then []
      else [(''Min'', time_string (s_min s)), (''Avg'', time_string (s_avg s)), (''Max'', time_string (s_max s)),
            (''TP95'', time_string (s_tp95 s)), (''TP99'', time_string (s_tp99 s))])"

definition ps_rows :: "ps_stats \<Rightarrow> (string \<times> string) list" where
  "ps_rows p =
     [(''CPU Avg'', show_fixed2 (ps_cpu_avg p) @ ''%''), (''CPU Max'', show_fixed2 (ps_cpu_max p) @ ''%''),
      (''MEM Avg'', mem_string (ps_mem_avg p)), (''MEM Max'', mem_string (ps_mem_max p))]"

definition connections_console :: "connections_report \<Rightarrow> summary \<Rightarrow> bool \<Rightarrow> string" where
  "connections_console r s with_tpn =
     console ''Connections''
       ([(''Framework'', cr_framework r), (''Client'', client_name), (''Threads'', show_nat (cr_threads r)),
         (''TPS'', show_int (cr_tps r))] @
        latency_rows s with_tpn @
        [(''Used'', time_string (cr_used r)), (''Total'', show_nat (cr_total r)), (''Success'', show_int (cr_success r)),
         (''Failed'', show_int (cr_failed r)), (''Concurrency'', show_nat (cr_concurrency r))])"

definition echo_console :: "bench_echo_report \<Rightarrow> summary \<Rightarrow> bool \<Rightarrow> string" where
  "echo_console r s with_tpn =
     console ''BenchEcho''
       ([(''Framework'', er_framework r), (''Client'', client_name), (''Threads'', show_nat (er_threads r)),
         (''TPS'', show_int (er_tps r)), (''CPU EER'', show_fixed2 (er_cpu_eer r)), (''MEM EER'', show_fixed2 (er_mem_eer r))] @
        latency_rows s with_tpn @
        [(''Used'', time_string (er_used r)), (''Total'', show_nat (er_total r)), (''Success'', show_int (er_success r)),
         (''Failed'', show_int (er_failed r)), (''Conns'', show_nat (er_connections r)),
         (''Concurrency'', show_nat (er_concurrency r)), (''Payload'', show_nat (er_payload r))] @
        ps_rows (er_ps r))"

definition rate_console :: "bench_rate_report \<Rightarrow> string" where
  "rate_console r =
     console BENCH_MULTIPLEX
       ([(''Framework'', rr_framework r), (''Client'', client_name), (''Threads'', show_nat (rr_threads r)),
         (''Duration'', time_string (rr_duration r)), (''TPS'', show_int (rr_tps r)),
         (''CPU EER'', show_fixed2 (rr_cpu_eer r)), (''MEM EER'', show_fixed2 (rr_mem_eer r)),
         (''Req Sent'', show_nat (rr_send_times r)), (''Bytes Sent'', mem_string (rr_send_bytes r)),
         (''Resp Recv'', show_nat (rr_recv_times r)), (''Bytes Recv'', mem_string (rr_recv_bytes r)),
         (''Conns'', show_nat (rr_connections r)), (''SendRate'', show_nat (rr_send_rate r)),
         (''Batch'', show_nat (rr_batch r)), (''Payload'', show_nat (rr_payload r))] @
        ps_rows (rr_ps r))"

subsection \<open>What is reported\<close>

text \<open>
  C36. The ratios can be carried by JSON and are right: whatever the throughput and the
  cost, the result is finite; for a cost that is not positive it is zero; for a positive
  one, with a quotient that is neither tiny nor too large, it is the quotient to within
  one rounding.
\<close>

theorem eer_accurate:
  "is_finite (eer throughput cost) \<and> (cost \<le> 0 \<longrightarrow> eer throughput cost = 0) \<and>
   (0 < cost \<and> cost < 2 ^ 1024 \<and> throughput < 2 ^ 1024 \<and> 2 powi (- 1021) \<le> throughput / cost \<and>
      throughput / cost < 2 ^ 1000 \<longrightarrow>
    near 1 (eer throughput cost) (throughput / cost))"
proof -
  have "near 1 (eer throughput cost) (throughput / cost)"
    if a: "0 < cost" "cost < 2 ^ 1024" "throughput < 2 ^ 1024" "2 powi (- 1021) \<le> throughput / cost"
      "throughput / cost < 2 ^ 1000"
  proof -
    let ?q = "throughput / cost"
    have q: "0 < ?q" using a(4) by (rule less_le_trans [rotated]) simp
    then have t: "0 < throughput" using a(1) by (simp add: zero_less_divide_iff)
    have "near 0 ?q ?q" by (simp add: near_def)
    from near_rnd [OF this a(4)] have n: "near 1 (fdiv throughput cost) ?q" by (simp add: fdiv_def)
    from near_half [OF this] q have b: "?q / 2 \<le> fdiv throughput cost" "fdiv throughput cost \<le> 2 * ?q" by simp_all
    have "\<bar>fdiv throughput cost\<bar> < 2 ^ 1024"
    proof -
      have "fdiv throughput cost < 2 * 2 ^ 1000" using b(2) a(5) by linarith
      also have "(2 :: rat) * 2 ^ 1000 \<le> 2 ^ 1024" by (simp flip: power_Suc)
      finally show ?thesis using b(1) q by simp
    qed
    then show ?thesis using a t n by (simp add: eer_def is_finite_def Let_def)
  qed
  then show ?thesis by (auto simp: eer_def is_finite_def Let_def)
qed

theorem eer_accurate_witness: "near 1 (eer 10 4) (5 / 2)"
proof -
  have "(2 :: rat) powi (- 1021) \<le> 2 powi 0" by (rule power_int_increasing) simp_all
  then show ?thesis using eer_accurate [of 10 4] by simp
qed

lemma write_all_prefix:
  "write_all write files = (r, done) \<Longrightarrow>
     prefix done files \<and> (r = None \<longleftrightarrow> done = files) \<and> (r = None \<longleftrightarrow> list_all (\<lambda>(path, c). write path = None) files)"
  by (induction files arbitrary: r "done") (auto split: option.splits prod.splits)

lemma json_not_pprof: "filename name preffix (sufx @ ''.json'') \<notin> fst ` set (pprof_files name pprof preffix sufx)"
  by (auto simp: pprof_files_def filename_def split: option.splits)

text \<open>
  C37. A report is written whole or the error is returned. The files that were written are,
  in order, the CPU profile and the heap profile that are not empty and then the JSON, up
  to the first that could not be written; the JSON file, the one the report tables are
  made from, was written exactly when there is no error, which is when the directory,
  every profile and the JSON itself could be made.
\<close>

theorem report_written:
  assumes "to_file mkdir write json name pprof preffix sufx = (r, done)"
    and "path = filename name preffix (sufx @ ''.json'')"
  shows "prefix done (pprof_files name pprof preffix sufx @ [(path, case json of Inr text \<Rightarrow> text | Inl _ \<Rightarrow> [])]) \<and>
    (r = None \<longleftrightarrow> path \<in> fst ` set done) \<and>
    (r = None \<longleftrightarrow> mkdir = None \<and> (\<exists>text. json = Inr text) \<and> write path = None \<and>
       list_all (\<lambda>(p, c). write p = None) (pprof_files name pprof preffix sufx))"
proof -
  obtain r1 done1 where w: "write_all write (pprof_files name pprof preffix sufx) = (r1, done1)" by fastforce
  note p = write_all_prefix [OF w]
  have np: "path \<notin> fst ` set (pprof_files name pprof preffix sufx)" unfolding assms(2) by (rule json_not_pprof)
  then have "path \<notin> fst ` set done1" using p set_mono_prefix by fastforce
  moreover have "prefix done1 (pprof_files name pprof preffix sufx @ zs)" for zs using p by (auto intro: prefix_order.trans)
  ultimately show ?thesis
    using assms p np w
    by (auto simp: to_file_def Let_def split: option.splits sum.splits)
qed

theorem report_written_witness:
  "\<exists>r done. to_file None (\<lambda>_. None) (Inr ''{}'') ''fib-BenchEcho'' (Some (''cpu'', [])) [] ''_1'' = (r, done) \<and>
     r = None \<and> length done = 2"
proof -
  have t: "to_file None (\<lambda>_. None) (Inr ''{}'') ''fib-BenchEcho'' (Some (''cpu'', [])) [] ''_1'' =
      (None, [(''./output/report/fib-BenchEcho_1.pprof.cpu'', ''cpu''), (''./output/report/fib-BenchEcho_1.json'', ''{}'')])"
    by (simp add: to_file_def pprof_files_def filename_def)
  from report_written [OF t refl] t show ?thesis by auto
qed

end
