(* ===== verification/Client_Main.thy ===== *)
theory Client_Main
  imports Bench Flags Report
begin

text \<open>
  The client's program, \<^verbatim>\<open>main\<close> of \<^verbatim>\<open>benchcli-rust/src/main.rs\<close>: its flags, the checks on
  them and what they plan, the jobs of the benchmarks, the reports, and the order in
  which it all happens. What the engine's runs end with, how long they take, the samples
  and the profiles are the environment's. The theorem: whatever the command line and the
  environment, the reports it makes are in order and make sense.
\<close>

subsection \<open>Flags\<close>

definition define_flags :: flag_set where
  "define_flags = foldl (\<lambda>fs add. add fs) []
     [flag_int ''m'' 4294967296 ''accepted for the servers' sake: their memory limit'',
      flag_int ''streams'' 100 ''accepted for the servers' sake: their max concurrent request streams per connection'',
      flag_duration ''idle'' ''120s'' ''QUIC max idle timeout; a connection quiet for a quarter of it is sent a PING'',
      flag_string ''f'' ''quicgo'' (''framework, e.g. '' @ [CHR 0x22] @ ''quicgo'' @ [CHR 0x22]),
      flag_string ''ip'' ''127.0.0.1'' (''ip, e.g. '' @ [CHR 0x22] @ ''127.0.0.1'' @ [CHR 0x22]),
      flag_int ''t'' 0 ''client: event-loop threads, 0 for one per CPU this process may run on'',
      flag_int ''c'' 10000 ''client: num of connections'',
      flag_int ''dc'' 2000 ''client: dial concurrency: how many handshakes are in progress at once'',
      flag_duration ''dt'' ''5s'' ''client: dial timeout, which also bounds the first request on a connection'',
      flag_int ''dr'' 5 ''client: dial retry times'',
      flag_duration ''dri'' ''100ms'' ''client: dial retry interval'',
      flag_int ''b'' 1024 ''benchmark: request body size of benchecho and benchrate, which the server echoes back'',
      flag_bool ''check'' False ''benchmark: whether to check the validity of the response data'',
      flag_int ''pi'' 1000 ''benchmark: ps interval of benchecho and benchrate, 1000 ms by default'',
      flag_string ''ps'' MODE_AUTO (''benchmark: where the server's CPU and MEM samples come from: '' @ [CHR 0x22] @ ''auto'' @ [CHR 0x22] @ '' samples the server here when it runs on this machine and asks it over HTTP when it does not, '' @ [CHR 0x22] @ ''local'' @ [CHR 0x22] @ '' always samples here, '' @ [CHR 0x22] @ ''remote'' @ [CHR 0x22] @ '' always asks''),
      flag_bool ''tpn'' True ''benchmark: whether enable TPN caculation'',
      flag_int ''ec'' 10000 ''benchecho: concurrency: how many connections have a request in flight at once'',
      flag_int ''en'' 2000000 ''benchecho: benchmark times'',
      flag_int ''el'' 0 ''benchecho: TPS limitation per second'',
      flag_bool ''ep'' False ''benchecho: generate pprof report'',
      flag_int ''epd'' 5 ''benchecho: pprof duration'',
      flag_bool ''rate'' False ''benchrate: whether run BenchMultiplex'',
      flag_int ''rd'' 10 ''benchrate: how long to spend to do the test, in seconds'',
      flag_int ''rr'' 200 ''benchrate: how many requests are sent on 1 conn every second'',
      flag_int ''rbs'' 16384 ''benchrate: how many bytes of request bodies are sent on 1 conn at a time, when -rb is 0'',
      flag_int ''rb'' 0 ''benchrate: batch: how many request streams are opened together on 1 conn, which must divide -rr; 0 takes as many as fit in -rbs bytes'',
      flag_int ''rl'' 0 ''benchrate: request sending limitation per second'',
      flag_bool ''rp'' False ''benchrate: generate pprof report'',
      flag_int ''rpd'' 5 ''benchrate: pprof duration'',
      flag_bool ''r'' False ''make report: done by benchreport (output/bin/bench.report), which script/report.sh runs'',
      flag_string ''preffix'' [] (''report file preffix, e.g. '' @ [CHR 0x22] @ ''1m_connections_'' @ [CHR 0x22]),
      flag_string ''suffix'' [] (''report file suffix, e.g. '' @ [CHR 0x22] @ ''_20060102150405'' @ [CHR 0x22]),
      flag_string ''sort'' ''result'' (''accepted for benchreport's sake: report row order, '' @ [CHR 0x22] @ ''result'' @ [CHR 0x22] @ '' or '' @ [CHR 0x22] @ ''framework'' @ [CHR 0x22])]"

subsection \<open>The plan\<close>

record plan =
  pl_framework :: string
  pl_ip :: string
  pl_ps_mode :: string
  pl_payload :: nat
  pl_rate_send :: nat
  pl_rate_plan :: "(nat \<times> nat) option"
  pl_addrs :: "socket_addr list"
  pl_control :: "socket_addr option"
  pl_preffix :: string
  pl_suffix :: string
  pl_tpn :: bool
  pl_threads :: nat
  pl_num_conns :: nat
  pl_echo_times :: nat
  pl_ps_interval :: duration

text \<open>How the program stops: after the usage, in \<^verbatim>\<open>fatalf!\<close>, in a panic, waiting for ever, or at its end.\<close>

datatype client_stop = StopExit string | StopFatal string | StopPanic | StopWaiting | Finished

text \<open>\<^verbatim>\<open>{:?}\<close> of a list of names.\<close>

definition show_names :: "string list \<Rightarrow> string" where
  "show_names names = ''['' @ concat (map (\<lambda>n. show_debug n @ '', '') (butlast names)) @
     (if names = [] then [] else show_debug (last names)) @ '']''"

definition flag_checks :: "flag_set \<Rightarrow> string option" where
  "flag_checks f =
     (let sort = the (get_str f ''sort'') in
      if sort \<noteq> ''result'' \<and> sort \<noteq> ''framework''
      then Some (''report: unknown sort order '' @ show_debug sort @ '', want one of [result framework]'')
      else case validate_mode (the (get_str f ''ps'')) of
        Some e \<Rightarrow> Some e
      | None \<Rightarrow>
          if the (get_bool f ''r'')
          then Some ''-r: the report tables are written by benchreport; run script/report.sh'' else None)"

definition client_threads :: "flag_set \<Rightarrow> nat option \<Rightarrow> nat" where
  "client_threads f cpus =
     (let n = the (get_int f ''t'') in if 0 < n then as_u64 n else case cpus of None \<Rightarrow> 1 | Some c \<Rightarrow> c)"

definition rate_plan_of :: "flag_set \<Rightarrow> nat \<Rightarrow> nat \<Rightarrow> string + (nat \<times> nat) option" where
  "rate_plan_of f rate_send payload =
     (let rb = the (get_int f ''rb'') in
      if the (get_bool f ''rate'')
      then (case rate_batch (as_u64 (max rb (- 1))) rate_send (as_u64 (max (the (get_int f ''rbs'')) 1)) payload of
              Inr v \<Rightarrow> Inr (Some v)
            | Inl e \<Rightarrow> Inl (''-rb='' @ show_int rb @ '': '' @ e))
      else Inr None)"

definition make_plan :: "resolver \<Rightarrow> nat option \<Rightarrow> flag_set \<Rightarrow> string + plan" where
  "make_plan resolve cpus f =
     (case flag_checks f of
        Some e \<Rightarrow> Inl e
      | None \<Rightarrow>
          (let framework = the (get_str f ''f''); ip = the (get_str f ''ip'');
               payload = as_u64 (max (the (get_int f ''b'')) 1);
               rate_send = as_u64 (max (the (get_int f ''rr'')) 1);
               rb = the (get_int f ''rb'')
           in case rate_plan_of f rate_send payload of
                Inl e \<Rightarrow> Inl e
              | Inr rate_plan \<Rightarrow>
                  if rb < 0 then
                    Inl (''-rb='' @ show_int rb @ '': want 0, which fits as many requests as -rbs holds, or more'')
                  else if \<not> is_framework framework then
                    Inl (''-f='' @ framework @ '': unknown framework '' @ show_debug framework @ '', want one of '' @
                         show_names framework_names)
                  else
                    (case benchmark_addrs resolve framework ip of
                       Inl e \<Rightarrow> Inl e
                     | Inr addrs \<Rightarrow>
                         Inr \<lparr>pl_framework = framework, pl_ip = ip, pl_ps_mode = the (get_str f ''ps''), pl_payload = payload,
                              pl_rate_send = rate_send, pl_rate_plan = rate_plan, pl_addrs = addrs,
                              pl_control = (case control_addr resolve framework ip of Inl _ \<Rightarrow> None | Inr a \<Rightarrow> Some a),
                              pl_preffix = the (get_str f ''preffix''), pl_suffix = the (get_str f ''suffix''),
                              pl_tpn = the (get_bool f ''tpn''), pl_threads = client_threads f cpus,
                              pl_num_conns = as_u64 (max (the (get_int f ''c'')) 1),
                              pl_echo_times = as_u64 (max (the (get_int f ''en'')) 0),
                              pl_ps_interval = as_u64 (max (the (get_int f ''pi'')) 1) * 1000000\<rparr>)))"

definition client_config :: "flag_set \<Rightarrow> plan \<Rightarrow> engine_config" where
  "client_config f P =
     \<lparr>cfg_addrs = pl_addrs P, cfg_authority = authority (pl_ip P), cfg_dial_timeout = the (get_duration f ''dt''),
      cfg_dial_retries = as_u64 (max (the (get_int f ''dr'')) 1),
      cfg_dial_retry_interval = the (get_duration f ''dri''), cfg_idle_timeout = the (get_duration f ''idle''),
      cfg_check = the (get_bool f ''check'')\<rparr>"

subsection \<open>Profiles\<close>

definition http_get :: "(nat \<Rightarrow> exchange) \<Rightarrow> string \<Rightarrow> string \<Rightarrow> string + string" where
  "http_get X addr path = fst (control_request X addr ''GET'' path [])"

text \<open>The thread of \<^verbatim>\<open>pprof_later\<close>, with the exchanges of its two requests.\<close>

definition pprof_later :: "(nat \<Rightarrow> exchange) \<Rightarrow> (nat \<Rightarrow> exchange) \<Rightarrow> string \<Rightarrow> int \<Rightarrow> (string \<times> string) option" where
  "pprof_later X Y addr seconds =
     (case http_get X addr (''/debug/pprof/profile?seconds='' @ show_int seconds) of
        Inl _ \<Rightarrow> None
      | Inr cpu \<Rightarrow> (case http_get Y addr ''/debug/pprof/heap'' of Inl _ \<Rightarrow> None | Inr mem \<Rightarrow> Some (cpu, mem)))"

text \<open>A profile thread that was started: whether it is finished, and what it ends with.\<close>

definition pprof_result :: "(bool \<times> (string \<times> string) option) option \<Rightarrow> (string \<times> string) option" where
  "pprof_result handle = (case handle of None \<Rightarrow> None | Some (finished, v) \<Rightarrow> if finished then v else None)"

subsection \<open>The benchmarks\<close>

definition dial_conc_of :: "flag_set \<Rightarrow> plan \<Rightarrow> nat" where
  "dial_conc_of f P = min (as_u64 (max (the (get_int f ''dc'')) 1)) (pl_num_conns P)"

definition make_connections_report :: "plan \<Rightarrow> nat \<Rightarrow> latencies \<Rightarrow> summary \<Rightarrow> duration \<Rightarrow> connections_report" where
  "make_connections_report P dial_conc lat s used =
     (let tp = (\<lambda>v. if pl_tpn P then v else 0) in
      \<lparr>cr_framework = pl_framework P, cr_bench_client = CLIENT_NAME, cr_threads = pl_threads P, cr_tps = s_tps s,
       cr_min = s_min s, cr_avg = s_avg s, cr_max = s_max s, cr_tp50 = tp (s_tp50 s), cr_tp75 = tp (s_tp75 s),
       cr_tp90 = tp (s_tp90 s), cr_tp95 = tp (s_tp95 s), cr_tp99 = tp (s_tp99 s), cr_used = as_i64 (int used),
       cr_total = pl_num_conns P, cr_success = success lat, cr_failed = failed lat, cr_concurrency = dial_conc\<rparr>)"

definition echo_conc_of :: "flag_set \<Rightarrow> nat \<Rightarrow> nat" where
  "echo_conc_of f total_ready = min (as_u64 (max (the (get_int f ''ec'')) 1)) total_ready"

definition make_echo_job :: "flag_set \<Rightarrow> bytes list \<Rightarrow> instant \<Rightarrow> nat \<Rightarrow> bool \<Rightarrow> echo_job" where
  "make_echo_job f payloads now num measured =
     (let limit = as_u64 (max (the (get_int f ''el'')) 0) in
      \<lparr>ej_times = num, ej_numbers = \<lambda>i. i, ej_issued = 0, ej_payloads = payloads, ej_measure = measured,
       ej_limiter = (if 0 < limit then Some (limiter_new limit now) else None)\<rparr>)"

definition warmup_times :: "nat \<Rightarrow> nat" where
  "warmup_times total_ready = min (total_ready * 5 mod 2 ^ 64) 2000000"

definition make_echo_report :: "plan \<Rightarrow> nat \<Rightarrow> nat \<Rightarrow> latencies \<Rightarrow> summary \<Rightarrow> duration \<Rightarrow> ps_stats \<Rightarrow> bool \<Rightarrow>
    (string \<times> string) option \<Rightarrow> bench_echo_report" where
  "make_echo_report P total_ready echo_conc lat s used stat pprof_on pprof =
     (let tp = (\<lambda>v. if pl_tpn P then v else 0) in
      \<lparr>er_framework = pl_framework P, er_bench_client = CLIENT_NAME, er_threads = pl_threads P, er_tps = s_tps s,
       er_cpu_eer = cpu_eer (f64_of_int (s_tps s)) (ps_cpu_avg stat), er_mem_eer = mem_eer (f64_of_int (s_tps s)) (ps_mem_avg stat),
       er_min = s_min s, er_avg = s_avg s, er_max = s_max s, er_tp50 = tp (s_tp50 s), er_tp75 = tp (s_tp75 s),
       er_tp90 = tp (s_tp90 s), er_tp95 = tp (s_tp95 s), er_tp99 = tp (s_tp99 s), er_used = as_i64 (int used),
       er_total = pl_echo_times P, er_success = success lat, er_failed = failed lat, er_connections = total_ready,
       er_concurrency = echo_conc, er_payload = pl_payload P, er_ps = stat, er_pprof_on = pprof_on, er_pprof = pprof\<rparr>)"

text \<open>The tick is \<^verbatim>\<open>Duration::from_secs(1) / tick_rate as u32\<close>, a panic when the divisor is zero.\<close>

definition make_rate_job :: "flag_set \<Rightarrow> nat \<Rightarrow> nat \<Rightarrow> bytes \<Rightarrow> instant \<Rightarrow> rate_job option" where
  "make_rate_job f batch tick_rate body now =
     (let limit = as_u64 (max (the (get_int f ''rl'')) 0) in
      if as_u32 tick_rate = 0 then None
      else Some \<lparr>rj_duration = secs (as_u64 (max (the (get_int f ''rd'')) 1)), rj_batch = batch,
                 rj_tick = secs 1 div as_u32 tick_rate, rj_payload = body,
                 rj_limiter = (if 0 < limit then Some (limiter_new limit now) else None)\<rparr>)"

definition make_rate_report :: "plan \<Rightarrow> nat \<Rightarrow> rate_job \<Rightarrow> rate_counts \<Rightarrow> nat \<Rightarrow> ps_stats \<Rightarrow> bool \<Rightarrow>
    (string \<times> string) option \<Rightarrow> bench_rate_report" where
  "make_rate_report P batch job c conns stat pprof_on pprof =
     (let tps = fdiv (f64_of_nat (recv_times c)) (as_secs_f64 (rj_duration job)) in
      \<lparr>rr_framework = pl_framework P, rr_bench_client = CLIENT_NAME, rr_threads = pl_threads P,
       rr_duration = as_i64 (int (rj_duration job)), rr_tps = f64_as_i64 (of_int \<lfloor>tps\<rfloor>),
       rr_cpu_eer = cpu_eer tps (ps_cpu_avg stat), rr_mem_eer = mem_eer tps (ps_mem_avg stat),
       rr_send_times = send_times c, rr_send_bytes = send_bytes c, rr_recv_times = recv_times c, rr_recv_bytes = recv_bytes c,
       rr_connections = conns, rr_send_rate = pl_rate_send P, rr_batch = batch, rr_payload = pl_payload P,
       rr_ps = stat, rr_pprof_on = pprof_on, rr_pprof = pprof\<rparr>)"

subsection \<open>The program\<close>

datatype report = RConnections connections_report | REcho bench_echo_report | RRate bench_rate_report

text \<open>
  What happens to the program: the resolver and the CPUs, whether the engine starts, how
  each of its runs ends on the commands it is given and how long it takes, the numbers
  the shared counter of a job hands the workers, the ready connections, the statistics
  of the two benchmarks, the profiles and the random bytes.
\<close>

record client_env =
  cv_resolve :: resolver
  cv_cpus :: "nat option"
  cv_engine_error :: "string option"
  cv_dial_end :: "command list \<Rightarrow> run_end"
  cv_dial_used :: duration
  cv_ready :: "nat list"
  cv_numbers :: "nat \<Rightarrow> nat \<Rightarrow> nat"
  cv_payloads :: "nat \<Rightarrow> bytes list"
  cv_now :: instant
  cv_warm_end :: "command list \<Rightarrow> run_end"
  cv_echo_end :: "command list \<Rightarrow> run_end"
  cv_echo_used :: duration
  cv_echo_stats :: ps_stats
  cv_echo_pprof :: "(bool \<times> (string \<times> string) option) option"
  cv_rate_body :: "nat \<Rightarrow> bytes"
  cv_rate_ready :: "nat list"
  cv_rate_end :: "command list \<Rightarrow> run_end"
  cv_rate_stats :: ps_stats
  cv_rate_pprof :: "(bool \<times> (string \<times> string) option) option"

text \<open>The outcomes of a run, or how the program stops in it.\<close>

definition run_outcomes :: "run_end \<Rightarrow> client_stop + outcome list" where
  "run_outcomes e =
     (case e of Collected outs \<Rightarrow> Inr outs | Fatal msg \<Rightarrow> Inl (StopFatal msg) | RunPanic \<Rightarrow> Inl StopPanic | Waiting \<Rightarrow> Inl StopWaiting)"

definition rate_part :: "client_env \<Rightarrow> flag_set \<Rightarrow> plan \<Rightarrow> report list \<times> client_stop" where
  "rate_part E f P =
     (case pl_rate_plan P of
        None \<Rightarrow> ([], Finished)
      | Some (batch, tick_rate) \<Rightarrow>
          (case make_rate_job f batch tick_rate (cv_rate_body E (pl_payload P)) (cv_now E) of
             None \<Rightarrow> ([], StopPanic)
           | Some job \<Rightarrow>
               (case run_outcomes (cv_rate_end E (replicate (pl_threads P) (CRate job))) of
                  Inl stop \<Rightarrow> ([], stop)
                | Inr outs \<Rightarrow>
                    ([RRate (make_rate_report P batch job (merge_rates outs) (sum_list (cv_rate_ready E)) (cv_rate_stats E)
                        (the (get_bool f ''rp'')) (pprof_result (cv_rate_pprof E)))], Finished))))"

definition echo_part :: "client_env \<Rightarrow> flag_set \<Rightarrow> plan \<Rightarrow> report list \<times> client_stop" where
  "echo_part E f P =
     (let total_ready = sum_list (cv_ready E) in
      if total_ready = 0 then ([], StopFatal ''BenchEcho: no connections to run on'')
      else
        (let echo_conc = echo_conc_of f total_ready; concs = split_by echo_conc (cv_ready E);
             job = make_echo_job f (cv_payloads E (pl_payload P)) (cv_now E)
         in case run_outcomes (cv_warm_end E (echo_commands (job (warmup_times total_ready) False) (cv_numbers E) concs)) of
              Inl stop \<Rightarrow> ([], stop)
            | Inr _ \<Rightarrow>
                (case run_outcomes (cv_echo_end E (echo_commands (job (pl_echo_times P) True) (cv_numbers E) concs)) of
                   Inl stop \<Rightarrow> ([], stop)
                 | Inr outs \<Rightarrow>
                     (let (lat, s) = summarize (merge_echoes outs) (cv_echo_used E);
                          er = make_echo_report P total_ready echo_conc lat s (cv_echo_used E) (cv_echo_stats E)
                            (the (get_bool f ''ep'')) (pprof_result (cv_echo_pprof E))
                      in case rate_part E f P of (reports, stop) \<Rightarrow> (REcho er # reports, stop)))))"

definition client_main :: "client_env \<Rightarrow> string \<Rightarrow> string list \<Rightarrow> report list \<times> client_stop" where
  "client_main E program args =
     (case parse_flags args define_flags of
        (Some FlagPanic, _) \<Rightarrow> ([], StopPanic)
      | (Some (Message e), f) \<Rightarrow> ([], StopExit ((if e \<noteq> [] then e @ [CHR 0x0A] else []) @ usage f program))
      | (None, f) \<Rightarrow>
          (case make_plan (cv_resolve E) (cv_cpus E) f of
             Inl e \<Rightarrow> ([], StopFatal e)
           | Inr P \<Rightarrow>
               (case cv_engine_error E of
                  Some e \<Rightarrow> ([], StopFatal (''starting the client: '' @ e))
                | None \<Rightarrow>
                    (let dial_conc = dial_conc_of f P in
                     case run_outcomes (cv_dial_end E (dial_commands (pl_num_conns P) dial_conc (pl_threads P))) of
                       Inl stop \<Rightarrow> ([], stop)
                     | Inr outs \<Rightarrow>
                         (let (lat, s) = summarize (merge_dials outs) (cv_dial_used E);
                              cr = make_connections_report P dial_conc lat s (cv_dial_used E)
                          in case echo_part E f P of (reports, stop) \<Rightarrow> (RConnections cr # reports, stop))))))"

subsection \<open>The flags are defined and their defaults valid\<close>

text \<open>The flags the program reads, by kind.\<close>

lemma client_flags:
  "list_all (\<lambda>n. kinds define_flags n = Some FInt) [''t'', ''c'', ''dc'', ''dr'', ''b'', ''pi'', ''ec'', ''en'', ''el'',
     ''rd'', ''rr'', ''rbs'', ''rb'', ''rl'']"
  "list_all (\<lambda>n. kinds define_flags n = Some FBool) [''check'', ''tpn'', ''ep'', ''rate'', ''rp'', ''r'']"
  "list_all (\<lambda>n. kinds define_flags n = Some FStr) [''f'', ''ip'', ''ps'', ''preffix'', ''suffix'', ''sort'']"
  "list_all (\<lambda>n. kinds define_flags n = Some FDuration) [''idle'', ''dt'', ''dri'']"
  by (simp_all add: kinds_def define_flags_def flag_defs map_of_flag_add)

lemma kinds_defined: "kinds fs name = Some k \<Longrightarrow> \<exists>fl. map_of fs name = Some fl \<and> fl_kind fl = k"
  by (auto simp: kinds_def)

lemma define_flags_ok: "flags_ok define_flags"
proof -
  have "flags_ok []" by (simp add: flags_ok_def)
  then show ?thesis
    unfolding define_flags_def foldl.simps flag_defs
    by (intro flags_ok_add check_int) (simp_all add: check_def parse_bool_def Let_def default_durations)
qed

subsection \<open>The reports\<close>

lemma rate_batch_Inr:
  assumes "rate_batch rb rate rbs payload = Inr (batch, bursts)"
  shows "batch dvd rate \<and> 1 \<le> batch"
proof (cases "0 < rb")
  case True
  then show ?thesis using assms by (auto simp: rate_batch_def dvd_eq_mod_eq_0 split: if_splits)
next
  case False
  then have "batch = fit_batch rate (max (rbs div max payload 1) 1)" using assms by (simp add: rate_batch_def Let_def)
  then show ?thesis using fit_batch_spec [of "max (rbs div max payload 1) 1" rate] by simp
qed

lemma rate_plan_of_Inr:
  assumes "rate_plan_of f rate_send payload = Inr rp"
  shows "(case rp of None \<Rightarrow> True | Some (batch, bursts) \<Rightarrow> batch dvd rate_send \<and> 1 \<le> batch) \<and>
    (rp \<noteq> None \<longleftrightarrow> the (get_bool f ''rate''))"
proof (cases "the (get_bool f ''rate'')")
  case True
  then obtain v where "rp = Some v"
    "rate_batch (as_u64 (max (the (get_int f ''rb'')) (- 1))) rate_send (as_u64 (max (the (get_int f ''rbs'')) 1)) payload = Inr v"
    using assms by (auto simp: rate_plan_of_def Let_def split: sum.splits)
  then show ?thesis using True rate_batch_Inr by (cases v) auto
next
  case False
  then show ?thesis using assms by (auto simp: rate_plan_of_def)
qed

lemma client_positive:
  assumes "f = snd (parse_flags args define_flags)" and "kinds define_flags name = Some FInt"
  shows "1 \<le> as_u64 (max (the (get_int f name)) 1)"
  using positive_setting(1) assms kinds_defined by blast

lemma client_threads_pos:
  assumes "f = snd (parse_flags args define_flags)" and "cpus \<noteq> Some 0"
  shows "1 \<le> client_threads f cpus"
proof -
  obtain fl where "map_of define_flags ''t'' = Some fl" using client_flags(1) kinds_defined by fastforce
  from parse_get_int [OF this, of args] obtain n where n: "get_int f ''t'' = Some n" "n < 2 ^ 63"
    using assms(1) by blast
  then have "0 < n \<Longrightarrow> 0 < as_u64 n" by (simp add: as_u64_id)
  then show ?thesis using n(1) assms(2) by (auto simp: client_threads_def Let_def split: option.split)
qed

text \<open>What a plan promises.\<close>

definition plan_ok :: "plan \<Rightarrow> bool" where
  "plan_ok P \<longleftrightarrow> is_framework (pl_framework P) \<and> 1 \<le> pl_threads P \<and> 1 \<le> pl_num_conns P \<and> 1 \<le> pl_payload P \<and>
     length (pl_addrs P) = 50 \<and>
     (case pl_rate_plan P of None \<Rightarrow> True | Some (batch, bursts) \<Rightarrow> batch dvd pl_rate_send P \<and> 1 \<le> batch)"

lemma benchmark_addrs_length: "benchmark_addrs resolve framework ip = Inr addrs \<Longrightarrow> length addrs = 50"
  by (auto simp: benchmark_addrs_def ports_simps simp del: upt_conv_Cons upt_Suc split: option.splits sum.splits if_splits)

lemma make_plan_ok:
  assumes "make_plan resolve cpus f = Inr P" and "f = snd (parse_flags args define_flags)" and "cpus \<noteq> Some 0"
  shows "plan_ok P" and "pl_rate_plan P \<noteq> None \<longleftrightarrow> the (get_bool f ''rate'')"
proof -
  have pos: "1 \<le> as_u64 (max (the (get_int f ''b'')) 1)" "1 \<le> as_u64 (max (the (get_int f ''c'')) 1)"
    using client_positive [OF assms(2)] client_flags(1) by simp_all
  let ?rs = "as_u64 (max (the (get_int f ''rr'')) 1)" and ?pl = "as_u64 (max (the (get_int f ''b'')) 1)"
  have c: "flag_checks f = None" using assms(1) by (cases "flag_checks f") (simp_all add: make_plan_def)
  obtain rp where rp: "rate_plan_of f ?rs ?pl = Inr rp"
    using assms(1) by (cases "rate_plan_of f ?rs ?pl") (simp_all add: make_plan_def c Let_def)
  have fw: "\<not> the (get_int f ''rb'') < 0" "is_framework (the (get_str f ''f''))"
    using assms(1) by (simp_all add: make_plan_def c rp Let_def split: if_splits)
  obtain addrs where addrs: "benchmark_addrs resolve (the (get_str f ''f'')) (the (get_str f ''ip'')) = Inr addrs"
    using assms(1) fw
    by (cases "benchmark_addrs resolve (the (get_str f ''f'')) (the (get_str f ''ip''))") (simp_all add: make_plan_def c rp Let_def)
  have R: "pl_framework P = the (get_str f ''f'')" "pl_threads P = client_threads f cpus" "pl_addrs P = addrs" "pl_rate_plan P = rp"
      "pl_num_conns P = as_u64 (max (the (get_int f ''c'')) 1)" "pl_payload P = ?pl" "pl_rate_send P = ?rs"
    using assms(1) fw by (auto simp: make_plan_def c rp addrs Let_def)
  show "plan_ok P" and "pl_rate_plan P \<noteq> None \<longleftrightarrow> the (get_bool f ''rate'')"
    using pos client_threads_pos [OF assms(2,3)] rate_plan_of_Inr [OF rp] benchmark_addrs_length [OF addrs] R fw
    by (auto simp: plan_ok_def split: option.splits)
qed

fun report_ok :: "report \<Rightarrow> bool" where
  "report_ok (RConnections c) \<longleftrightarrow> is_framework (cr_framework c) \<and> 1 \<le> cr_threads c \<and> 1 \<le> cr_concurrency c \<and>
     cr_concurrency c \<le> cr_total c"
| "report_ok (REcho e) \<longleftrightarrow> is_framework (er_framework e) \<and> 1 \<le> er_threads e \<and> 1 \<le> er_payload e \<and>
     1 \<le> er_concurrency e \<and> er_concurrency e \<le> er_connections e \<and> is_finite (er_cpu_eer e) \<and> is_finite (er_mem_eer e)"
| "report_ok (RRate r) \<longleftrightarrow> is_framework (rr_framework r) \<and> 1 \<le> rr_threads r \<and> 1 \<le> rr_payload r \<and>
     1 \<le> rr_batch r \<and> rr_batch r dvd rr_send_rate r \<and> is_finite (rr_cpu_eer r) \<and> is_finite (rr_mem_eer r)"

datatype bench = BConnections | BEcho | BMultiplex

fun bench_of :: "report \<Rightarrow> bench" where
  "bench_of (RConnections _) = BConnections" | "bench_of (REcho _) = BEcho" | "bench_of (RRate _) = BMultiplex"

lemma eer_finite: "is_finite (eer t c)"
  by (simp add: eer_def is_finite_def Let_def)

lemma rate_part_ok:
  assumes "plan_ok P" and "rate_part E f P = (reports, stop)"
  shows "list_all report_ok reports \<and> prefix (map bench_of reports) [BMultiplex] \<and>
    (stop = Finished \<longrightarrow> map bench_of reports = (if pl_rate_plan P = None then [] else [BMultiplex]))"
  using assms
  by (auto simp: rate_part_def plan_ok_def make_rate_report_def cpu_eer_def mem_eer_def eer_finite Let_def run_outcomes_def
      split: option.splits prod.splits sum.splits run_end.splits)

lemma echo_part_ok:
  assumes "plan_ok P" and "1 \<le> as_u64 (max (the (get_int f ''ec'')) 1)" and "echo_part E f P = (reports, stop)"
  shows "list_all report_ok reports \<and> prefix (map bench_of reports) [BEcho, BMultiplex] \<and>
    (stop = Finished \<longrightarrow> map bench_of reports = BEcho # (if pl_rate_plan P = None then [] else [BMultiplex]))"
proof -
  define t where "t = sum_list (cv_ready E)"
  define "on" pp where "on = the (get_bool f ''ep'')" and "pp = pprof_result (cv_echo_pprof E)"
  obtain rest rstop where r: "rate_part E f P = (rest, rstop)" by fastforce
  have "reports = [] \<and> stop \<noteq> Finished \<or>
      (\<exists>lat s. t \<noteq> 0 \<and> reports = REcho (make_echo_report P t (echo_conc_of f t) lat s (cv_echo_used E) (cv_echo_stats E) on pp) # rest \<and> stop = rstop)"
    using assms(3) unfolding echo_part_def Let_def t_def [symmetric] r run_outcomes_def on_def pp_def
    by (auto split: prod.splits sum.splits run_end.splits if_splits)
  then show ?thesis
  proof
    assume "\<exists>lat s. t \<noteq> 0 \<and> reports = REcho (make_echo_report P t (echo_conc_of f t) lat s (cv_echo_used E) (cv_echo_stats E) on pp) # rest \<and> stop = rstop"
    then obtain lat s where t: "t \<noteq> 0"
      and rep: "reports = REcho (make_echo_report P t (echo_conc_of f t) lat s (cv_echo_used E) (cv_echo_stats E) on pp) # rest" "stop = rstop" by blast
    have "1 \<le> t" using t by simp
    then have "1 \<le> echo_conc_of f t" "echo_conc_of f t \<le> t"
      using assms(2) by (simp_all only: echo_conc_of_def min.bounded_iff min.cobounded2 simp_thms)
    then have "report_ok (REcho (make_echo_report P t (echo_conc_of f t) lat s (cv_echo_used E) (cv_echo_stats E) on pp))"
      using assms(1) by (simp add: plan_ok_def make_echo_report_def cpu_eer_def mem_eer_def eer_finite Let_def)
    then show ?thesis using rate_part_ok [OF assms(1) r] by (simp add: rep)
  qed simp
qed

text \<open>
  C40. What the client reports makes sense. Whatever the command line and whatever happens
  to it: the reports it makes are those of \<^verbatim>\<open>Connections\<close>, \<^verbatim>\<open>BenchEcho\<close> and \<^verbatim>\<open>BenchMultiplex\<close>
  in this order, up to where it stopped; when it comes to its end the first two are
  there, and the third exactly when \<^verbatim>\<open>-rate\<close> is set. Each is about a framework of the table
  and at least one thread; the concurrency is at least one and at most the connections;
  the batch divides the send rate; and every ratio is a number that JSON can carry.
\<close>

theorem client_reports:
  assumes "client_main E program args = (reports, stop)" and "cv_cpus E \<noteq> Some 0"
  shows "list_all report_ok reports \<and> prefix (map bench_of reports) [BConnections, BEcho, BMultiplex] \<and>
    (stop = Finished \<longrightarrow>
       (\<exists>f. parse_flags args define_flags = (None, f) \<and>
          map bench_of reports = [BConnections, BEcho] @ (if the (get_bool f ''rate'') then [BMultiplex] else [])))"
proof (cases "\<exists>f P. parse_flags args define_flags = (None, f) \<and> make_plan (cv_resolve E) (cv_cpus E) f = Inr P \<and>
    cv_engine_error E = None")
  case False
  then have "reports = [] \<and> stop \<noteq> Finished"
    using assms(1) by (auto simp: client_main_def split: prod.splits option.splits flag_error.splits sum.splits)
  then show ?thesis by simp
next
  case True
  then obtain f P where f: "parse_flags args define_flags = (None, f)"
    and P: "make_plan (cv_resolve E) (cv_cpus E) f = Inr P" "cv_engine_error E = None" by blast
  have fs: "f = snd (parse_flags args define_flags)" using f by simp
  note ok = make_plan_ok [OF P(1) fs assms(2)]
  have pos: "1 \<le> as_u64 (max (the (get_int f ''ec'')) 1)" "1 \<le> as_u64 (max (the (get_int f ''dc'')) 1)"
    using client_positive [OF fs] client_flags(1) by simp_all
  obtain rest rstop where e: "echo_part E f P = (rest, rstop)" by fastforce
  have "1 \<le> dial_conc_of f P" "dial_conc_of f P \<le> pl_num_conns P"
    using pos(2) ok(1) unfolding dial_conc_of_def plan_ok_def by auto
  then show ?thesis
    using assms(1) f P ok echo_part_ok [OF ok(1) pos(1) e]
    by (auto simp: client_main_def make_connections_report_def plan_ok_def run_outcomes_def Let_def e
        split: prod.splits sum.splits run_end.splits if_splits)
qed

text \<open>A world in which everything works, with one worker and one connection.\<close>

definition calm_env :: client_env where
  "calm_env = \<lparr>cv_resolve = loopback_resolver, cv_cpus = Some 1, cv_engine_error = None,
     cv_dial_end = \<lambda>_. Collected [ODial (lat_ok 5 lat_default)], cv_dial_used = secs 1, cv_ready = [1], cv_numbers = \<lambda>i j. j,
     cv_payloads = \<lambda>n. [replicate n 0], cv_now = 0, cv_warm_end = \<lambda>_. Collected [OEcho lat_default],
     cv_echo_end = \<lambda>_. Collected [OEcho (lat_ok 7 lat_default)], cv_echo_used = secs 1, cv_echo_stats = ps_default,
     cv_echo_pprof = None, cv_rate_body = \<lambda>n. replicate n 0, cv_rate_ready = [1], cv_rate_end = \<lambda>_. Collected [ORate rate_counts_default],
     cv_rate_stats = ps_default, cv_rate_pprof = None\<rparr>"

lemma default_values:
  "get_str define_flags ''sort'' = Some ''result''" "get_str define_flags ''ps'' = Some ''auto''"
  "get_bool define_flags ''r'' = Some False" "get_bool define_flags ''rate'' = Some False" "get_int define_flags ''rb'' = Some 0"
  "get_str define_flags ''f'' = Some ''quicgo''" "get_str define_flags ''ip'' = Some ''127.0.0.1''"
proof -
  have "parse_i64 (show_int 0) = Some 0" by (rule parse_i64_show_int) simp_all
  then show "get_int define_flags ''rb'' = Some 0"
    by (simp add: get_int_def raw_def define_flags_def flag_defs map_of_flag_add)
qed (simp_all add: get_str_def get_bool_def raw_def define_flags_def flag_defs map_of_flag_add parse_bool_def MODE_AUTO_def)

theorem client_reports_witness:
  "\<exists>reports. client_main calm_env ''benchcli-rust'' [] = (reports, Finished) \<and>
     map bench_of reports = [BConnections, BEcho] \<and> list_all report_ok reports"
proof -
  have f: "parse_flags [] define_flags = (None, define_flags)" by (simp add: parse_flags.simps)
  obtain P where P: "make_plan loopback_resolver (Some 1) define_flags = Inr P" "pl_rate_plan P = None"
    by (simp add: make_plan_def flag_checks_def default_values validate_mode_def MODE_AUTO_def Let_def rate_plan_of_def
        is_framework_def ports_simps benchmark_addrs_def first_addr_def loopback_resolver_def)
  have "\<exists>reports. client_main calm_env ''benchcli-rust'' [] = (reports, Finished)"
    using P by (simp add: client_main_def f calm_env_def run_outcomes_def echo_part_def rate_part_def Let_def split: prod.split)
  then obtain reports where r: "client_main calm_env ''benchcli-rust'' [] = (reports, Finished)" by blast
  from client_reports [OF r] r f default_values(4) show ?thesis by (auto simp: calm_env_def)
qed

text \<open>
  A negative \<^verbatim>\<open>-rb\<close> with \<^verbatim>\<open>-rate\<close> is turned into the largest \<^verbatim>\<open>usize\<close> before it is refused, so the
  message is not the one for a negative value.
\<close>

lemma negative_rb_message:
  assumes "get_bool f ''rate'' = Some True" and "get_int f ''rb'' = Some rb" and "rb < 0" and "1 \<le> rate_send" and "rate_send < 2 ^ 63"
  shows "rate_plan_of f rate_send payload =
    Inl (''-rb='' @ show_int rb @ '': batch '' @ show_nat (2 ^ 64 - 1) @ '' does not divide the send rate '' @ show_nat rate_send @
         '', so no whole number of bursts a second sends it; pick a divisor of '' @ show_nat rate_send)"
proof -
  have "max rb (- 1) = - 1" using assms(3) by simp
  then have "as_u64 (max rb (- 1)) = 2 ^ 64 - 1" by (simp add: as_u64_def)
  moreover have "rate_send mod (2 ^ 64 - 1) = rate_send" using assms(5) by simp
  ultimately show ?thesis using assms(1,2,4) by (simp add: rate_plan_of_def rate_batch_def Let_def)
qed

end
