(* ===== verification/Spec2Isabelle.thy ===== *)
theory Spec2Isabelle
  imports Bench_Runs Server_Runs Server_Main Control_Ps Engine_Ticks Loops Client_Main
begin

text \<open>
  A verification library for the Rust programs of an HTTP/3 benchmark: the load generator
  \<^verbatim>\<open>benchcli-rust\<close>, the server \<^verbatim>\<open>frameworks/quiche\<close> and the library \<^verbatim>\<open>benchkit\<close> they share.

  \<^bold>\<open>The programs.\<close> The client dials many QUIC connections to the fifty UDP ports of a server
  (\<^verbatim>\<open>Connections\<close>), measures round trips of \<^verbatim>\<open>/echo\<close> one at a time per connection (\<^verbatim>\<open>BenchEcho\<close>)
  and sends batches at a fixed rate without waiting (\<^verbatim>\<open>BenchMultiplex\<close>). Its main thread
  (\<^verbatim>\<open>main.rs\<close>, \<^verbatim>\<open>struct Engine\<close>) sends each worker thread (\<^verbatim>\<open>struct Worker\<close>) a command and waits
  for its outcome; workers share a few atomic counters and a rate limiter. A worker is an event
  loop: poll, read sockets, let quiche and its HTTP/3 layer process them, fire timers and
  retries, drive the running benchmark, flush. The server's workers are event loops of the
  same kind that answer \<^verbatim>\<open>/echo\<close> with the body they got. Beside the benchmark the client samples
  the CPU and memory of the server, itself (\<^verbatim>\<open>procstat.rs\<close>) or by asking the server's control port
  (\<^verbatim>\<open>ps.rs\<close>, \<^verbatim>\<open>control.rs\<close>), and writes reports (\<^verbatim>\<open>stats.rs\<close>, \<^verbatim>\<open>report.rs\<close>).

  \<^bold>\<open>Foundations.\<close>
  \<^item> \<^theory_text>\<open>Prelude\<close>: machine types and casts, decimal printing and parsing, tables of optional slots and
    sums over them, and the contract \<open>even_split\<close> of whatever shares a total out.
  \<^item> \<^theory_text>\<open>Containers\<close>: \<^verbatim>\<open>BinaryHeap\<close> and the slot table with its free list, their contracts as the locales
    \<open>max_heap\<close> and \<open>slot_table\<close>, interpreted on the models; the event loops use only those facts.
  \<^item> \<^theory_text>\<open>Float64\<close>: \<^verbatim>\<open>f64\<close> as rationals rounded to nearest even after every operation, the conversions to
    and from integers and \<^verbatim>\<open>Duration\<close>, and \<open>near\<close>, a calculus of relative errors. Not-a-number and
    signed zero do not arise where it is used; a value past the largest one is told apart by \<open>is_finite\<close>.
  \<^item> \<^theory_text>\<open>Text\<close>: \<^verbatim>\<open>str\<close> as its UTF-8 bytes: trimming, splitting at white space, lines, lossy decoding and
    \<^verbatim>\<open>{:?}\<close>, which leaves the bytes of characters outside ASCII as they are.
  \<^item> \<^theory_text>\<open>Quiche_Api\<close>: quiche, mio, the sockets and the clock as records of operations over opaque states, the
    parameter \<open>D\<close> of both event loops. Nothing of them is defined; \<open>fresh_streams\<close> (a new request
    gets a stream not in use) and \<open>body_bound\<close> (no more is taken than offered) are the only things
    assumed of them. \<^theory_text>\<open>Loopback\<close> is one environment, for examples.

  \<^bold>\<open>The client's engine\<close> (\<^verbatim>\<open>benchcli-rust/src/engine.rs\<close>).
  \<^item> \<^theory_text>\<open>Engine_Conn\<close>: \<^verbatim>\<open>struct Conn\<close>, \<^verbatim>\<open>process_conn\<close>, \<^verbatim>\<open>fail_streams\<close>, the connection's part of \<^verbatim>\<open>try_send\<close>. Every
    request taken off a connection becomes one event; a checked response succeeds exactly when
    it is the bytes sent.
  \<^item> \<^theory_text>\<open>Limiter\<close>: the token bucket in \<^verbatim>\<open>f64\<close>; what it grants is bounded by burst and rate up to rounding.
  \<^item> \<^theory_text>\<open>Engine_Worker\<close>: \<^verbatim>\<open>struct Worker\<close> with every method as a function on the record \<open>worker\<close>, up to
    \<open>iteration\<close>, one round of \<^verbatim>\<open>Worker::run\<close>. A panic is the fault \<open>Panic\<close>.
  \<^item> \<^theory_text>\<open>Engine_Inv\<close>, \<^theory_text>\<open>Engine_Steps\<close>, \<^theory_text>\<open>Engine_Reach\<close>: the invariant \<open>winv\<close>, which accounts for every dial and every
    round trip by where it is, that every method keeps it, and \<open>reachable\<close>, an inductive
    predicate over commands and iterations. From it: nothing is lost or counted twice, a connection has one
    operation at a time, the ready counter and the tables are exact.
  \<^item> \<^theory_text>\<open>Loops\<close>, \<^theory_text>\<open>Engine_Ticks\<close>: the loops the program bounds end, and more fuel changes nothing; the loop
    that catches up with missed ticks ends exactly when the tick is not zero.
  \<^item> \<^theory_text>\<open>Engine\<close>: \<^verbatim>\<open>Engine::new\<close>, \<^verbatim>\<open>run\<close> and \<^verbatim>\<open>stop\<close>: the outcomes are collected whatever order they arrive in.
  \<^item> \<^theory_text>\<open>Latencies\<close>, \<^theory_text>\<open>Stats\<close> (\<^verbatim>\<open>stats.rs\<close>): merging, percentiles by rank although computed in \<^verbatim>\<open>f64\<close>, averages,
    printed times.
  \<^item> \<^theory_text>\<open>Plan\<close>, \<^theory_text>\<open>Bench\<close>, \<^theory_text>\<open>Client_Main\<close> (\<^verbatim>\<open>main.rs\<close>): \<^verbatim>\<open>rate_batch\<close>, \<^verbatim>\<open>split\<close>, \<^verbatim>\<open>split_by\<close>; the commands of a
    benchmark and its merged outcomes, which over all workers come to what was asked for; the
    flags, checks, plan, jobs and reports of \<^verbatim>\<open>main\<close> in their order.

  \<^bold>\<open>The server\<close> (\<^verbatim>\<open>frameworks/quiche/src\<close>).
  \<^item> \<^theory_text>\<open>Server\<close>, \<^theory_text>\<open>Server_Inv\<close>, \<^theory_text>\<open>Server_Run\<close> (\<^verbatim>\<open>server.rs\<close>): requests, responses that wait for quiche,
    connection IDs, timers, one turn of the event loop, and \<open>srv_reach\<close>. The answer is the
    request's body, delivered once and in order; the tables stay sound; no index panics; no
    deadline is slept past.
  \<^item> \<^theory_text>\<open>Server_Main\<close> (\<^verbatim>\<open>main.rs\<close>): flags, settings and the shares of the ports: every port the client dials is
    served by exactly one worker.
  \<^item> \<^theory_text>\<open>Control\<close> (\<^verbatim>\<open>control.rs\<close>): the HTTP/1 control server with \<^verbatim>\<open>/init\<close> and \<^verbatim>\<open>/ps\<close>.

  \<^bold>\<open>Flags, statistics and reports.\<close>
  \<^item> \<^theory_text>\<open>Flags\<close> (\<^verbatim>\<open>flags.rs\<close>): the parser of the command line refines a sequence of checked assignments, getters
    never fall back, durations are read back exactly, and one panics.
  \<^item> \<^theory_text>\<open>Config\<close> (\<^verbatim>\<open>config.rs\<close>): frameworks, ports and addresses.
  \<^item> \<^theory_text>\<open>Procstat\<close> (\<^verbatim>\<open>procstat.rs\<close>): finding and reading a process, the sampler and its contract \<open>sample_log\<close> with those
    who read it.
  \<^item> \<^theory_text>\<open>Ps\<close> (\<^verbatim>\<open>ps.rs\<close>): control requests with retries, sources, marks and statistics; the locale \<open>control_server\<close> is
    what the client expects of a control port. \<^theory_text>\<open>Control_Ps\<close> interprets it on the server's \<open>serve\<close>.
  \<^item> \<^theory_text>\<open>Report\<close> (\<^verbatim>\<open>report.rs\<close>): records, ratios, files and the console text.

  \<^bold>\<open>How the code's effects are modelled.\<close> State is passed through records. Threads that share a counter:
  a worker has the sequence of numbers its own \<^verbatim>\<open>fetch_add\<close> calls return (\<open>ej_numbers\<close>,
  \<open>w_addr_numbers\<close>), any increasing one, and \<open>echo_complete\<close> puts the workers back together for
  every way the numbers can be shared out. The limiter is the worker's own copy, so its bound is
  one for each worker there; \<open>limiter_limits\<close> itself is about any sequence of calls, those that
  workers sharing a limiter make under its lock included. Channels are the sequence of messages received. Time is a number of
  nanoseconds that the environment hands out.

  \<^bold>\<open>Fuel.\<close> A loop over quiche or a socket has the fuel of \<open>D\<close>, any number, and running out of it is
  the fault \<open>OutOfFuel\<close>, which ends the run of a worker. The invariants hold for every fuel, and \<open>loops_end\<close> says that it does
  not show: a loop of one connection that ends within it returns the same with any more. When quiche and a
  socket have no more to give, and how many timers, retries and connections to flush come up in one
  iteration, is up to the environment; a run that the theorems speak of is one in which the fuel lasted. The fuel of \<open>drive_echo\<close>, the round
  trips still to be drawn and two more rounds, and that of \<open>send_queued\<close>, one round for each
  queued request, are worked out by the model and proved to be enough, whatever quiche does. \<open>catch_up\<close>, which may not end,
  is a \<^theory_text>\<open>partial_function\<close> with None for that. All other loops are total functions.

  \<^bold>\<open>Parameters.\<close> quiche, mio, sockets and the clock; resolving and parsing addresses; the files of
  \<^verbatim>\<open>/proc\<close>, \<^verbatim>\<open>ps\<close> and \<^verbatim>\<open>sysconf\<close>; serde's JSON; the file system; for \<^verbatim>\<open>main\<close> of the client also how
  the runs of the engine end and what is sampled, so that its theorem holds for all of these. Integers are
  as wide as in the code where they can wrap (\<^verbatim>\<open>split\<close>, \<^verbatim>\<open>cpu_and_rss\<close>, casts, memory sums);
  counters that go up by one stay below 64 bits for any run there can be and are unbounded. Taking one
  from a counter that is zero is a \<open>Panic\<close> where a release build would wrap; the invariants show it does not
  happen. Adding a duration to an instant does not overflow.

  \<^bold>\<open>Not modelled.\<close> \<^verbatim>\<open>logging.rs\<close>, the log lines and the printing of sections to the console: pure output. The
  configuration of quiche and of the socket buffers (\<^verbatim>\<open>new_quiche_config\<close>, \<^verbatim>\<open>quiche_config\<close>,
  \<^verbatim>\<open>set_socket_buffers\<close>) and \<^verbatim>\<open>certificate_files\<close>: sequences of calls into libraries. The macOS variant
  of \<^verbatim>\<open>cpu_and_rss\<close>: one call of libproc. The signal handler and the final wait of the server. Data
  races cannot happen in the safe Rust of the workers; memory order of the relaxed counters is seen only in
  the numbers they return. The Go servers and the report generator are another language, the scripts and
  workflows run the programs.

  \<^bold>\<open>What modelling showed.\<close> A sampler's reading after a failed one counts two intervals as one; the fallback to the
  server's samples reads those of earlier benchmarks too; a duration flag can panic, and a long one is off by a nanosecond; a tick of zero
  does not end; a worker can wait for ever in \<^verbatim>\<open>RatePrep\<close>; a socket that cannot be registered leaves an
  idle slot empty; a negative \<^verbatim>\<open>-rb\<close> is refused with the wrong message.
\<close>

end
